(* ===== verification/Ring_Buffer.thy ===== *)
theory Ring_Buffer
  imports Prelude
begin

text \<open>
  \<open>src/utils/ringbuf.rs\<close>: the fixed-capacity byte ring that keeps the tail of ffmpeg's
  stderr.  The state is the struct \<open>Inner\<close>; \<open>ring_write\<close> and \<open>ring_snapshot\<close> are the
  two methods, with the index arithmetic of the code.  The contract of the ring is the
  locale \<open>tail_log\<close>: a snapshot is the last \<open>cap\<close> bytes of everything written.
\<close>

section \<open>The code\<close>

record ring =
  rb_buf :: bytes
  rb_head :: nat
  rb_full :: bool

definition ring_new :: "nat \<Rightarrow> ring" where
  "ring_new capacity =
     (let cap = (if capacity = 0 then 4096 else capacity)
      in \<lparr>rb_buf = replicate cap 0, rb_head = 0, rb_full = False\<rparr>)"

definition ring_snapshot :: "ring \<Rightarrow> bytes" where
  "ring_snapshot r =
     (if \<not> rb_full r then take (rb_head r) (rb_buf r)
      else drop (rb_head r) (rb_buf r) @ take (rb_head r) (rb_buf r))"

text \<open>\<open>Write::write\<close>: the number of bytes taken, always all of them, and the ring.\<close>

definition ring_write :: "ring \<Rightarrow> bytes \<Rightarrow> nat \<times> ring" where
  "ring_write r p =
     (let n = length p in
      if n = 0 then (0, r)
      else
        let cap = length (rb_buf r) in
        if cap \<le> n then
          (n, r\<lparr>rb_buf := drop (n - cap) p, rb_head := 0, rb_full := True\<rparr>)
        else
          let head = rb_head r;
              written = min n (length (drop head (rb_buf r)));
              buf1 = overwrite head (take written p) (rb_buf r);
              buf2 = (if written < n then overwrite 0 (drop written p) buf1 else buf1);
              head' = (head + n) mod cap
          in (n, r\<lparr>rb_buf := buf2, rb_head := head',
                   rb_full := (if \<not> rb_full r \<and> head' < n then True else rb_full r)\<rparr>))"

definition ring_flush :: "ring \<Rightarrow> ring" where
  "ring_flush r = r"

definition ring_cap :: "ring \<Rightarrow> nat" where
  "ring_cap r = length (rb_buf r)"

definition ring_push :: "ring \<Rightarrow> bytes \<Rightarrow> ring" where
  "ring_push r p = snd (ring_write r p)"

section \<open>The contract\<close>

text \<open>
  A log that keeps a tail: what the users of the ring (the stderr capture of
  \<open>ShellReader\<close>) rely on.
\<close>

locale tail_log =
  fixes push :: "'r \<Rightarrow> 'b list \<Rightarrow> 'r"
    and contents :: "'r \<Rightarrow> 'b list"
    and cap :: "'r \<Rightarrow> nat"
    and inv :: "'r \<Rightarrow> bool"
  assumes inv_push: "inv r \<Longrightarrow> inv (push r p)"
    and cap_push: "inv r \<Longrightarrow> cap (push r p) = cap r"
    and contents_push: "inv r \<Longrightarrow> contents (push r p) = last_n (cap r) (contents r @ p)"
    and contents_bound: "inv r \<Longrightarrow> length (contents r) \<le> cap r"
begin

lemma contents_pushes:
  "inv r \<Longrightarrow>
     inv (foldl push r ps) \<and> cap (foldl push r ps) = cap r \<and>
     contents (foldl push r ps) = last_n (cap r) (contents r @ concat ps)"
proof (induction ps arbitrary: r)
  case Nil
  then show ?case by (simp add: last_n_all contents_bound)
next
  case (Cons p ps)
  from Cons.IH [OF inv_push [OF Cons.prems]] Cons.prems show ?case
    by (simp add: cap_push contents_push last_n_absorb)
qed

text \<open>How the bytes were cut into writes does not matter.\<close>

lemma contents_chunks:
  "inv r \<Longrightarrow> concat ps = concat qs \<Longrightarrow>
     contents (foldl push r ps) = contents (foldl push r qs)"
  using contents_pushes by simp

lemma contents_suffix:
  "inv r \<Longrightarrow> suffix (contents (foldl push r ps)) (contents r @ concat ps)"
  by (metis contents_pushes last_n_def suffix_drop)

end

section \<open>The ring keeps it\<close>

definition ring_inv :: "ring \<Rightarrow> bool" where
  "ring_inv r \<longleftrightarrow> rb_head r < length (rb_buf r)"

lemma ring_inv_new [inv_rules]: "ring_inv (ring_new c)"
  by (simp add: ring_inv_def ring_new_def)

lemma ring_snapshot_new: "ring_snapshot (ring_new c) = []"
  by (simp add: ring_snapshot_def ring_new_def Let_def)

lemma ring_cap_new: "ring_cap (ring_new c) = (if c = 0 then 4096 else c)"
  by (simp add: ring_cap_def ring_new_def)

lemma length_ring_snapshot: "ring_inv r \<Longrightarrow> length (ring_snapshot r) \<le> ring_cap r"
  by (simp add: ring_snapshot_def ring_inv_def ring_cap_def)

text \<open>The three shapes of a write: everything replaced, no wrap, wrap.\<close>

lemma ring_push_empty: "ring_push r [] = r"
  by (simp add: ring_push_def ring_write_def)

lemma ring_push_long:
  "ring_inv r \<Longrightarrow> ring_cap r \<le> length p \<Longrightarrow>
     ring_push r p =
       r\<lparr>rb_buf := drop (length p - ring_cap r) p, rb_head := 0, rb_full := True\<rparr>"
  by (auto simp: ring_push_def ring_write_def ring_cap_def ring_inv_def Let_def)

lemma ring_push_nowrap:
  assumes "p \<noteq> []" "rb_head r + length p < ring_cap r"
  shows "ring_push r p = r\<lparr>rb_buf := overwrite (rb_head r) p (rb_buf r),
                          rb_head := rb_head r + length p\<rparr>"
  using assms by (simp add: ring_push_def ring_write_def ring_cap_def Let_def)

lemma ring_push_wrap:
  assumes "ring_inv r" "length p < ring_cap r" "ring_cap r \<le> rb_head r + length p"
  shows "ring_push r p =
     (let room = ring_cap r - rb_head r
      in r\<lparr>rb_buf := overwrite 0 (drop room p) (overwrite (rb_head r) (take room p) (rb_buf r)),
           rb_head := length p - room, rb_full := True\<rparr>)"
proof -
  let ?room = "ring_cap r - rb_head r"
  have hd: "rb_head r < ring_cap r"
    using assms(1) by (simp add: ring_inv_def ring_cap_def)
  have md: "(rb_head r + length p) mod ring_cap r = length p - ?room"
    using assms hd by (simp add: le_mod_geq)
  have ne: "length p \<noteq> 0" using assms hd by auto
  have lt: "length p - ?room < length p" using ne hd by linarith
  have mn: "min (length p) (length (drop (rb_head r) (rb_buf r))) = ?room"
    using assms hd by (simp add: ring_cap_def)
  show ?thesis
    using assms hd md ne lt mn
    by (simp add: ring_push_def ring_write_def ring_cap_def Let_def)
qed

lemma ring_inv_push [inv_rules]: "ring_inv r \<Longrightarrow> ring_inv (ring_push r p)"
proof (cases "length p < ring_cap r")
  case False
  assume "ring_inv r"
  with False show ?thesis
    by (auto simp: ring_push_long ring_inv_def ring_cap_def not_less)
next
  case True
  assume inv: "ring_inv r"
  show ?thesis
  proof (cases "p = [] \<or> rb_head r + length p < ring_cap r")
    case True
    with inv show ?thesis
      by (cases "p = []")
        (simp_all add: ring_push_empty ring_push_nowrap ring_inv_def ring_cap_def)
  next
    case nowrap: False
    with inv True show ?thesis
      by (simp add: ring_push_wrap ring_inv_def ring_cap_def Let_def)
  qed
qed

lemma ring_cap_push: "ring_inv r \<Longrightarrow> ring_cap (ring_push r p) = ring_cap r"
proof (cases "length p < ring_cap r")
  case False
  assume "ring_inv r"
  with False show ?thesis
    by (auto simp: ring_push_long ring_cap_def not_less)
next
  case True
  assume inv: "ring_inv r"
  show ?thesis
  proof (cases "p = [] \<or> rb_head r + length p < ring_cap r")
    case True
    with inv show ?thesis
      by (cases "p = []") (simp_all add: ring_push_empty ring_push_nowrap ring_cap_def)
  next
    case nowrap: False
    with inv True show ?thesis
      by (simp add: ring_push_wrap ring_inv_def ring_cap_def Let_def)
  qed
qed

section \<open>What a snapshot holds\<close>

lemma ring_snapshot_push_nowrap:
  assumes "ring_inv r" "p \<noteq> []" "rb_head r + length p < ring_cap r"
  shows "ring_snapshot (ring_push r p) = last_n (ring_cap r) (ring_snapshot r @ p)"
proof -
  let ?h = "rb_head r" and ?b = "rb_buf r" and ?n = "length p"
  have le: "?h \<le> length ?b" using assms by (simp add: ring_cap_def)
  show ?thesis
  proof (cases "rb_full r")
    case False
    with assms le show ?thesis
      by (simp add: ring_push_nowrap ring_snapshot_def take_overwrite last_n_all ring_cap_def)
  next
    case True
    have "drop (?h + ?n) (overwrite ?h p ?b) = drop (?h + ?n) ?b"
      using le by (simp add: overwrite_def)
    moreover have "take (?h + ?n) (overwrite ?h p ?b) = take ?h ?b @ p"
      using le by (rule take_overwrite)
    ultimately show ?thesis
      using True assms le
      by (simp add: ring_push_nowrap ring_snapshot_def ring_cap_def last_n_def add.commute)
  qed
qed

lemma ring_snapshot_push_wrap:
  assumes "ring_inv r" "length p < ring_cap r" "ring_cap r \<le> rb_head r + length p"
  shows "ring_snapshot (ring_push r p) = last_n (ring_cap r) (ring_snapshot r @ p)"
proof -
  let ?h = "rb_head r" and ?b = "rb_buf r" and ?n = "length p"
  let ?room = "length ?b - ?h"
  have h: "?h < length ?b" and n: "?n < length ?b" and w: "length ?b \<le> ?h + ?n"
    using assms by (simp_all add: ring_inv_def ring_cap_def)
  have "overwrite ?h (take ?room p) ?b = take ?h ?b @ take ?room p"
    using h w by (simp add: overwrite_def)
  moreover have "take (?n - ?room) (overwrite 0 (drop ?room p) xs) = drop ?room p" for xs
    by (simp add: overwrite_def)
  moreover have "drop (?n - ?room) (overwrite 0 (drop ?room p) xs) = drop (?n - ?room) xs" for xs
    by (simp add: overwrite_def)
  ultimately have "ring_snapshot (ring_push r p) = drop (?n - ?room) (take ?h ?b) @ p"
    using assms h n w
    by (simp add: ring_push_wrap ring_snapshot_def Let_def ring_cap_def)
  moreover have "last_n (ring_cap r) (ring_snapshot r @ p) = drop (?n - ?room) (take ?h ?b) @ p"
    using h n w by (simp add: ring_snapshot_def ring_cap_def last_n_def add.commute)
  ultimately show ?thesis by simp
qed

lemma ring_snapshot_push:
  assumes "ring_inv r"
  shows "ring_snapshot (ring_push r p) = last_n (ring_cap r) (ring_snapshot r @ p)"
proof -
  consider "p = []" | "ring_cap r \<le> length p" "p \<noteq> []"
    | "p \<noteq> []" "rb_head r + length p < ring_cap r"
    | "length p < ring_cap r" "ring_cap r \<le> rb_head r + length p"
    by linarith
  then show ?thesis
  proof cases
    case 1
    with assms show ?thesis
      by (simp add: ring_push_empty last_n_all length_ring_snapshot)
  next
    case 2
    with assms have "ring_snapshot (ring_push r p) = drop (length p - ring_cap r) p"
      by (simp add: ring_push_long ring_snapshot_def)
    with 2 show ?thesis by (simp add: last_n_append_long last_n_def)
  next
    case 3
    with assms show ?thesis by (simp add: ring_snapshot_push_nowrap)
  next
    case 4
    with assms show ?thesis by (simp add: ring_snapshot_push_wrap)
  qed
qed

interpretation ring_log: tail_log ring_push ring_snapshot ring_cap ring_inv
  by unfold_locales
    (simp_all add: inv_rules ring_cap_push ring_snapshot_push length_ring_snapshot)

text \<open>
  C30. A snapshot of the ring is exactly the last \<open>capacity\<close> bytes (4096 for capacity 0)
  of everything written to it, in order, for every sequence of writes and however the
  bytes were cut into writes.
\<close>

theorem ring_keeps_tail:
  "ring_snapshot (foldl ring_push (ring_new c) ps) =
     last_n (if c = 0 then 4096 else c) (concat ps)"
  using ring_log.contents_pushes [of "ring_new c" ps]
  by (simp add: ring_inv_new ring_snapshot_new ring_cap_new)

text \<open>Every write reports the whole slice as written, as \<open>Ok(n)\<close> says.\<close>

lemma ring_write_count: "fst (ring_write r p) = length p"
  by (simp add: ring_write_def Let_def)

end
