(* ===== verification/Models.thy ===== *)
theory Models
  imports Prelude
begin

text \<open>
  \<open>src/models/\<close>: the error type, the device and stream kinds, the media constants, the
  media state reported to callers and the connection states with their integer encoding
  (\<open>state as i32\<close>), which the atomics of the transport and of the calls hold.
\<close>

section \<open>Errors (\<open>errors.rs\<close>)\<close>

text \<open>\<open>ClosedE\<close> is the error \<open>Closed\<close>; \<open>Closed\<close> is the connection state.\<close>

datatype error =
    ConnectionExists
  | ConnectionNotFound
  | ConnectionFailed
  | InvalidParams string
  | UnsupportedCallMode
  | FFmpegSpawn string
  | FFmpegCrashed string
  | WebRTC string
  | File
  | ClosedE
  | Internal string
  | NotConnected
  | WrongMode
  | NoSource
  | SeekUnsupported

fun show_error :: "error \<Rightarrow> string" where
  "show_error ConnectionExists = ''rusttgcalls: call already exists for chat''"
| "show_error ConnectionNotFound = ''rusttgcalls: no call for chat''"
| "show_error ConnectionFailed = ''rusttgcalls: ICE failed permanently''"
| "show_error (InvalidParams s) = ''rusttgcalls: malformed telegram params: '' @ s"
| "show_error UnsupportedCallMode = ''rusttgcalls: call mode not supported''"
| "show_error (FFmpegSpawn s) = ''rusttgcalls: ffmpeg failed to start: '' @ s"
| "show_error (FFmpegCrashed s) = ''rusttgcalls: ffmpeg exited non-zero: '' @ s"
| "show_error (WebRTC s) = ''rusttgcalls: webrtc error: '' @ s"
| "show_error File = ''rusttgcalls: input file unreadable''"
| "show_error ClosedE = ''rusttgcalls: client closed''"
| "show_error (Internal s) = ''rusttgcalls: internal error: '' @ s"
| "show_error NotConnected = ''rusttgcalls: call not connected''"
| "show_error WrongMode = ''rusttgcalls: operation not valid for call mode''"
| "show_error NoSource = ''rusttgcalls: no source currently playing''"
| "show_error SeekUnsupported = ''rusttgcalls: source is not seekable''"

section \<open>Devices, streams, constants (\<open>media_description.rs\<close>)\<close>

datatype device = Microphone | Camera

fun show_device :: "device \<Rightarrow> string" where
  "show_device Microphone = ''microphone''"
| "show_device Camera = ''camera''"

datatype stream_type = Audio | Video

fun show_stream_type :: "stream_type \<Rightarrow> string" where
  "show_stream_type Audio = ''audio''"
| "show_stream_type Video = ''video''"

definition DEFAULT_CHANNEL_COUNT :: u16 where "DEFAULT_CHANNEL_COUNT = 2"
definition OPUS_SAMPLE_RATE :: u32 where "OPUS_SAMPLE_RATE = 48000"
definition OPUS_FRAME_DURATION_MS :: u32 where "OPUS_FRAME_DURATION_MS = 20"
definition OPUS_PAYLOAD_TYPE :: u8 where "OPUS_PAYLOAD_TYPE = 111"
definition VP8_PAYLOAD_TYPE :: u8 where "VP8_PAYLOAD_TYPE = 100"

lemmas media_consts = DEFAULT_CHANNEL_COUNT_def OPUS_SAMPLE_RATE_def
  OPUS_FRAME_DURATION_MS_def OPUS_PAYLOAD_TYPE_def VP8_PAYLOAD_TYPE_def

section \<open>Media and connection state (\<open>media_state.rs\<close>)\<close>

record media_state =
  ms_muted :: bool
  ms_paused :: bool
  ms_video_stopped :: bool
  ms_presentation_paused :: bool

definition media_state_default :: media_state where
  "media_state_default =
     \<lparr>ms_muted = False, ms_paused = False, ms_video_stopped = False,
      ms_presentation_paused = False\<rparr>"

datatype conn_state = Connecting | Connected | Disconnected | Failed | Closed

definition conn_state_default :: conn_state where
  "conn_state_default = Connecting"

fun show_conn_state :: "conn_state \<Rightarrow> string" where
  "show_conn_state Connecting = ''connecting''"
| "show_conn_state Connected = ''connected''"
| "show_conn_state Disconnected = ''disconnected''"
| "show_conn_state Failed = ''failed''"
| "show_conn_state Closed = ''closed''"

text \<open>\<open>s as i32\<close>: the position of the constructor.\<close>

fun conn_state_i32 :: "conn_state \<Rightarrow> i32" where
  "conn_state_i32 Connecting = 0"
| "conn_state_i32 Connected = 1"
| "conn_state_i32 Disconnected = 2"
| "conn_state_i32 Failed = 3"
| "conn_state_i32 Closed = 4"

text \<open>
  The two readers of that encoding, \<open>DirectTransport::state\<close> and \<open>GroupCall::net_state\<close>,
  differ only in what they make of a number that encodes no state.
\<close>

definition conn_state_of_i32 :: "conn_state \<Rightarrow> i32 \<Rightarrow> conn_state" where
  "conn_state_of_i32 other n =
     (if n = 0 then Connecting else if n = 1 then Connected
      else if n = 2 then Disconnected else if n = 3 then Failed
      else if n = 4 then Closed else other)"

lemma conn_state_roundtrip [simp]: "conn_state_of_i32 other (conn_state_i32 s) = s"
  by (cases s) (simp_all add: conn_state_of_i32_def)

lemma conn_state_i32_inject [simp]: "conn_state_i32 s = conn_state_i32 t \<longleftrightarrow> s = t"
  by (cases s; cases t) simp_all

record network_info =
  ni_state :: conn_state

record call_info =
  ci_capture_time_ms :: u64

text \<open>
  Two messages of one error variant differ exactly in their payload: the printed form
  determines it.
\<close>

lemma show_error_inject_payload:
  "show_error (InvalidParams s) = show_error (InvalidParams t) \<longleftrightarrow> s = t"
  "show_error (FFmpegSpawn s) = show_error (FFmpegSpawn t) \<longleftrightarrow> s = t"
  "show_error (Internal s) = show_error (Internal t) \<longleftrightarrow> s = t"
  by simp_all

end
