(* ===== verification/Dispatcher.thy ===== *)
theory Dispatcher
  imports Prelude
begin

text \<open>
  \<open>src/utils/synccallback.rs\<close>: the callback dispatcher.  The state is the bounded tokio
  channel (\<open>dp_queue\<close>, of capacity \<open>dp_cap\<close>), the \<open>closed\<close> flag and, for stating what
  the background task did, the tasks it has run (\<open>dp_done\<close>).  A task is a value of the
  type parameter; a task that panics is caught and counts as run, so the loop goes on.
  \<open>disp_submit\<close>, \<open>disp_run_one\<close> and \<open>disp_close\<close> are the steps; a run is a list of
  them, in the order in which they took effect.
\<close>

section \<open>The code\<close>

record 'a dispatcher =
  dp_queue :: "'a list"
  dp_cap :: nat
  dp_closed :: bool
  dp_done :: "'a list"

definition disp_new :: "nat \<Rightarrow> 'a dispatcher" where
  "disp_new buf_size =
     \<lparr>dp_queue = [], dp_cap = (if buf_size = 0 then 256 else buf_size),
      dp_closed = False, dp_done = []\<rparr>"

text \<open>
  \<open>submit\<close>: nothing when closed; otherwise \<open>try_send\<close>, and on \<open>TrySendError::Full(task)\<close>
  the task just submitted is dropped.
\<close>

definition disp_submit :: "'a \<Rightarrow> 'a dispatcher \<Rightarrow> 'a dispatcher" where
  "disp_submit task d =
     (if dp_closed d then d
      else if length (dp_queue d) < dp_cap d then d\<lparr>dp_queue := dp_queue d @ [task]\<rparr>
      else d)"

text \<open>One round of the background task: \<open>rx.recv()\<close>, then the task under \<open>catch_unwind\<close>.\<close>

definition disp_run_one :: "'a dispatcher \<Rightarrow> 'a dispatcher" where
  "disp_run_one d =
     (case dp_queue d of [] \<Rightarrow> d
      | task # rest \<Rightarrow> d\<lparr>dp_queue := rest, dp_done := dp_done d @ [task]\<rparr>)"

definition disp_close :: "'a dispatcher \<Rightarrow> 'a dispatcher" where
  "disp_close d = d\<lparr>dp_closed := True\<rparr>"

datatype 'a disp_event = Submit 'a | RunOne | CloseDisp

fun disp_step :: "'a dispatcher \<Rightarrow> 'a disp_event \<Rightarrow> 'a dispatcher" where
  "disp_step d (Submit t) = disp_submit t d"
| "disp_step d RunOne = disp_run_one d"
| "disp_step d CloseDisp = disp_close d"

definition disp_exec :: "'a dispatcher \<Rightarrow> 'a disp_event list \<Rightarrow> 'a dispatcher" where
  "disp_exec = foldl disp_step"

section \<open>What is accepted\<close>

text \<open>
  Everything the dispatcher ever took: run or still queued, in order.  Running a task
  only moves it, so this list grows by exactly the accepted submissions.
\<close>

definition disp_taken :: "'a dispatcher \<Rightarrow> 'a list" where
  "disp_taken d = dp_done d @ dp_queue d"

definition disp_inv :: "'a dispatcher \<Rightarrow> bool" where
  "disp_inv d \<longleftrightarrow> 0 < dp_cap d \<and> length (dp_queue d) \<le> dp_cap d"

fun submitted :: "'a disp_event list \<Rightarrow> 'a list" where
  "submitted [] = []"
| "submitted (Submit t # es) = t # submitted es"
| "submitted (e # es) = submitted es"

lemma disp_inv_new [inv_rules]: "disp_inv (disp_new n)"
  by (simp add: disp_inv_def disp_new_def)

lemma disp_inv_step [inv_rules]: "disp_inv d \<Longrightarrow> disp_inv (disp_step d e)"
  by (cases e)
    (auto simp: disp_inv_def disp_submit_def disp_run_one_def disp_close_def split: list.splits)

lemma disp_taken_run_one [simp]: "disp_taken (disp_run_one d) = disp_taken d"
  by (simp add: disp_taken_def disp_run_one_def split: list.split)

lemma disp_taken_close [simp]: "disp_taken (disp_close d) = disp_taken d"
  by (simp add: disp_taken_def disp_close_def)

lemma disp_taken_submit:
  "disp_taken (disp_submit t d) =
     (if \<not> dp_closed d \<and> length (dp_queue d) < dp_cap d then disp_taken d @ [t]
      else disp_taken d)"
  by (simp add: disp_taken_def disp_submit_def)

lemma disp_closed_step: "dp_closed d \<Longrightarrow> dp_closed (disp_step d e)"
  by (cases e)
    (auto simp: disp_submit_def disp_run_one_def disp_close_def split: list.splits)

lemma disp_taken_step:
  "disp_taken (disp_step d e) = disp_taken d \<or>
     (\<exists>t. e = Submit t \<and> disp_taken (disp_step d e) = disp_taken d @ [t])"
  by (cases e) (auto simp: disp_taken_submit)

lemma disp_inv_exec: "disp_inv d \<Longrightarrow> disp_inv (disp_exec d es)"
  by (induction es arbitrary: d) (simp_all add: disp_exec_def disp_inv_step)

lemma disp_exec_Nil [simp]: "disp_exec d [] = d"
  by (simp add: disp_exec_def)

lemma disp_exec_Cons [simp]: "disp_exec d (e # es) = disp_exec (disp_step d e) es"
  by (simp add: disp_exec_def)

lemma disp_step_cap [simp]: "dp_cap (disp_step d e) = dp_cap d"
  by (cases e) (simp_all add: disp_submit_def disp_run_one_def disp_close_def split: list.split)

lemma disp_exec_cap: "dp_cap (disp_exec d es) = dp_cap d"
  by (induction es arbitrary: d) simp_all

text \<open>The background task alone runs the queue from its head.\<close>

lemma disp_drain:
  "dp_done (disp_exec d (replicate n RunOne)) = dp_done d @ take n (dp_queue d)"
proof (induction n arbitrary: d)
  case 0
  then show ?case by simp
next
  case (Suc n)
  then show ?case
    by (cases "dp_queue d") (simp_all add: disp_run_one_def)
qed

lemma disp_cap_new: "dp_cap (disp_new n) = (if n = 0 then 256 else n)"
  by (simp add: disp_new_def)

lemma disp_exec_closed: "dp_closed d \<Longrightarrow> disp_taken (disp_exec d es) = disp_taken d"
proof (induction es arbitrary: d)
  case Nil
  then show ?case by simp
next
  case (Cons e es)
  have "disp_taken (disp_step d e) = disp_taken d"
    using Cons.prems by (cases e) (simp_all add: disp_taken_submit)
  with Cons show ?case by (simp add: disp_closed_step)
qed

lemma disp_exec_subseq:
  "\<exists>us. disp_taken (disp_exec d es) = disp_taken d @ us \<and> subseq us (submitted es)"
proof (induction es arbitrary: d)
  case Nil
  then show ?case by simp
next
  case (Cons e es)
  obtain us where us: "disp_taken (disp_exec (disp_step d e) es) = disp_taken (disp_step d e) @ us"
      "subseq us (submitted es)"
    using Cons.IH [of "disp_step d e"] by blast
  have le: "subseq (submitted es) (submitted (e # es))"
    by (cases e) auto
  from disp_taken_step [of d e] show ?case
  proof
    assume "disp_taken (disp_step d e) = disp_taken d"
    with us le show ?thesis by (auto intro: subseq_order.trans)
  next
    assume "\<exists>t. e = Submit t \<and> disp_taken (disp_step d e) = disp_taken d @ [t]"
    then obtain t where "e = Submit t" "disp_taken (disp_step d e) = disp_taken d @ [t]"
      by blast
    with us show ?thesis by (intro exI [of _ "t # us"]) simp
  qed
qed

section \<open>The contract used by the calls\<close>

text \<open>
  A sink for callback tasks: what a producer of events (the group call, the RTMP call)
  relies on.  \<open>taken\<close> is the sequence of tasks that have been or will be run.
\<close>

locale event_sink =
  fixes put :: "'a \<Rightarrow> 'd \<Rightarrow> 'd"
    and taken :: "'d \<Rightarrow> 'a list"
    and accepting :: "'d \<Rightarrow> bool"
  assumes put_taken: "taken (put t d) = (if accepting d then taken d @ [t] else taken d)"
begin

lemma puts_subseq: "\<exists>us. taken (foldl (\<lambda>d t. put t d) d ts) = taken d @ us \<and> subseq us ts"
proof (induction ts arbitrary: d)
  case Nil
  then show ?case by simp
next
  case (Cons t ts)
  obtain us where us: "taken (foldl (\<lambda>d t. put t d) (put t d) ts) = taken (put t d) @ us"
      "subseq us ts"
    using Cons.IH [of "put t d"] by blast
  show ?case
  proof (cases "accepting d")
    case True
    with us show ?thesis by (intro exI [of _ "t # us"]) (simp add: put_taken)
  next
    case False
    with us show ?thesis by (intro exI [of _ us]) (simp add: put_taken list_emb_Cons)
  qed
qed

lemma put_keeps_prefix: "prefix (taken d) (taken (put t d))"
  by (simp add: put_taken)

end

interpretation disp_sink: event_sink disp_submit disp_taken
    "\<lambda>d. \<not> dp_closed d \<and> length (dp_queue d) < dp_cap d"
  by unfold_locales (simp add: disp_taken_submit)

section \<open>Properties\<close>

text \<open>
  C31. For every interleaving of submissions, rounds of the background task and closing:
  the tasks run, followed by those still queued, are a subsequence of the submitted
  tasks in submission order (nothing is invented, duplicated or reordered), and the
  queue never holds more than its capacity.
\<close>

theorem disp_fifo_bounded:
  "subseq (dp_done (disp_exec (disp_new n) es) @ dp_queue (disp_exec (disp_new n) es))
     (submitted es)
   \<and> length (dp_queue (disp_exec (disp_new n) es)) \<le> (if n = 0 then 256 else n)"
proof -
  have "disp_taken (disp_new n :: 'a dispatcher) = []"
    by (simp add: disp_taken_def disp_new_def)
  then have "subseq (disp_taken (disp_exec (disp_new n) es)) (submitted es)"
    using disp_exec_subseq [of "disp_new n" es] by auto
  moreover have "length (dp_queue (disp_exec (disp_new n) es)) \<le> dp_cap (disp_exec (disp_new n) es)"
    using disp_inv_exec [OF disp_inv_new, of n es] by (simp add: disp_inv_def)
  ultimately show ?thesis
    by (simp add: disp_taken_def disp_exec_cap disp_cap_new)
qed

text \<open>
  Submitting to a full, open queue drops the task just submitted: once the background
  task has caught up it has run exactly what was queued before, the oldest task included.
\<close>

theorem disp_full_drops_newest:
  assumes "\<not> dp_closed d" and "length (dp_queue d) = dp_cap d"
  shows "dp_done (disp_exec (disp_submit t d) (replicate (dp_cap d) RunOne)) =
           dp_done d @ dp_queue d"
  using assms by (simp add: disp_submit_def disp_drain)

lemma disp_full_drops_newest_witness:
  "dp_done (disp_exec
      (disp_submit (3::nat) \<lparr>dp_queue = [1, 2], dp_cap = 2, dp_closed = False, dp_done = []\<rparr>)
      (replicate 2 RunOne)) = [1, 2]"
  using disp_full_drops_newest
    [of "\<lparr>dp_queue = [1, 2], dp_cap = 2, dp_closed = False, dp_done = []\<rparr>" "3::nat"]
  by simp

text \<open>
  Closing is final and loses nothing that was accepted: after it no submission is
  taken any more, and the background task still runs every queued task, in order.
\<close>

theorem disp_close_drains:
  "dp_done (disp_exec (disp_exec (disp_close d) es)
      (replicate (length (dp_queue (disp_exec (disp_close d) es))) RunOne)) =
     dp_done d @ dp_queue d"
proof -
  have "disp_taken (disp_exec (disp_close d) es) = disp_taken d"
    by (subst disp_exec_closed) (simp_all add: disp_close_def disp_taken_def)
  then show ?thesis by (simp add: disp_drain disp_taken_def)
qed

end
