(* ===== verification/Frame_Reader.thy ===== *)
theory Frame_Reader
  imports Models
begin

text \<open>
  \<open>src/media/frame_reader.rs\<close>: the two container parsers.  A byte source is the list of
  the bytes it will still deliver before its end; \<open>read_exact\<close> is tokio's method on it
  (a short source is drained and the read fails).  \<open>opus_next\<close> and \<open>vp8_next\<close> are the two
  \<open>next_sample\<close> methods; they return the result and the reader.

  The contract of both is the locale \<open>frame_source\<close>: a successful call consumes some of
  the source, so the reading loop of the streamer ends.  The theorems are the round trips
  with reference muxers (Ogg lacing as in RFC 3533, IVF frames), the error behaviour and
  the durations.
\<close>

section \<open>Byte sources\<close>

record sample =
  sm_data :: bytes
  sm_duration :: duration_ns

definition read_exact :: "nat \<Rightarrow> bytes \<Rightarrow> (bytes \<times> bytes) option" where
  "read_exact n rd = (if n \<le> length rd then Some (take n rd, drop n rd) else None)"

definition le32 :: "bytes \<Rightarrow> u32" where
  "le32 b = of_nat (unat (b ! 0) + 256 * unat (b ! 1) + 65536 * unat (b ! 2)
                    + 16777216 * unat (b ! 3))"

definition ascii :: "string \<Rightarrow> bytes" where
  "ascii s = map (\<lambda>c. of_nat (of_char c)) s"

text \<open>\<open>pkt.starts_with(b"...")\<close>\<close>

definition starts_with :: "bytes \<Rightarrow> bytes \<Rightarrow> bool" where
  "starts_with pkt pre \<longleftrightarrow> take (length pre) pkt = pre"

section \<open>Opus packet durations\<close>

definition opus_base_samples :: "u8 \<Rightarrow> u32" where
  "opus_base_samples config =
     (if config \<in> {0, 4, 8} then 480
      else if config \<in> {1, 5, 9} then 960
      else if config \<in> {2, 6, 10} then 1920
      else if config \<in> {3, 7, 11} then 2880
      else if config \<in> {12, 14} then 480
      else if config \<in> {13, 15} then 960
      else if config \<in> {16, 20, 24, 28} then 120
      else if config \<in> {17, 21, 25, 29} then 240
      else if config \<in> {18, 22, 26, 30} then 480
      else if config \<in> {19, 23, 27, 31} then 960
      else 960)"

definition opus_frame_count :: "bytes \<Rightarrow> u32" where
  "opus_frame_count pkt =
     (let toc = pkt ! 0; code = and toc 3 in
      if code = 0 then 1
      else if code = 1 \<or> code = 2 then 2
      else if code = 3 then
        (if 2 \<le> length pkt then
           (let c = ucast (and (pkt ! 1) 0x3F) in if 0 < c then c else 1)
         else 1)
      else 1)"

definition opus_total_samples :: "bytes \<Rightarrow> u32" where
  "opus_total_samples pkt =
     opus_base_samples (and (drop_bit 3 (pkt ! 0)) 0x1F) * opus_frame_count pkt"

definition parse_opus_packet_duration :: "bytes \<Rightarrow> duration_ns" where
  "parse_opus_packet_duration pkt =
     (if pkt = [] then unat OPUS_FRAME_DURATION_MS * 1000000
      else unat ((ucast (opus_total_samples pkt) * 1000000000 :: u64) div 48000))"

section \<open>The Ogg/Opus reader\<close>

record opus_reader =
  or_rd :: bytes
  or_skipped_header :: bool
  or_skipped_tags :: bool
  or_queue :: "bytes list"
  or_current :: bytes

definition opus_new :: "bytes \<Rightarrow> opus_reader" where
  "opus_new rd = \<lparr>or_rd = rd, or_skipped_header = False, or_skipped_tags = False,
                  or_queue = [], or_current = []\<rparr>"

text \<open>A packet is complete: the header and the tags are dropped once, empty ones always.\<close>

definition opus_packet :: "bytes \<Rightarrow> opus_reader \<Rightarrow> opus_reader" where
  "opus_packet pkt r =
     (if \<not> or_skipped_header r \<and> starts_with pkt (ascii ''OpusHead'')
      then r\<lparr>or_skipped_header := True\<rparr>
      else if \<not> or_skipped_tags r \<and> starts_with pkt (ascii ''OpusTags'')
      then r\<lparr>or_skipped_tags := True\<rparr>
      else if pkt \<noteq> []
      then r\<lparr>or_skipped_header := True, or_skipped_tags := True,
             or_queue := or_queue r @ [pkt]\<rparr>
      else r)"

text \<open>The body of the loop over the segment table, with \<open>offset\<close> into the payload.\<close>

definition opus_segment :: "bytes \<Rightarrow> nat \<times> opus_reader \<Rightarrow> u8 \<Rightarrow> nat \<times> opus_reader" where
  "opus_segment payload = (\<lambda>(offset, r) seg_len.
     let len = unat seg_len; end = offset + len;
         (offset', cur) =
           (if end \<le> length payload
            then (end, or_current r @ take len (drop offset payload))
            else (offset, or_current r))
     in if seg_len < 255
        then (offset', opus_packet cur (r\<lparr>or_current := []\<rparr>))
        else (offset', r\<lparr>or_current := cur\<rparr>))"

text \<open>One page: header, segment table, payload, then the segments.\<close>

definition opus_read_page :: "opus_reader \<Rightarrow> (error + unit) \<times> opus_reader" where
  "opus_read_page r =
     (case read_exact 27 (or_rd r) of
        None \<Rightarrow> (Inl File, r\<lparr>or_rd := []\<rparr>)
      | Some (header, rd1) \<Rightarrow>
          if take 4 header \<noteq> ascii ''OggS''
          then (Inl (Internal ''invalid Ogg magic header''), r\<lparr>or_rd := rd1\<rparr>)
          else
            (case read_exact (unat (header ! 26)) rd1 of
               None \<Rightarrow> (Inl File, r\<lparr>or_rd := []\<rparr>)
             | Some (segs, rd2) \<Rightarrow>
                 (case read_exact (sum_list (map unat segs)) rd2 of
                    None \<Rightarrow> (Inl File, r\<lparr>or_rd := []\<rparr>)
                  | Some (payload, rd3) \<Rightarrow>
                      (Inr (), snd (foldl (opus_segment payload) (0, r\<lparr>or_rd := rd3\<rparr>) segs)))))"

lemma opus_packet_rd [simp]: "or_rd (opus_packet pkt r) = or_rd r"
  by (simp add: opus_packet_def)

lemma opus_segment_rd: "or_rd (snd (opus_segment pl (off, r) s)) = or_rd r"
  by (simp add: opus_segment_def Let_def)

lemma opus_segments_rd: "or_rd (snd (foldl (opus_segment pl) x segs)) = or_rd (snd x)"
proof (induction segs arbitrary: x)
  case Nil
  then show ?case by simp
next
  case (Cons s segs)
  then show ?case by (cases x) (simp add: opus_segment_rd)
qed

lemma opus_read_page_shorter:
  "opus_read_page r = (Inr u, r') \<Longrightarrow> length (or_rd r') < length (or_rd r)"
  by (auto simp: opus_read_page_def read_exact_def opus_segments_rd
    split: option.splits prod.splits if_splits)

function opus_next :: "opus_reader \<Rightarrow> (error + sample) \<times> opus_reader" where
  "opus_next r =
     (case or_queue r of
        pkt # q \<Rightarrow>
          (Inr \<lparr>sm_data = pkt, sm_duration = parse_opus_packet_duration pkt\<rparr>,
           r\<lparr>or_queue := q\<rparr>)
      | [] \<Rightarrow>
          (case opus_read_page r of
             (Inl e, r') \<Rightarrow> (Inl e, r')
           | (Inr u, r') \<Rightarrow> opus_next r'))"
  by pat_completeness auto
termination
  by (relation "measure (\<lambda>r. length (or_rd r))") (auto dest: opus_read_page_shorter [OF sym])

declare opus_next.simps [simp del]

section \<open>The IVF/VP8 reader\<close>

record vp8_reader =
  vr_rd :: bytes
  vr_header_read :: bool
  vr_frame_duration :: duration_ns

definition vp8_new :: "bytes \<Rightarrow> vp8_reader" where
  "vp8_new rd = \<lparr>vr_rd = rd, vr_header_read = False, vr_frame_duration = 33333333\<rparr>"

definition vp8_timebase_ns :: "u32 \<Rightarrow> u32 \<Rightarrow> duration_ns" where
  "vp8_timebase_ns num den = unat ((ucast num * 1000000000 :: u64) div ucast den)"

definition vp8_read_header :: "vp8_reader \<Rightarrow> (error + unit) \<times> vp8_reader" where
  "vp8_read_header r =
     (if vr_header_read r then (Inr (), r)
      else
        (case read_exact 32 (vr_rd r) of
           None \<Rightarrow> (Inl File, r\<lparr>vr_rd := []\<rparr>)
         | Some (h, rd1) \<Rightarrow>
             if take 4 h \<noteq> ascii ''DKIF''
             then (Inl (Internal ''invalid IVF magic header''), r\<lparr>vr_rd := rd1\<rparr>)
             else
               (let den = le32 (take 4 (drop 16 h)); num = le32 (take 4 (drop 20 h));
                    dur = (if 0 < den \<and> 0 < num then vp8_timebase_ns num den
                           else vr_frame_duration r)
                in (Inr (), r\<lparr>vr_rd := rd1, vr_frame_duration := dur, vr_header_read := True\<rparr>))))"

definition vp8_read_frame :: "vp8_reader \<Rightarrow> (error + sample) \<times> vp8_reader" where
  "vp8_read_frame r =
     (case read_exact 12 (vr_rd r) of
        None \<Rightarrow> (Inl File, r\<lparr>vr_rd := []\<rparr>)
      | Some (fh, rd1) \<Rightarrow>
          (case read_exact (unat (le32 (take 4 fh))) rd1 of
             None \<Rightarrow> (Inl File, r\<lparr>vr_rd := []\<rparr>)
           | Some (frame, rd2) \<Rightarrow>
               (Inr \<lparr>sm_data = frame, sm_duration = vr_frame_duration r\<rparr>, r\<lparr>vr_rd := rd2\<rparr>)))"

definition vp8_next :: "vp8_reader \<Rightarrow> (error + sample) \<times> vp8_reader" where
  "vp8_next r =
     (case vp8_read_header r of
        (Inl e, r') \<Rightarrow> (Inl e, r')
      | (Inr u, r') \<Rightarrow> vp8_read_frame r')"

text \<open>The keyframe test of the trace message (bit 0 of the frame tag is 0).\<close>

definition vp8_is_key :: "bytes \<Rightarrow> bool" where
  "vp8_is_key frame = (if frame \<noteq> [] then and (frame ! 0) 1 = 0 else False)"

section \<open>Durations\<close>

lemma opus_base_samples_range:
  "unat (opus_base_samples c) \<in> {120, 240, 480, 960, 1920, 2880}"
  by (simp add: opus_base_samples_def)

lemma and_3F_bound: "unat (and (x :: u8) 0x3F) \<le> 63"
proof -
  have "and x 0x3F \<le> 0x3F" by (rule word_and_le1)
  then show ?thesis by (simp add: word_le_nat_alt)
qed

lemma opus_frame_count_range: "1 \<le> unat (opus_frame_count pkt) \<and> unat (opus_frame_count pkt) \<le> 63"
proof -
  have "unat (ucast (and (x :: u8) 0x3F) :: u32) \<le> 63" for x
    using and_3F_bound [of x] by simp
  moreover have "0 < (w :: u32) \<Longrightarrow> 1 \<le> unat w" for w
    by (simp add: Suc_le_eq unat_gt_0 word_gt_0)
  ultimately show ?thesis
    by (simp add: opus_frame_count_def Let_def)
qed

lemma unat_opus_total_samples:
  "unat (opus_total_samples pkt) =
     unat (opus_base_samples (and (drop_bit 3 (pkt ! 0)) 0x1F)) * unat (opus_frame_count pkt)"
proof -
  let ?b = "opus_base_samples (and (drop_bit 3 (pkt ! 0)) 0x1F)"
  have "unat ?b \<le> 2880"
    using opus_base_samples_range [of "and (drop_bit 3 (pkt ! 0)) 0x1F"] by auto
  then have "unat ?b * unat (opus_frame_count pkt) \<le> 2880 * 63"
    using opus_frame_count_range by (intro mult_le_mono) simp_all
  then show ?thesis
    by (simp add: opus_total_samples_def unat_mult_lem [THEN iffD1])
qed

lemma opus_total_samples_bounds:
  "120 \<le> unat (opus_total_samples pkt) \<and> unat (opus_total_samples pkt) \<le> 181440
   \<and> 120 dvd unat (opus_total_samples pkt)"
proof -
  let ?b = "unat (opus_base_samples (and (drop_bit 3 (pkt ! 0)) 0x1F))"
  let ?c = "unat (opus_frame_count pkt)"
  have c: "1 \<le> ?c" "?c \<le> 63" using opus_frame_count_range by simp_all
  from opus_base_samples_range [of "and (drop_bit 3 (pkt ! 0)) 0x1F"]
  have b: "120 \<le> ?b" "?b \<le> 2880" "120 dvd ?b" by auto
  have "120 * 1 \<le> ?b * ?c" "?b * ?c \<le> 2880 * 63"
    using b c by (intro mult_le_mono; simp)+
  then show ?thesis
    using b by (simp add: unat_opus_total_samples)
qed

lemma opus_duration_nat:
  assumes "pkt \<noteq> []"
  shows "parse_opus_packet_duration pkt = unat (opus_total_samples pkt) * 1000000000 div 48000"
proof -
  have "unat (ucast (opus_total_samples pkt) * 1000000000 :: u64) =
      unat (opus_total_samples pkt) * 1000000000"
    using opus_total_samples_bounds [of pkt]
    by (subst unat_mult_lem [THEN iffD1]) simp_all
  then show ?thesis
    using assms by (simp add: parse_opus_packet_duration_def unat_div)
qed

text \<open>
  The duration of an Opus packet is its sample count at 48 kHz exactly, with no
  rounding and no overflow of the 32 and 64 bit arithmetic, and lies between 2.5 ms and
  3.78 s: a multiple of 2.5 ms, never zero, for every packet.
\<close>

theorem opus_duration_exact:
  "48000 * parse_opus_packet_duration (toc # body) =
     1000000000 * unat (opus_total_samples (toc # body))
   \<and> 2500000 \<le> parse_opus_packet_duration (toc # body)
   \<and> parse_opus_packet_duration (toc # body) \<le> 3780000000
   \<and> 2500000 dvd parse_opus_packet_duration (toc # body)"
proof -
  obtain k where k: "unat (opus_total_samples (toc # body)) = 120 * k"
    using opus_total_samples_bounds by blast
  then have d: "parse_opus_packet_duration (toc # body) = 2500000 * k"
    by (simp add: opus_duration_nat)
  have "1 \<le> k" "k \<le> 1512"
    using opus_total_samples_bounds [of "toc # body"] k by simp_all
  with d k show ?thesis by simp
qed

section \<open>Reading to the end\<close>

text \<open>
  The loop of the streamer's reader task, as long as it is neither paused nor stopped: call
  \<open>next_sample\<close> until it fails.  The result is every sample and the error that ended the
  loop; \<open>None\<close> says the fuel was not enough, which \<open>frame_source.drain_ends\<close> excludes.
\<close>

fun drain :: "nat \<Rightarrow> ('r \<Rightarrow> (error + sample) \<times> 'r) \<Rightarrow> 'r \<Rightarrow> sample list \<times> error option" where
  "drain 0 nx r = ([], None)"
| "drain (Suc n) nx r =
     (case nx r of
        (Inl e, r') \<Rightarrow> ([], Some e)
      | (Inr s, r') \<Rightarrow> (case drain n nx r' of (ss, e) \<Rightarrow> (s # ss, e)))"

locale frame_source =
  fixes next_sample :: "'r \<Rightarrow> (error + sample) \<times> 'r"
    and remaining :: "'r \<Rightarrow> nat"
  assumes progress: "next_sample r = (Inr s, r') \<Longrightarrow> remaining r' < remaining r"
begin

lemma drain_ends:
  "remaining r < fuel \<Longrightarrow>
     \<exists>ss e. drain fuel next_sample r = (ss, Some e) \<and> length ss \<le> remaining r"
proof (induction fuel arbitrary: r)
  case 0
  then show ?case by simp
next
  case (Suc fuel)
  obtain res r' where nx: "next_sample r = (res, r')" by fastforce
  show ?case
  proof (cases res)
    case (Inl e)
    with nx show ?thesis by simp
  next
    case (Inr s)
    with nx have less: "remaining r' < remaining r" by (auto dest: progress)
    with Suc.prems have "remaining r' < fuel" by simp
    then obtain ss e where "drain fuel next_sample r' = (ss, Some e)" "length ss \<le> remaining r'"
      using Suc.IH by blast
    with nx Inr less show ?thesis by simp
  qed
qed

lemma drain_fuel:
  "drain n next_sample r = (ss, Some e) \<Longrightarrow> n \<le> m \<Longrightarrow> drain m next_sample r = (ss, Some e)"
proof (induction n arbitrary: m r ss e)
  case 0
  then show ?case by simp
next
  case (Suc n)
  then obtain m' where m: "m = Suc m'" "n \<le> m'" by (cases m) auto
  obtain res r' where nx: "next_sample r = (res, r')" by fastforce
  show ?case
  proof (cases res)
    case (Inl e')
    with nx m Suc.prems show ?thesis by simp
  next
    case (Inr s)
    with nx Suc.prems obtain ss' where d: "drain n next_sample r' = (ss', Some e)" "ss = s # ss'"
      by (auto split: prod.splits)
    from Suc.IH [OF d(1) m(2)] nx Inr m(1) d(2) show ?thesis by simp
  qed
qed

end

definition opus_remaining :: "opus_reader \<Rightarrow> nat" where
  "opus_remaining r = length (or_rd r) + length (or_queue r)"

definition vp8_remaining :: "vp8_reader \<Rightarrow> nat" where
  "vp8_remaining r = length (vr_rd r)"

lemma opus_packet_queue_le: "length (or_queue (opus_packet p r)) \<le> Suc (length (or_queue r))"
  by (simp add: opus_packet_def)

lemma opus_segment_queue_le:
  "length (or_queue (snd (opus_segment pl (off, r) s))) \<le> Suc (length (or_queue r))"
  by (auto simp: opus_segment_def Let_def opus_packet_def)

lemma opus_segments_queue_le:
  "length (or_queue (snd (foldl (opus_segment pl) x segs))) \<le> length segs + length (or_queue (snd x))"
proof (induction segs arbitrary: x)
  case Nil
  then show ?case by simp
next
  case (Cons s segs)
  obtain off r where x: "x = (off, r)" by fastforce
  show ?case
    using Cons.IH [of "opus_segment pl x s"] opus_segment_queue_le [of pl off r s] x by simp
qed

lemma opus_read_page_remaining:
  assumes "opus_read_page r = (Inr u, r')"
  shows "opus_remaining r' < opus_remaining r"
proof -
  obtain header segs payload rd1 rd2 rd3 where
      h: "read_exact 27 (or_rd r) = Some (header, rd1)"
        "read_exact (unat (header ! 26)) rd1 = Some (segs, rd2)"
        "read_exact (sum_list (map unat segs)) rd2 = Some (payload, rd3)"
      and r': "r' = snd (foldl (opus_segment payload) (0, r\<lparr>or_rd := rd3\<rparr>) segs)"
    using assms by (auto simp: opus_read_page_def split: option.splits prod.splits if_splits)
  have "27 + length segs + length rd3 \<le> length (or_rd r)"
    using h by (auto simp: read_exact_def split: if_splits)
  moreover have "length (or_queue r') \<le> length segs + length (or_queue r)"
    using r' opus_segments_queue_le [of payload "(0, r\<lparr>or_rd := rd3\<rparr>)" segs] by simp
  ultimately show ?thesis
    using r' by (simp add: opus_remaining_def opus_segments_rd)
qed

lemma opus_next_progress:
  "opus_next r = (Inr s, r') \<Longrightarrow> opus_remaining r' < opus_remaining r"
proof (induction r rule: opus_next.induct)
  case (1 r)
  show ?case
  proof (cases "or_queue r")
    case (Cons pkt q)
    with "1.prems" show ?thesis
      by (auto simp: opus_next.simps [of r] opus_remaining_def)
  next
    case Nil
    obtain res r1 where pg: "opus_read_page r = (res, r1)" by fastforce
    show ?thesis
    proof (cases res)
      case (Inl e)
      with Nil pg "1.prems" show ?thesis by (simp add: opus_next.simps [of r])
    next
      case (Inr u)
      with Nil pg "1.prems" have "opus_next r1 = (Inr s, r')"
        by (simp add: opus_next.simps [of r])
      with "1.IH" Nil pg Inr have "opus_remaining r' < opus_remaining r1" by auto
      with opus_read_page_remaining pg Inr show ?thesis by fastforce
    qed
  qed
qed

lemma read_exact_length: "read_exact n rd = Some (a, b) \<Longrightarrow> length b + n = length rd"
  by (auto simp: read_exact_def split: if_splits)

lemma vp8_read_header_remaining:
  "vp8_read_header r = (Inr u, r') \<Longrightarrow> length (vr_rd r') \<le> length (vr_rd r)"
  by (auto simp: vp8_read_header_def Let_def dest: read_exact_length
      split: option.splits prod.splits if_splits)

lemma vp8_read_frame_remaining:
  assumes "vp8_read_frame r = (Inr s, r')"
  shows "length (vr_rd r') < length (vr_rd r)"
proof -
  obtain fh rd1 frame rd2 where
      h: "read_exact 12 (vr_rd r) = Some (fh, rd1)"
        "read_exact (unat (le32 (take 4 fh))) rd1 = Some (frame, rd2)"
      and r': "r' = r\<lparr>vr_rd := rd2\<rparr>"
    using assms by (auto simp: vp8_read_frame_def split: option.splits prod.splits)
  from h have "length rd1 + 12 = length (vr_rd r)" "length rd2 \<le> length rd1"
    by (auto dest!: read_exact_length)
  with r' show ?thesis by simp
qed

lemma vp8_next_progress:
  assumes "vp8_next r = (Inr s, r')"
  shows "vp8_remaining r' < vp8_remaining r"
proof -
  obtain u r1 where "vp8_read_header r = (Inr u, r1)" "vp8_read_frame r1 = (Inr s, r')"
    using assms by (auto simp: vp8_next_def split: prod.splits sum.splits)
  then show ?thesis
    using vp8_read_header_remaining vp8_read_frame_remaining
    by (fastforce simp: vp8_remaining_def)
qed

interpretation opus: frame_source opus_next opus_remaining
  by unfold_locales (rule opus_next_progress)

interpretation vp8: frame_source vp8_next vp8_remaining
  by unfold_locales (rule vp8_next_progress)

section \<open>A reference Ogg muxer\<close>

text \<open>
  RFC 3533: a packet is cut into segments of 255 bytes and a last one that is shorter
  (possibly empty); a page carries a 27 byte header whose last byte counts its segments,
  their lengths, and the segments.  Where pages are cut does not matter: a packet may
  continue on the next page.
\<close>

function lace :: "bytes \<Rightarrow> bytes list" where
  "lace p = (if length p < 255 then [p] else take 255 p # lace (drop 255 p))"
  by pat_completeness auto
termination
  by (relation "measure length") auto

declare lace.simps [simp del]

type_synonym page = "bytes \<times> bytes list"

definition page_ok :: "page \<Rightarrow> bool" where
  "page_ok pg \<longleftrightarrow> length (fst pg) = 22 \<and> length (snd pg) \<le> 255 \<and>
     (\<forall>s \<in> set (snd pg). length s \<le> 255)"

definition page_bytes :: "page \<Rightarrow> bytes" where
  "page_bytes pg = ascii ''OggS'' @ fst pg @ [of_nat (length (snd pg))]
     @ map (\<lambda>s. of_nat (length s)) (snd pg) @ concat (snd pg)"

text \<open>What a segment does to the reader, without the byte arithmetic.\<close>

definition feed :: "opus_reader \<Rightarrow> bytes \<Rightarrow> opus_reader" where
  "feed r s =
     (if length s < 255 then opus_packet (or_current r @ s) (r\<lparr>or_current := []\<rparr>)
      else r\<lparr>or_current := or_current r @ s\<rparr>)"

lemma unat_of_nat_u8: "n < 256 \<Longrightarrow> unat (of_nat n :: u8) = n"
  by (simp add: unat_of_nat)

lemma of_nat_u8_less_255: "n < 256 \<Longrightarrow> (of_nat n :: u8) < 255 \<longleftrightarrow> n < 255"
  by (simp add: word_less_nat_alt unat_of_nat_u8)

lemma opus_segment_feed:
  assumes "length s \<le> 255"
  shows "opus_segment (pre @ s @ post) (length pre, r) (of_nat (length s)) =
     (length pre + length s, feed r s)"
  using assms by (simp add: opus_segment_def feed_def Let_def unat_of_nat_u8 of_nat_u8_less_255)

lemma opus_segments_feed:
  "\<forall>s \<in> set segs. length s \<le> 255 \<Longrightarrow>
     foldl (opus_segment (pre @ concat segs)) (length pre, r) (map (\<lambda>s. of_nat (length s)) segs) =
       (length pre + length (concat segs), foldl feed r segs)"
proof (induction segs arbitrary: pre r)
  case Nil
  then show ?case by simp
next
  case (Cons s segs)
  have "opus_segment (pre @ s @ concat segs) (length pre, r) (of_nat (length s)) =
      (length (pre @ s), feed r s)"
    using Cons.prems by (simp add: opus_segment_feed)
  moreover have "foldl (opus_segment ((pre @ s) @ concat segs)) (length (pre @ s), feed r s)
      (map (\<lambda>s. of_nat (length s)) segs) =
      (length (pre @ s) + length (concat segs), foldl feed (feed r s) segs)"
    using Cons.prems by (intro Cons.IH) simp
  ultimately show ?case by simp
qed

lemma sum_segment_lengths:
  "\<forall>s \<in> set segs. length s \<le> 255 \<Longrightarrow>
     sum_list (map (unat \<circ> (\<lambda>s. of_nat (length s) :: u8)) segs) = length (concat segs)"
  by (induction segs) (simp_all add: unat_of_nat_u8)

lemma read_exact_append [simp]: "length a = n \<Longrightarrow> read_exact n (a @ b) = Some (a, b)"
  by (simp add: read_exact_def)

lemma length_ascii [simp]: "length (ascii s) = length s"
  by (simp add: ascii_def)

lemma opus_read_page_bytes:
  assumes ok: "page_ok pg" and rd: "or_rd r = page_bytes pg @ rest"
  shows "opus_read_page r = (Inr (), foldl feed (r\<lparr>or_rd := rest\<rparr>) (snd pg))"
proof -
  let ?segs = "snd pg" and ?h = "ascii ''OggS'' @ fst pg @ [of_nat (length (snd pg)) :: u8]"
  let ?tab = "map (\<lambda>s. of_nat (length s) :: u8) ?segs"
  have len: "length ?h = 27" using ok by (simp add: page_ok_def)
  have "or_rd r = ?h @ (?tab @ (concat ?segs @ rest))"
    using rd by (simp add: page_bytes_def)
  then have 1: "read_exact 27 (or_rd r) = Some (?h, ?tab @ (concat ?segs @ rest))"
    using len by (simp only: read_exact_append)
  have "?h ! 26 = of_nat (length ?segs)"
    using ok by (simp add: page_ok_def nth_append)
  then have n: "unat (?h ! 26) = length ?tab"
    using ok by (simp add: page_ok_def unat_of_nat_u8)
  have sum: "sum_list (map unat ?tab) = length (concat ?segs)"
    using ok by (simp add: page_ok_def sum_segment_lengths)
  have fold: "foldl (opus_segment (concat ?segs)) (0, r\<lparr>or_rd := rest\<rparr>) ?tab =
      (length (concat ?segs), foldl feed (r\<lparr>or_rd := rest\<rparr>) ?segs)"
    using ok opus_segments_feed [of ?segs "[]" "r\<lparr>or_rd := rest\<rparr>"] by (simp add: page_ok_def)
  have magic: "take 4 ?h = ascii ''OggS''" by simp
  show ?thesis
    unfolding opus_read_page_def 1
    using n sum fold magic by simp
qed

lemma feed_lace: "foldl feed r (lace p) = opus_packet (or_current r @ p) (r\<lparr>or_current := []\<rparr>)"
proof (induction p arbitrary: r rule: lace.induct)
  case (1 p)
  show ?case
  proof (cases "length p < 255")
    case True
    then show ?thesis by (simp add: lace.simps [of p] feed_def)
  next
    case False
    with 1 show ?thesis by (simp add: lace.simps [of p] feed_def)
  qed
qed

lemma opus_packet_current [simp]: "or_current (opus_packet p r) = or_current r"
  by (simp add: opus_packet_def)

lemma feed_laces:
  "or_current r = [] \<Longrightarrow> foldl feed r (concat (map lace ps)) = foldl (\<lambda>r p. opus_packet p r) r ps"
proof (induction ps arbitrary: r)
  case Nil
  then show ?case by simp
next
  case (Cons p ps)
  from Cons.prems have "opus_packet p (r\<lparr>or_current := []\<rparr>) = opus_packet p r"
    by (cases r) simp
  with Cons show ?case by (simp add: feed_lace)
qed

text \<open>The queue and the source only ride along.\<close>

lemma feed_queue_Cons:
  "feed (r\<lparr>or_queue := x # or_queue r\<rparr>) s = (feed r s)\<lparr>or_queue := x # or_queue (feed r s)\<rparr>"
  by (simp add: feed_def opus_packet_def)

lemma feeds_queue_Cons:
  "foldl feed (r\<lparr>or_queue := x # or_queue r\<rparr>) segs =
     (foldl feed r segs)\<lparr>or_queue := x # or_queue (foldl feed r segs)\<rparr>"
  by (induction segs arbitrary: r) (simp_all add: feed_queue_Cons)

lemma feed_rd: "feed (r\<lparr>or_rd := x\<rparr>) s = (feed r s)\<lparr>or_rd := x\<rparr>"
  by (simp add: feed_def opus_packet_def)

lemma feeds_rd: "foldl feed (r\<lparr>or_rd := x\<rparr>) segs = (foldl feed r segs)\<lparr>or_rd := x\<rparr>"
  by (induction segs arbitrary: r) (simp_all add: feed_rd)

section \<open>Round trips\<close>

definition opus_sample :: "bytes \<Rightarrow> sample" where
  "opus_sample pkt = \<lparr>sm_data = pkt, sm_duration = parse_opus_packet_duration pkt\<rparr>"

lemma opus_read_page_empty: "or_rd r = [] \<Longrightarrow> opus_read_page r = (Inl File, r\<lparr>or_rd := []\<rparr>)"
  by (simp add: opus_read_page_def read_exact_def)

lemma opus_drain_pages:
  assumes "or_rd r = concat (map page_bytes pgs)" "\<forall>pg \<in> set pgs. page_ok pg"
    "opus_remaining r < fuel"
  shows "drain fuel opus_next r =
    (map opus_sample (or_queue (foldl feed r (concat (map snd pgs)))), Some File)"
  using assms
proof (induction "opus_remaining r" arbitrary: r pgs fuel rule: less_induct)
  case less
  obtain n where fuel: "fuel = Suc n" using less.prems(3) by (cases fuel) auto
  show ?case
  proof (cases "or_queue r")
    case (Cons pkt q)
    let ?r' = "r\<lparr>or_queue := q\<rparr>"
    have nx: "opus_next r = (Inr (opus_sample pkt), ?r')"
      using Cons by (simp add: opus_next.simps [of r] opus_sample_def)
    have "drain n opus_next ?r' =
        (map opus_sample (or_queue (foldl feed ?r' (concat (map snd pgs)))), Some File)"
      using less.prems Cons fuel by (intro less.hyps) (simp_all add: opus_remaining_def)
    moreover have "r = ?r'\<lparr>or_queue := pkt # or_queue ?r'\<rparr>" using Cons by (cases r) simp
    then have "foldl feed r segs = foldl feed (?r'\<lparr>or_queue := pkt # or_queue ?r'\<rparr>) segs" for segs
      by (rule arg_cong)
    then have "foldl feed r segs =
        (foldl feed ?r' segs)\<lparr>or_queue := pkt # or_queue (foldl feed ?r' segs)\<rparr>" for segs
      unfolding feeds_queue_Cons .
    then have "or_queue (foldl feed r segs) = pkt # or_queue (foldl feed ?r' segs)" for segs
      by simp
    ultimately show ?thesis using fuel nx by simp
  next
    case Nil
    show ?thesis
    proof (cases pgs)
      case pgs: Nil
      with Nil less.prems have "opus_next r = (Inl File, r\<lparr>or_rd := []\<rparr>)"
        by (simp add: opus_next.simps [of r] opus_read_page_empty)
      with pgs Nil fuel show ?thesis by simp
    next
      case (Cons pg pgs')
      let ?r1 = "foldl feed (r\<lparr>or_rd := concat (map page_bytes pgs')\<rparr>) (snd pg)"
      have pg: "opus_read_page r = (Inr (), ?r1)"
        using less.prems Cons by (intro opus_read_page_bytes) simp_all
      with Nil have nx: "opus_next r = opus_next ?r1"
        by (simp add: opus_next.simps [of r])
      have dec: "opus_remaining ?r1 < opus_remaining r"
        using pg by (rule opus_read_page_remaining)
      have "drain fuel opus_next ?r1 =
          (map opus_sample (or_queue (foldl feed ?r1 (concat (map snd pgs')))), Some File)"
        using less.prems Cons dec
        by (intro less.hyps) (simp_all add: feeds_rd)
      then show ?thesis
        using Cons nx fuel by (simp add: feeds_rd)
    qed
  qed
qed

text \<open>What the segments of a stream leave in the queue: the audio packets.\<close>

lemma ogg_queue:
  assumes cut: "segs = concat (map lace (head # tags # packets))"
    and head: "starts_with head (ascii ''OpusHead'')" and tags: "starts_with tags (ascii ''OpusTags'')"
    and ne: "[] \<notin> set packets"
  shows "or_queue (foldl feed (opus_new src) segs) = packets"
proof -
  let ?r = "opus_new src"
  have acc: "or_skipped_header r \<Longrightarrow> or_skipped_tags r \<Longrightarrow> [] \<notin> set ps \<Longrightarrow>
      or_queue (foldl (\<lambda>r p. opus_packet p r) r ps) = or_queue r @ ps" for r ps
    by (induction ps arbitrary: r) (auto simp: opus_packet_def)
  have skip: "foldl (\<lambda>r p. opus_packet p r) ?r (head # tags # packets) =
      foldl (\<lambda>r p. opus_packet p r) (?r\<lparr>or_skipped_header := True, or_skipped_tags := True\<rparr>) packets"
    using head tags by (simp add: opus_packet_def opus_new_def)
  have "or_current ?r = []" by (simp add: opus_new_def)
  then show ?thesis
    unfolding cut feed_laces [OF \<open>or_current ?r = []\<close>] skip
    using acc [of "?r\<lparr>or_skipped_header := True, or_skipped_tags := True\<rparr>" packets] ne
    by (simp add: opus_new_def)
qed

text \<open>
  C7. Round trip with the muxer: for any way of cutting the segments of an Opus stream
  (a packet \<open>OpusHead...\<close>, a packet \<open>OpusTags...\<close>, then non-empty audio packets of any
  length) into well-formed Ogg pages, reading to the end yields exactly the audio packets,
  each once, in order, unchanged, with their own duration; the header and the tags are
  not played, and the end of the source is reported as the error \<open>File\<close>.
\<close>

theorem ogg_roundtrip:
  assumes pages: "\<forall>pg \<in> set pgs. page_ok pg"
    and cut: "concat (map snd pgs) = concat (map lace (head # tags # packets))"
    and head: "starts_with head (ascii ''OpusHead'')" and tags: "starts_with tags (ascii ''OpusTags'')"
    and ne: "[] \<notin> set packets"
    and fuel: "length (concat (map page_bytes pgs)) < fuel"
  shows "drain fuel opus_next (opus_new (concat (map page_bytes pgs))) =
    (map opus_sample packets, Some File)"
  using ogg_queue [OF cut head tags ne] opus_drain_pages [of "opus_new (concat (map page_bytes pgs))" pgs fuel]
    pages fuel
  by (simp add: opus_new_def opus_remaining_def)

text \<open>The hypotheses hold for a stream whose only audio packet continues on a second page.\<close>

lemma ogg_roundtrip_witness:
  "drain 500 opus_next (opus_new (concat (map page_bytes
      [(replicate 22 0, [ascii ''OpusHead'']),
       (replicate 22 0, [ascii ''OpusTags'', replicate 255 252]),
       (replicate 22 0, [replicate 45 252])]))) =
    (map opus_sample [replicate 300 252], Some File)"
proof -
  let ?pgs = "[(replicate 22 0, [ascii ''OpusHead'']),
       (replicate 22 0, [ascii ''OpusTags'', replicate 255 252]),
       (replicate 22 0, [replicate 45 252])] :: page list"
  have lace_short: "length p < 255 \<Longrightarrow> lace p = [p]" for p by (simp add: lace.simps)
  have long: "lace (replicate 300 252) = [replicate 255 252, replicate 45 252]"
    by (subst lace.simps) (simp add: lace_short)
  have cut: "concat (map snd ?pgs) =
      concat (map lace (ascii ''OpusHead'' # ascii ''OpusTags'' # [replicate 300 252]))"
    by (simp add: lace_short long)
  have ok: "\<forall>pg \<in> set ?pgs. page_ok pg"
    by (simp add: page_ok_def)
  show ?thesis
    using ogg_roundtrip [OF ok cut, of 500] by (simp add: starts_with_def page_bytes_def)
qed

subsection \<open>IVF\<close>

definition to_le32 :: "u32 \<Rightarrow> bytes" where
  "to_le32 w = (let n = unat w in
     [of_nat (n mod 256), of_nat (n div 256 mod 256), of_nat (n div 65536 mod 256),
      of_nat (n div 16777216)])"

definition ivf_header :: "bytes \<Rightarrow> u32 \<Rightarrow> u32 \<Rightarrow> bytes \<Rightarrow> bytes" where
  "ivf_header info den num rest =
     ascii ''DKIF'' @ info @ to_le32 den @ to_le32 num @ rest"

definition ivf_frame :: "bytes \<times> bytes \<Rightarrow> bytes" where
  "ivf_frame f = to_le32 (of_nat (length (snd f))) @ fst f @ snd f"

lemma length_to_le32 [simp]: "length (to_le32 w) = 4"
  by (simp add: to_le32_def Let_def)

lemma base_256:
  "(n::nat) mod 256 + 256 * (n div 256 mod 256) + 65536 * (n div 65536 mod 256)
     + 16777216 * (n div 16777216) = n"
proof -
  have sum: "r1 + 256 * r2 + 65536 * r3 + 16777216 * c = n"
    if "r1 + 256 * a = n" "r2 + 256 * b = a" "r3 + 256 * c = b" for r1 r2 r3 a b c :: nat
    using that by simp
  have "n div 65536 = n div 256 div 256" "n div 16777216 = n div 256 div 256 div 256"
    by (simp_all add: div_mult2_eq [symmetric])
  then show ?thesis
    by (simp only:) (rule sum; rule mod_mult_div_eq)
qed

lemma le32_to_le32 [simp]: "le32 (to_le32 w) = w"
proof -
  let ?n = "unat w"
  have "?n div 16777216 < 256" using unat_u32_less [of w] by simp
  then have "le32 (to_le32 w) =
      of_nat (?n mod 256 + 256 * (?n div 256 mod 256) + 65536 * (?n div 65536 mod 256)
        + 16777216 * (?n div 16777216))"
    by (simp add: le32_def to_le32_def Let_def unat_of_nat)
  also have "?n mod 256 + 256 * (?n div 256 mod 256) + 65536 * (?n div 65536 mod 256)
        + 16777216 * (?n div 16777216) = ?n"
    by (rule base_256)
  finally show ?thesis by simp
qed

lemma vp8_drain_frames:
  assumes "vr_header_read r" "vr_rd r = concat (map ivf_frame fs)"
    "\<forall>f \<in> set fs. length (fst f) = 8 \<and> length (snd f) < 2 ^ 32"
    "length (vr_rd r) < fuel"
  shows "drain fuel vp8_next r =
    (map (\<lambda>f. \<lparr>sm_data = snd f, sm_duration = vr_frame_duration r\<rparr>) fs, Some File)"
  using assms
proof (induction fs arbitrary: r fuel)
  case Nil
  then show ?case
    by (cases fuel) (simp_all add: vp8_next_def vp8_read_header_def vp8_read_frame_def
      read_exact_def)
next
  case (Cons f fs)
  obtain n where n: "fuel = Suc n" using Cons.prems by (cases fuel) auto
  let ?rest = "concat (map ivf_frame fs)" and ?fh = "to_le32 (of_nat (length (snd f))) @ fst f"
  have len: "unat (of_nat (length (snd f)) :: u32) = length (snd f)"
    using Cons.prems by (simp add: unat_of_nat)
  have "vr_rd r = ?fh @ (snd f @ ?rest)" "length ?fh = 12"
    using Cons.prems by (simp_all add: ivf_frame_def [of f])
  then have "read_exact 12 (vr_rd r) = Some (?fh, snd f @ ?rest)"
    by (simp only: read_exact_append)
  then have nx: "vp8_next r =
      (Inr \<lparr>sm_data = snd f, sm_duration = vr_frame_duration r\<rparr>, r\<lparr>vr_rd := ?rest\<rparr>)"
    using Cons.prems len by (simp add: vp8_next_def vp8_read_header_def vp8_read_frame_def)
  have "drain n vp8_next (r\<lparr>vr_rd := ?rest\<rparr>) =
    (map (\<lambda>f. \<lparr>sm_data = snd f, sm_duration = vr_frame_duration (r\<lparr>vr_rd := ?rest\<rparr>)\<rparr>) fs, Some File)"
    using Cons.prems n by (intro Cons.IH) (simp_all add: ivf_frame_def [of f])
  with nx n show ?case by simp
qed

text \<open>Behind a good header the reader is at the first frame, with the header's frame duration.\<close>

definition ivf_duration :: "u32 \<Rightarrow> u32 \<Rightarrow> duration_ns" where
  "ivf_duration den num =
     (if 0 < den \<and> 0 < num then unat num * 1000000000 div unat den else 33333333)"

lemma ivf_started:
  assumes "length info = 12" "length rest = 8"
  shows "vp8_next (vp8_new (ivf_header info den num rest @ body)) =
    vp8_next \<lparr>vr_rd = body, vr_header_read = True, vr_frame_duration = ivf_duration den num\<rparr>"
proof -
  let ?h = "ivf_header info den num rest"
  let ?r = "\<lparr>vr_rd = body, vr_header_read = True, vr_frame_duration = ivf_duration den num\<rparr>"
  have "unat (ucast num * 1000000000 :: u64) = unat num * 1000000000"
    using unat_u32_less [of num] by (subst unat_mult_lem [THEN iffD1]) simp_all
  then have tb: "vp8_timebase_ns num den = unat num * 1000000000 div unat den"
    by (simp add: vp8_timebase_ns_def unat_div)
  have "length ?h = 32" using assms by (simp add: ivf_header_def)
  then have "read_exact 32 (?h @ body) = Some (?h, body)" by simp
  moreover have "take 4 (drop 16 ?h) = to_le32 den" "take 4 (drop 20 ?h) = to_le32 num"
    using assms by (simp_all add: ivf_header_def)
  moreover have "take 4 ?h = ascii ''DKIF''" by (simp add: ivf_header_def)
  ultimately have "vp8_read_header (vp8_new (?h @ body)) = (Inr (), ?r)"
    by (simp add: vp8_read_header_def vp8_new_def ivf_duration_def tb Let_def)
  then show ?thesis by (simp add: vp8_next_def vp8_read_header_def)
qed

text \<open>
  C14. Round trip for video: an IVF stream with the 32 byte header and any frames of less
  than 4 GiB is read back frame by frame, unchanged and in order, each with the duration
  \<open>num / den\<close> seconds of the header's time base in whole nanoseconds (33333333 ns when the
  header has a zero there); the end of the source is reported as the error \<open>File\<close>.
\<close>

theorem ivf_roundtrip:
  assumes "length info = 12" "length rest = 8"
    and "\<forall>f \<in> set fs. length (fst f) = 8 \<and> length (snd f) < 2 ^ 32"
    and "length (ivf_header info den num rest @ concat (map ivf_frame fs)) < fuel"
  shows "drain fuel vp8_next (vp8_new (ivf_header info den num rest @ concat (map ivf_frame fs))) =
    (map (\<lambda>f. \<lparr>sm_data = snd f,
              sm_duration = (if 0 < den \<and> 0 < num
                             then unat num * 1000000000 div unat den else 33333333)\<rparr>) fs,
     Some File)"
proof -
  let ?h = "ivf_header info den num rest" and ?body = "concat (map ivf_frame fs)"
  let ?r = "\<lparr>vr_rd = ?body, vr_header_read = True, vr_frame_duration = ivf_duration den num\<rparr>"
  have "drain fuel vp8_next (vp8_new (?h @ ?body)) = drain fuel vp8_next ?r"
    using ivf_started [OF assms(1,2)] assms(4) by (cases fuel) simp_all
  also have "\<dots> = (map (\<lambda>f. \<lparr>sm_data = snd f, sm_duration = vr_frame_duration ?r\<rparr>) fs, Some File)"
    using assms by (intro vp8_drain_frames) simp_all
  finally show ?thesis by (simp add: ivf_duration_def)
qed

lemma ivf_roundtrip_witness:
  "drain 100 vp8_next (vp8_new (ivf_header (replicate 12 0) 30 1 (replicate 8 0) @
      concat (map ivf_frame [(replicate 8 0, [1, 2, 3]), (replicate 8 0, [])]))) =
    ([\<lparr>sm_data = [1, 2, 3], sm_duration = 33333333\<rparr>, \<lparr>sm_data = [], sm_duration = 33333333\<rparr>],
     Some File)"
  using ivf_roundtrip [of "replicate 12 0" "replicate 8 0"
      "[(replicate 8 0, [1, 2, 3]), (replicate 8 0, [])]" 30 1 100]
  by (simp add: ivf_header_def ivf_frame_def)

section \<open>Errors\<close>

text \<open>
  A source that does not begin with the container's magic is refused with an error
  that names the container, and a source that ends inside a header, a segment table or a
  payload with the error \<open>File\<close>: no sample is ever invented from a damaged start.
\<close>

theorem reader_rejects:
  "(27 \<le> length rd \<longrightarrow> take 4 rd \<noteq> ascii ''OggS'' \<longrightarrow>
      fst (opus_next (opus_new rd)) = Inl (Internal ''invalid Ogg magic header''))
   \<and> (length rd < 27 \<longrightarrow> fst (opus_next (opus_new rd)) = Inl File)
   \<and> (32 \<le> length rd \<longrightarrow> take 4 rd \<noteq> ascii ''DKIF'' \<longrightarrow>
      fst (vp8_next (vp8_new rd)) = Inl (Internal ''invalid IVF magic header''))
   \<and> (length rd < 44 \<longrightarrow> take 4 rd = ascii ''DKIF'' \<longrightarrow> fst (vp8_next (vp8_new rd)) = Inl File)"
proof (intro conjI impI)
  assume "27 \<le> length rd" "take 4 rd \<noteq> ascii ''OggS''"
  then show "fst (opus_next (opus_new rd)) = Inl (Internal ''invalid Ogg magic header'')"
    by (simp add: opus_next.simps opus_new_def opus_read_page_def read_exact_def min_def)
next
  assume "length rd < 27"
  then show "fst (opus_next (opus_new rd)) = Inl File"
    by (simp add: opus_next.simps opus_new_def opus_read_page_def read_exact_def)
next
  assume "32 \<le> length rd" "take 4 rd \<noteq> ascii ''DKIF''"
  then show "fst (vp8_next (vp8_new rd)) = Inl (Internal ''invalid IVF magic header'')"
    by (simp add: vp8_next_def vp8_new_def vp8_read_header_def read_exact_def min_def)
next
  assume "length rd < 44" "take 4 rd = ascii ''DKIF''"
  moreover have "\<not> 12 \<le> length rd - 32" using \<open>length rd < 44\<close> by linarith
  ultimately show "fst (vp8_next (vp8_new rd)) = Inl File"
    by (cases "32 \<le> length rd")
      (simp_all add: vp8_next_def vp8_new_def vp8_read_header_def vp8_read_frame_def
        read_exact_def min_def Let_def)
qed

lemma reader_rejects_witness:
  "fst (opus_next (opus_new (replicate 27 0))) = Inl (Internal ''invalid Ogg magic header'')"
proof -
  have "replicate 4 (0 :: u8) = [0, 0, 0, 0]" by (simp add: numeral_eq_Suc)
  then show ?thesis using reader_rejects [of "replicate 27 0"] by (simp add: ascii_def)
qed

end
