(* ===== verification/Media_Source.thy ===== *)
theory Media_Source
  imports Models
begin

unbundle bit_operations_syntax

text \<open>
  \<open>src/media/source.rs\<close>: the two process-wide ffmpeg settings, the track bitmask, the
  streams a source opens, the encode options with their presets and defaults, and the
  in-memory source.
\<close>

section \<open>Process-wide settings\<close>

record ffmpeg_env =
  ff_binary :: string
  ff_stderr_log :: bool

definition ffmpeg_env_init :: ffmpeg_env where
  "ffmpeg_env_init = \<lparr>ff_binary = ''ffmpeg'', ff_stderr_log = False\<rparr>"

definition set_ffmpeg_path :: "string \<Rightarrow> ffmpeg_env \<Rightarrow> ffmpeg_env" where
  "set_ffmpeg_path path env =
     (if path = [] then env\<lparr>ff_binary := ''ffmpeg''\<rparr> else env\<lparr>ff_binary := path\<rparr>)"

definition get_ffmpeg_path :: "ffmpeg_env \<Rightarrow> string" where
  "get_ffmpeg_path env = ff_binary env"

definition set_stderr_log :: "bool \<Rightarrow> ffmpeg_env \<Rightarrow> ffmpeg_env" where
  "set_stderr_log on env = env\<lparr>ff_stderr_log := on\<rparr>"

definition is_stderr_log_enabled :: "ffmpeg_env \<Rightarrow> bool" where
  "is_stderr_log_enabled env = ff_stderr_log env"

text \<open>The configured path is never empty, whatever it was set to.\<close>

lemma ffmpeg_path_nonempty:
  "get_ffmpeg_path env \<noteq> [] \<Longrightarrow> get_ffmpeg_path (set_ffmpeg_path p env) \<noteq> []"
  by (simp add: get_ffmpeg_path_def set_ffmpeg_path_def)

section \<open>Tracks\<close>

type_synonym track = u8

definition TRACK_AUDIO :: track where "TRACK_AUDIO = push_bit 0 1"
definition TRACK_VIDEO :: track where "TRACK_VIDEO = push_bit 1 1"

definition has :: "track \<Rightarrow> track \<Rightarrow> bool" where
  "has t other \<longleftrightarrow> t AND other \<noteq> 0"

definition track_or :: "track \<Rightarrow> track \<Rightarrow> track" where
  "track_or a b = a OR b"

lemma TRACK_AUDIO_bit: "has t TRACK_AUDIO \<longleftrightarrow> bit t 0"
  by (simp add: has_def TRACK_AUDIO_def and_one_eq bit_0 odd_iff_mod_2_eq_one mod2_eq_if)

lemma has_or [simp]: "has (a OR b) c \<longleftrightarrow> has a c \<or> has b c"
proof -
  have "(a OR b) AND c = (a AND c) OR (b AND c)" by (rule bit.conj_disj_distrib2)
  then show ?thesis by (simp add: has_def or_eq_0_iff)
qed

lemma has_consts [simp]:
  "has TRACK_AUDIO TRACK_AUDIO" "has TRACK_VIDEO TRACK_VIDEO"
  "\<not> has TRACK_AUDIO TRACK_VIDEO" "\<not> has TRACK_VIDEO TRACK_AUDIO" "\<not> has 0 t"
  by (simp_all add: has_def TRACK_AUDIO_def TRACK_VIDEO_def)

section \<open>Streams\<close>

text \<open>
  A stream of type \<open>'s\<close> is the boxed reader: a child process's stdout or a cursor over
  bytes.  The close hook is the name of a callback.
\<close>

record 's streams =
  st_audio :: "'s option"
  st_video :: "'s option"
  st_close :: "string option"

definition streams_default :: "'s streams" where
  "streams_default = \<lparr>st_audio = None, st_video = None, st_close = None\<rparr>"

text \<open>\<open>Streams::close\<close> consumes the streams and calls the hook, if there is one, once.\<close>

definition streams_close :: "'s streams \<Rightarrow> string list" where
  "streams_close s = (case st_close s of None \<Rightarrow> [] | Some f \<Rightarrow> [f])"

section \<open>Encode options\<close>

record encode_options =
  video_bitrate_kbps :: u32
  video_width :: u32
  video_height :: u32
  video_fps :: u32
  audio_bitrate_kbps :: u32
  audio_channels :: u16
  tracks :: track

definition encode_default :: encode_options where
  "encode_default =
     \<lparr>video_bitrate_kbps = 800, video_width = 1280, video_height = 720, video_fps = 30,
      audio_bitrate_kbps = 128, audio_channels = DEFAULT_CHANNEL_COUNT, tracks = TRACK_AUDIO\<rparr>"

definition audio_only :: encode_options where
  "audio_only = encode_default\<lparr>tracks := TRACK_AUDIO\<rparr>"

definition video_preset :: "u32 \<Rightarrow> u32 \<Rightarrow> u32 \<Rightarrow> u32 \<Rightarrow> encode_options" where
  "video_preset w h fps kbps =
     encode_default\<lparr>video_width := w, video_height := h, video_fps := fps,
       video_bitrate_kbps := kbps, tracks := track_or TRACK_AUDIO TRACK_VIDEO\<rparr>"

definition video_default :: encode_options where
  "video_default = video_preset 854 480 60 1200"
definition video_60fps :: encode_options where
  "video_60fps = video_default"
definition video_fast :: encode_options where
  "video_fast = video_preset 640 360 30 800"
definition video_720p_30fps :: encode_options where
  "video_720p_30fps = video_preset 1280 720 30 1500"
definition video_720p_60fps :: encode_options where
  "video_720p_60fps = video_preset 1280 720 60 2500"
definition video_1080p_60fps :: encode_options where
  "video_1080p_60fps = video_preset 1920 1080 60 4000"

text \<open>The chain of assignments of \<open>with_defaults\<close>, in the code's order.\<close>

definition with_defaults :: "encode_options \<Rightarrow> encode_options" where
  "with_defaults o0 =
     (let o1 = (if video_bitrate_kbps o0 = 0 then o0\<lparr>video_bitrate_kbps := 800\<rparr> else o0);
          o2 = (if video_width o1 = 0 then o1\<lparr>video_width := 1280\<rparr> else o1);
          o3 = (if video_height o2 = 0 then o2\<lparr>video_height := 720\<rparr> else o2);
          o4 = (if video_fps o3 = 0 then o3\<lparr>video_fps := 30\<rparr> else o3);
          o5 = (if audio_bitrate_kbps o4 = 0 then o4\<lparr>audio_bitrate_kbps := 128\<rparr> else o4);
          o6 = (if audio_channels o5 = 0 then o5\<lparr>audio_channels := DEFAULT_CHANNEL_COUNT\<rparr> else o5);
          o7 = (if tracks o6 = 0 then o6\<lparr>tracks := TRACK_AUDIO\<rparr> else o6);
          o8 = (if has (tracks o7) TRACK_VIDEO
                then o7\<lparr>tracks := tracks o7 OR TRACK_AUDIO\<rparr> else o7)
      in o8)"

text \<open>The options a transcode may run with: nothing zero, no video without audio.\<close>

definition encode_ok :: "encode_options \<Rightarrow> bool" where
  "encode_ok opt \<longleftrightarrow>
     video_bitrate_kbps opt \<noteq> 0 \<and> video_width opt \<noteq> 0 \<and> video_height opt \<noteq> 0 \<and>
     video_fps opt \<noteq> 0 \<and> audio_bitrate_kbps opt \<noteq> 0 \<and> audio_channels opt \<noteq> 0 \<and>
     tracks opt \<noteq> 0 \<and> (has (tracks opt) TRACK_VIDEO \<longrightarrow> has (tracks opt) TRACK_AUDIO)"

lemma or_nonzero [simp]: "(a :: u8) OR TRACK_AUDIO \<noteq> 0"
proof
  assume "a OR TRACK_AUDIO = 0"
  then have "has (a OR TRACK_AUDIO) TRACK_AUDIO \<longleftrightarrow> has 0 TRACK_AUDIO" by simp
  then show False by simp
qed

lemma TRACK_AUDIO_nonzero [simp]: "TRACK_AUDIO \<noteq> 0"
  by (simp add: TRACK_AUDIO_def)

lemma or_absorb: "has t TRACK_AUDIO \<Longrightarrow> t OR TRACK_AUDIO = t"
proof (rule bit_eqI)
  fix n
  assume "has t TRACK_AUDIO"
  then have "bit t 0" by (simp add: TRACK_AUDIO_bit)
  then show "bit (t OR TRACK_AUDIO) n \<longleftrightarrow> bit t n"
    by (cases n) (auto simp: TRACK_AUDIO_def bit_simps)
qed

lemma with_defaults_fields:
  "video_bitrate_kbps (with_defaults opt) =
     (if video_bitrate_kbps opt = 0 then 800 else video_bitrate_kbps opt)"
  "video_width (with_defaults opt) = (if video_width opt = 0 then 1280 else video_width opt)"
  "video_height (with_defaults opt) = (if video_height opt = 0 then 720 else video_height opt)"
  "video_fps (with_defaults opt) = (if video_fps opt = 0 then 30 else video_fps opt)"
  "audio_bitrate_kbps (with_defaults opt) =
     (if audio_bitrate_kbps opt = 0 then 128 else audio_bitrate_kbps opt)"
  "audio_channels (with_defaults opt) = (if audio_channels opt = 0 then 2 else audio_channels opt)"
  "tracks (with_defaults opt) =
     (if tracks opt = 0 then TRACK_AUDIO
      else if has (tracks opt) TRACK_VIDEO then tracks opt OR TRACK_AUDIO else tracks opt)"
  by (simp_all add: with_defaults_def Let_def DEFAULT_CHANNEL_COUNT_def)

lemma with_defaults_ok: "encode_ok (with_defaults opt)"
  by (simp add: encode_ok_def with_defaults_fields)

lemma with_defaults_id: "encode_ok opt \<Longrightarrow> with_defaults opt = opt"
  by (auto simp: encode_ok_def with_defaults_def Let_def or_absorb)

text \<open>
  C40. Defaulting replaces exactly what is not set.  Every field that is set is kept and every zero
  field gets its default, each independently of the others; the tracks default to audio, and
  selecting video adds audio to what is selected.  So the result has no zero field and never
  selects video without audio, options that already satisfy this are returned unchanged
  (defaulting twice is defaulting once), and every preset is already complete.
\<close>

theorem with_defaults_normalises:
  "video_bitrate_kbps (with_defaults opt) = (if video_bitrate_kbps opt = 0 then 800 else video_bitrate_kbps opt)
   \<and> video_width (with_defaults opt) = (if video_width opt = 0 then 1280 else video_width opt)
   \<and> video_height (with_defaults opt) = (if video_height opt = 0 then 720 else video_height opt)
   \<and> video_fps (with_defaults opt) = (if video_fps opt = 0 then 30 else video_fps opt)
   \<and> audio_bitrate_kbps (with_defaults opt) = (if audio_bitrate_kbps opt = 0 then 128 else audio_bitrate_kbps opt)
   \<and> audio_channels (with_defaults opt) = (if audio_channels opt = 0 then 2 else audio_channels opt)
   \<and> tracks (with_defaults opt) =
        (if tracks opt = 0 then TRACK_AUDIO
         else if has (tracks opt) TRACK_VIDEO then tracks opt OR TRACK_AUDIO else tracks opt)
   \<and> encode_ok (with_defaults opt)
   \<and> with_defaults (with_defaults opt) = with_defaults opt
   \<and> (encode_ok opt \<longrightarrow> with_defaults opt = opt)
   \<and> (\<forall>p \<in> {encode_default, audio_only, video_default, video_60fps, video_fast,
        video_720p_30fps, video_720p_60fps, video_1080p_60fps}. encode_ok p)"
proof -
  have "encode_ok (video_preset w h f k)" if "w \<noteq> 0" "h \<noteq> 0" "f \<noteq> 0" "k \<noteq> 0" for w h f k
  proof -
    have "TRACK_AUDIO OR TRACK_VIDEO \<noteq> 0" by (simp add: TRACK_AUDIO_def TRACK_VIDEO_def)
    then show ?thesis
      using that by (simp add: encode_ok_def video_preset_def encode_default_def track_or_def
          DEFAULT_CHANNEL_COUNT_def)
  qed
  moreover have "encode_ok encode_default" "encode_ok audio_only"
    by (simp_all add: encode_ok_def encode_default_def audio_only_def DEFAULT_CHANNEL_COUNT_def)
  ultimately show ?thesis
    by (simp add: with_defaults_ok with_defaults_id with_defaults_fields video_default_def video_60fps_def
        video_fast_def video_720p_30fps_def video_720p_60fps_def video_1080p_60fps_def)
qed

lemma with_defaults_normalises_witness:
  "encode_ok video_fast \<and> with_defaults video_fast = video_fast"
  using with_defaults_normalises [of video_fast] by simp

section \<open>The in-memory source\<close>

record raw_bytes_source =
  rs_audio_data :: "bytes option"
  rs_video_data :: "bytes option"
  rs_tracks :: track

definition raw_new_audio :: "bytes \<Rightarrow> raw_bytes_source" where
  "raw_new_audio data =
     \<lparr>rs_audio_data = Some data, rs_video_data = None, rs_tracks = TRACK_AUDIO\<rparr>"

definition raw_new_media :: "bytes option \<Rightarrow> bytes option \<Rightarrow> raw_bytes_source" where
  "raw_new_media audio video =
     (let t0 = 0;
          t1 = (if audio \<noteq> None then t0 OR TRACK_AUDIO else t0);
          t2 = (if video \<noteq> None then t1 OR TRACK_VIDEO else t1)
      in \<lparr>rs_audio_data = audio, rs_video_data = video, rs_tracks = t2\<rparr>)"

definition raw_tracks :: "raw_bytes_source \<Rightarrow> track" where
  "raw_tracks s = rs_tracks s"

text \<open>\<open>open\<close>: a fresh cursor (here: the bytes from the start) for each track present.\<close>

definition raw_open :: "raw_bytes_source \<Rightarrow> error + bytes streams" where
  "raw_open s = Inr \<lparr>st_audio = rs_audio_data s, st_video = rs_video_data s, st_close = None\<rparr>"

definition from_raw_audio :: "bytes \<Rightarrow> raw_bytes_source" where
  "from_raw_audio data = raw_new_audio data"

lemma raw_tracks_announced:
  "\<exists>st. raw_open (raw_new_media a v) = Inr st
     \<and> (has (raw_tracks (raw_new_media a v)) TRACK_AUDIO \<longleftrightarrow> st_audio st \<noteq> None)
     \<and> (has (raw_tracks (raw_new_media a v)) TRACK_VIDEO \<longleftrightarrow> st_video st \<noteq> None)"
  by (simp add: raw_open_def raw_tracks_def raw_new_media_def Let_def)

end
