(* ===== verification/Float64.thy ===== *)
theory Float64
  imports Complex_Main Prelude
begin

text \<open>
  The few double-precision operations of the code: \<open>Duration::as_secs_f64\<close>, \<open>ms as f64 /
  1000.0\<close> and the formatting \<open>{:.3}\<close> that turn a seek offset into the argument of
  ffmpeg's \<open>-ss\<close>.  A non-negative double is a pair \<open>(m, s)\<close> standing for \<open>m / 2 ^ s\<close>.
  Each operation computes the exact rational and rounds it once to 53 significant bits,
  half to even, as IEEE 754 prescribes; no value here is subnormal or overflows.
\<close>

type_synonym f64 = "nat \<times> nat"

definition round_half_even :: "nat \<Rightarrow> nat \<Rightarrow> nat" where
  "round_half_even n d =
     (let q = n div d; r = n mod d
      in if 2 * r < d then q else if d < 2 * r then q + 1
         else if even q then q else q + 1)"

fun nbits :: "nat \<Rightarrow> nat" where
  "nbits n = (if n = 0 then 0 else Suc (nbits (n div 2)))"

declare nbits.simps [simp del]

text \<open>
  \<open>n / d\<close> rounded: with \<open>b\<close> the number of bits of \<open>n * 2 ^ 64 div d\<close>, the scaling by
  \<open>2 ^ (117 - b)\<close> leaves 53 bits before the point.
\<close>

definition f64_round :: "nat \<Rightarrow> nat \<Rightarrow> f64" where
  "f64_round n d =
     (if n = 0 then (0, 0)
      else let b = nbits (n * 2 ^ 64 div d)
           in if b \<le> 117 then (round_half_even (n * 2 ^ (117 - b)) d, 117 - b)
              else (round_half_even n (d * 2 ^ (b - 117)) * 2 ^ (b - 117), 0))"

definition f64_of_nat :: "nat \<Rightarrow> f64" where
  "f64_of_nat n = f64_round n 1"

definition f64_add :: "f64 \<Rightarrow> f64 \<Rightarrow> f64" where
  "f64_add x y = f64_round (fst x * 2 ^ snd y + fst y * 2 ^ snd x) (2 ^ (snd x + snd y))"

definition f64_div :: "f64 \<Rightarrow> f64 \<Rightarrow> f64" where
  "f64_div x y = f64_round (fst x * 2 ^ snd y) (fst y * 2 ^ snd x)"

text \<open>\<open>secs as f64 + nanos as f64 / 1e9\<close>, as the standard library computes it.\<close>

definition as_secs_f64 :: "duration_ns \<Rightarrow> f64" where
  "as_secs_f64 d =
     f64_add (f64_of_nat (d div 1000000000))
       (f64_div (f64_of_nat (d mod 1000000000)) (f64_of_nat 1000000000))"

definition three_digits :: "nat \<Rightarrow> string" where
  "three_digits n = [digit_char (n div 100 mod 10), digit_char (n div 10 mod 10), digit_char (n mod 10)]"

definition fmt_thousandths :: "nat \<Rightarrow> string" where
  "fmt_thousandths t = dec (t div 1000) @ ''.'' @ three_digits (t mod 1000)"

text \<open>\<open>format!("{:.3}", x)\<close>: the exact value rounded to thousandths, half to even.\<close>

definition fmt3 :: "f64 \<Rightarrow> string" where
  "fmt3 x = fmt_thousandths (round_half_even (1000 * fst x) (2 ^ snd x))"


lemmas f64_eval = fmt3_def as_secs_f64_def f64_add_def f64_div_def f64_of_nat_def f64_round_def
  round_half_even_def fmt_thousandths_def three_digits_def Let_def nbits.simps dec.simps
  digit_char_def

section \<open>Rounding errors\<close>

definition f64_val :: "f64 \<Rightarrow> real" where
  "f64_val x = real (fst x) / 2 ^ snd x"

lemma less_two_nbits: "n < 2 ^ nbits n"
proof (induction n rule: nbits.induct)
  case (1 n)
  show ?case
  proof (cases "n = 0")
    case True
    then show ?thesis by (simp add: nbits.simps)
  next
    case False
    with 1 have "n div 2 < 2 ^ nbits (n div 2)" by simp
    then have "n < 2 * 2 ^ nbits (n div 2)" by linarith
    with False show ?thesis by (simp add: nbits.simps [of n])
  qed
qed

lemma nbits_le: "n < 2 ^ k \<Longrightarrow> nbits n \<le> k"
proof (induction k arbitrary: n)
  case 0
  then show ?case by (simp add: nbits.simps)
next
  case (Suc k)
  then have "n div 2 < 2 ^ k" by simp
  then have "nbits (n div 2) \<le> k" by (rule Suc.IH)
  then show ?case by (simp add: nbits.simps [of n])
qed

lemma round_half_even_error:
  assumes "0 < d"
  shows "\<bar>real (round_half_even n d) - real n / real d\<bar> \<le> 1 / 2"
proof -
  let ?q = "n div d" and ?r = "n mod d"
  have n: "real n = real d * real ?q + real ?r"
    by (metis mult_div_mod_eq of_nat_add of_nat_mult)
  have r: "real ?r < real d" using assms by simp
  have frac: "real n / real d = real ?q + real ?r / real d"
    using n assms by (simp add: add_divide_distrib)
  consider "2 * ?r < d" | "d < 2 * ?r" | "2 * ?r = d" by linarith
  then show ?thesis
  proof cases
    case 1
    then have "real ?r / real d \<le> 1 / 2" using assms by (simp add: divide_le_eq)
    with 1 show ?thesis by (simp add: round_half_even_def Let_def frac)
  next
    case 2
    then have "1 / 2 \<le> real ?r / real d" "real ?r / real d \<le> 1"
      using assms r by (simp_all add: le_divide_eq)
    with 2 show ?thesis by (simp add: round_half_even_def Let_def frac)
  next
    case 3
    then have "2 * real ?r = real d" by linarith
    then have "real ?r / real d = 1 / 2" using assms by (simp add: field_simps)
    with 3 show ?thesis by (simp add: round_half_even_def Let_def frac)
  qed
qed

text \<open>A value near a whole number rounds to it.\<close>

lemma round_half_even_near:
  assumes "0 < d" and "\<bar>real n / real d - real k\<bar> < 1 / 2"
  shows "round_half_even n d = k"
proof -
  have "\<bar>real (round_half_even n d) - real k\<bar> < 1"
    using round_half_even_error [OF assms(1), of n] assms(2) by linarith
  then show ?thesis by linarith
qed

lemma half_power: "b + s = 117 \<Longrightarrow> (1 / 2) / 2 ^ s = (2::real) ^ b / 2 ^ 118"
proof -
  assume "b + s = 117"
  then have eq: "(2::real) ^ 118 = 2 * (2 ^ b * 2 ^ s)"
    by (metis numeral_eq_Suc power_Suc power_add pred_numeral_simps(2) BitM.simps(2)
      semiring_norm(26) semiring_norm(27) semiring_norm(28))
  show ?thesis unfolding eq by simp
qed

lemma f64_round_error:
  assumes "0 < n" "0 < d" "n * 2 ^ 64 < d * 2 ^ k" "k \<le> 117"
  shows "\<bar>f64_val (f64_round n d) - real n / real d\<bar> \<le> 2 ^ k / 2 ^ 118"
proof -
  let ?b = "nbits (n * 2 ^ 64 div d)"
  have "n * 2 ^ 64 div d < 2 ^ k"
    using assms by (simp add: less_mult_imp_div_less mult.commute)
  then have b: "?b \<le> k" by (rule nbits_le)
  let ?s = "117 - ?b" and ?m = "round_half_even (n * 2 ^ (117 - ?b)) d"
  have e: "\<bar>real ?m - real (n * 2 ^ ?s) / real d\<bar> \<le> 1 / 2"
    using assms(2) by (rule round_half_even_error)
  have scale: "\<bar>y / 2 ^ s\<bar> \<le> (1 / 2) / 2 ^ s" if "\<bar>y\<bar> \<le> 1 / 2" for y :: real and s :: nat
    using divide_right_mono [OF that, of "2 ^ s"] by simp
  have "real ?m / 2 ^ ?s - real n / real d = (real ?m - real (n * 2 ^ ?s) / real d) / 2 ^ ?s"
    by (simp add: diff_divide_distrib)
  then have "\<bar>real ?m / 2 ^ ?s - real n / real d\<bar> \<le> (1 / 2) / 2 ^ ?s"
    using scale [OF e, of ?s] by (simp only:)
  also have "\<dots> = 2 ^ ?b / 2 ^ 118"
    using b assms(4) by (intro half_power) linarith
  also have "\<dots> \<le> 2 ^ k / 2 ^ 118"
    using b by (intro divide_right_mono power_increasing) simp_all
  finally show ?thesis
    using assms b by (simp add: f64_round_def f64_val_def Let_def)
qed

section \<open>Whole milliseconds are printed exactly\<close>

lemma f64_round_exact:
  assumes "n < 2 ^ 53"
  shows "f64_val (f64_round n 1) = real n"
proof (cases "n = 0")
  case True
  then show ?thesis by (simp add: f64_round_def f64_val_def)
next
  case False
  have "n * 2 ^ 64 < 2 ^ 117" using assms by simp
  then have "nbits (n * 2 ^ 64) \<le> 117" by (rule nbits_le)
  with False show ?thesis
    by (simp add: f64_round_def f64_val_def round_half_even_def Let_def)
qed

lemma f64_round_pos: "0 < f64_val x \<Longrightarrow> 0 < fst x"
  by (simp add: f64_val_def zero_less_divide_iff)

lemma f64_of_nat_exact: "n < 2 ^ 53 \<Longrightarrow> f64_val (f64_of_nat n) = real n"
  using f64_round_exact [of n] by (simp add: f64_of_nat_def)

lemma f64_div_ratio:
  "fst y \<noteq> 0 \<Longrightarrow> real (fst x * 2 ^ snd y) / real (fst y * 2 ^ snd x) = f64_val x / f64_val y"
  by (simp add: f64_val_def)

lemma f64_add_ratio:
  "real (fst x * 2 ^ snd y + fst y * 2 ^ snd x) / real (2 ^ (snd x + snd y)) = f64_val x + f64_val y"
  by (simp add: f64_val_def power_add add_divide_distrib)

text \<open>The two roundings of \<open>as_secs_f64\<close> stay far below half a millisecond.\<close>

lemma f64_div_error:
  assumes "0 < fst y" "f64_val x < f64_val y"
  shows "\<bar>f64_val (f64_div x y) - f64_val x / f64_val y\<bar> \<le> 2 ^ 64 / 2 ^ 118"
proof (cases "fst x = 0")
  case True
  then show ?thesis by (simp add: f64_div_def f64_round_def f64_val_def)
next
  case False
  let ?n = "fst x * 2 ^ snd y" and ?d = "fst y * 2 ^ snd x"
  have "real ?n < real ?d"
    using assms(2) by (simp add: f64_val_def field_simps)
  then have "?n < ?d" by (simp only: of_nat_less_iff)
  then have "\<bar>f64_val (f64_round ?n ?d) - real ?n / real ?d\<bar> \<le> 2 ^ 64 / 2 ^ 118"
    using assms False by (intro f64_round_error) simp_all
  then show ?thesis using assms by (simp only: f64_div_def f64_div_ratio) 
qed

lemma f64_add_error:
  assumes "f64_val x + f64_val y < 2 ^ 21" "0 < fst x \<or> 0 < fst y"
  shows "\<bar>f64_val (f64_add x y) - (f64_val x + f64_val y)\<bar> \<le> 2 ^ 85 / 2 ^ 118"
proof -
  let ?n = "fst x * 2 ^ snd y + fst y * 2 ^ snd x" and ?d = "2 ^ (snd x + snd y) :: nat"
  have "real ?n / real ?d < 2 ^ 21" using assms(1) by (simp only: f64_add_ratio)
  then have "real ?n < real (2 ^ 21 * ?d)" by (simp add: divide_less_eq)
  then have "?n < 2 ^ 21 * ?d" by (simp only: of_nat_less_iff)
  then have "\<bar>f64_val (f64_round ?n ?d) - real ?n / real ?d\<bar> \<le> 2 ^ 85 / 2 ^ 118"
    using assms(2) by (intro f64_round_error) auto
  then show ?thesis by (simp only: f64_add_def f64_add_ratio)
qed

lemma as_secs_f64_error:
  assumes "d < 2 ^ 20 * 1000000000"
  shows "\<bar>f64_val (as_secs_f64 d) - real d / 1000000000\<bar> < 1 / 2000"
proof (cases "d = 0")
  case True
  then show ?thesis
    by (simp add: as_secs_f64_def f64_add_def f64_div_def f64_of_nat_def f64_round_def f64_val_def)
next
  case False
  let ?s = "d div 1000000000" and ?m = "d mod 1000000000" and ?g = "1000000000 :: nat"
  let ?S = "f64_of_nat ?s" and ?M = "f64_of_nat ?m" and ?G = "f64_of_nat ?g"
  have s: "?s < 2 ^ 20" using assms by (simp add: less_mult_imp_div_less)
  have S: "f64_val ?S = real ?s" and M: "f64_val ?M = real ?m" and G: "f64_val ?G = real ?g"
    using s by (simp_all add: f64_of_nat_exact)
  have g: "0 < fst ?G" using G by (intro f64_round_pos) simp
  have "real ?m < 1000000000" using assms by simp
  then have q: "\<bar>f64_val (f64_div ?M ?G) - real ?m / 1000000000\<bar> \<le> 2 ^ 64 / 2 ^ 118"
    using f64_div_error [OF g, of ?M] M G by simp
  have split: "real d / 1000000000 = real ?s + real ?m / 1000000000"
  proof -
    have "real d = real ?m + 1000000000 * real ?s"
      by (metis mod_mult_div_eq of_nat_add of_nat_mult of_nat_numeral)
    then show ?thesis by simp
  qed
  have lt: "real ?s + f64_val (f64_div ?M ?G) < 2 ^ 21"
  proof -
    have 1: "real ?s \<le> 1048576" using s by simp
    have 2: "real ?m / 1000000000 \<le> 1" by simp
    have "(2::real) ^ 64 / 2 ^ 118 \<le> 1" by simp
    then have 3: "f64_val (f64_div ?M ?G) \<le> real ?m / 1000000000 + 1"
      using q unfolding abs_le_iff by linarith
    have "real ?s + f64_val (f64_div ?M ?G) \<le> 1048578"
      using 1 2 3 by linarith
    then show ?thesis by simp
  qed
  have near: "\<bar>a - (s + m)\<bar> < e"
    if "\<bar>a - (s + q)\<bar> \<le> e1" "\<bar>q - m\<bar> \<le> e2" "e1 + e2 < e" for a s q m e e1 e2 :: real
    using that by linarith
  show ?thesis
  proof (cases "0 < fst ?S \<or> 0 < fst (f64_div ?M ?G)")
    case True
    then have "\<bar>f64_val (as_secs_f64 d) - (real ?s + f64_val (f64_div ?M ?G))\<bar> \<le> 2 ^ 85 / 2 ^ 118"
      using f64_add_error [of ?S "f64_div ?M ?G"] lt S by (simp add: as_secs_f64_def)
    then show ?thesis unfolding split using q by (rule near) simp
  next
    case zero: False
    then have "f64_val ?S = 0" "f64_val (f64_div ?M ?G) = 0" by (simp_all add: f64_val_def)
    moreover have "f64_val (as_secs_f64 d) = 0"
      using zero by (simp add: as_secs_f64_def f64_add_def f64_round_def f64_val_def)
    ultimately have "\<bar>f64_val (as_secs_f64 d) - (real ?s + f64_val (f64_div ?M ?G))\<bar> \<le> 0"
      using S by simp
    then show ?thesis unfolding split using q by (rule near) simp
  qed
qed

text \<open>
  For every offset of whole milliseconds below twelve days the text that
  \<open>format!("{:.3}", offset.as_secs_f64())\<close> gives is the exact decimal number of seconds:
  the double-precision detour never changes a digit.
\<close>

theorem seek_offset_text_exact:
  assumes "ms < 2 ^ 20 * 1000"
  shows "fmt3 (as_secs_f64 (ms * 1000000)) = dec (ms div 1000) @ ''.'' @ three_digits (ms mod 1000)"
proof -
  let ?x = "as_secs_f64 (ms * 1000000)"
  have "\<bar>f64_val ?x - real (ms * 1000000) / 1000000000\<bar> < 1 / 2000"
    using assms by (intro as_secs_f64_error) simp
  then have "\<bar>1000 * f64_val ?x - real ms\<bar> < 1 / 2"
    by (simp add: abs_less_iff field_simps)
  then have "round_half_even (1000 * fst ?x) (2 ^ snd ?x) = ms"
    by (intro round_half_even_near) (simp_all add: f64_val_def)
  then show ?thesis by (simp add: fmt3_def fmt_thousandths_def)
qed

text \<open>The same for \<open>ms as f64 / 1000.0\<close>.\<close>

theorem millis_text_exact:
  assumes "ms < 2 ^ 20 * 1000"
  shows "fmt3 (f64_div (f64_of_nat ms) (f64_of_nat 1000)) = dec (ms div 1000) @ ''.'' @ three_digits (ms mod 1000)"
proof -
  let ?x = "f64_of_nat ms" and ?y = "f64_of_nat 1000"
  let ?q = "f64_div ?x ?y"
  have v: "f64_val ?x = real ms" "f64_val ?y = 1000"
    using assms by (simp_all add: f64_of_nat_exact)
  have "\<bar>f64_val ?q - real ms / 1000\<bar> < 1 / 2000"
  proof (cases "fst ?x = 0")
    case True
    with v(1) have "ms = 0" by (simp add: f64_val_def)
    then show ?thesis by (simp add: f64_div_def f64_of_nat_def f64_round_def f64_val_def)
  next
    case False
    have y: "0 < fst ?y" using v(2) f64_round_pos [of ?y] by simp
    let ?n = "fst ?x * 2 ^ snd ?y" and ?d = "fst ?y * 2 ^ snd ?x"
    have r: "real ?n / real ?d = real ms / 1000"
      using f64_div_ratio [of ?y ?x] y v by simp
    have "real ?n / real ?d < 2 ^ 21" using assms unfolding r by simp
    then have "real ?n < real (2 ^ 21 * ?d)" using y by (simp add: divide_less_eq)
    then have "?n < 2 ^ 21 * ?d" by (simp only: of_nat_less_iff)
    then have "\<bar>f64_val (f64_round ?n ?d) - real ?n / real ?d\<bar> \<le> 2 ^ 85 / 2 ^ 118"
      using y False by (intro f64_round_error) (simp_all add: mult.commute mult.left_commute)
    then show ?thesis unfolding f64_div_def r by simp
  qed
  then have "\<bar>1000 * f64_val ?q - real ms\<bar> < 1 / 2"
    by (simp add: abs_less_iff field_simps)
  then have "round_half_even (1000 * fst ?q) (2 ^ snd ?q) = ms"
    by (intro round_half_even_near) (simp_all add: f64_val_def)
  then show ?thesis by (simp add: fmt3_def fmt_thousandths_def)
qed

end
