(* ===== verification/Shell_Reader.thy ===== *)
theory Shell_Reader
  imports Ring_Buffer Models
begin

text \<open>
  \<open>src/io/shell_reader.rs\<close>: the child process behind every ffmpeg source.  The state holds
  the shared fields of \<open>ShellReader\<close> and the program counters of the tasks that touch them:
  the reap task, the one effective \<open>close\<close>, and the callers of \<open>wait_for_exit\<close>.  One action
  is one atomic step of one task; the child's exit and its stderr output are actions of the
  environment.  The operating system's answer to a spawn is a parameter.
\<close>

section \<open>State\<close>

text \<open>What \<open>Child::wait\<close> resolves to; a status and an I/O error carry their printed form.\<close>

datatype exit_status = Success | Failure string | Wait_error string

datatype holder = Reaper | Closer

datatype reaper_pc = R_lock | R_wait | R_store "error option" | R_call "error option"
  | R_flag | R_notify | R_done

datatype closer_pc = C_idle | C_lock | C_take | C_reap | C_flag | C_notify | C_done

datatype waiter_pc = W_enter | W_checked | W_listening | W_returned

record shell_reader =
  sr_pid :: "u32 option"
  sr_child :: bool
  sr_lock :: "holder option"
  sr_process :: "exit_status option"
  sr_killed :: bool
  sr_streaming :: bool
  sr_stderr_ring :: ring
  sr_on_exit :: "string option"
  sr_calls :: "(string \<times> error option) list"
  sr_closed :: bool
  sr_exited :: bool
  sr_exit_error :: "error option"
  sr_reaper :: reaper_pc
  sr_closer :: closer_pc
  sr_waiters :: "waiter_pc list"

section \<open>Spawning\<close>

record spawned =
  sp_pid :: "u32 option"
  sp_stdout :: bool
  sp_stderr :: bool

text \<open>
  \<open>os n program args piped\<close> is the answer to the \<open>n\<close>th spawn of the process: the text of
  the error, or the child with the handles it has.  The log is the list of processes started.
\<close>

type_synonym os_spawn = "nat \<Rightarrow> string \<Rightarrow> string list \<Rightarrow> bool \<Rightarrow> string + spawned"
type_synonym spawn_log = "(string \<times> string list) list"

definition sr_init :: "u32 option \<Rightarrow> bool \<Rightarrow> shell_reader" where
  "sr_init pid streaming =
     \<lparr>sr_pid = pid, sr_child = True, sr_lock = None, sr_process = None, sr_killed = False,
      sr_streaming = streaming, sr_stderr_ring = ring_new 4096, sr_on_exit = None, sr_calls = [],
      sr_closed = False, sr_exited = False, sr_exit_error = None, sr_reaper = R_lock,
      sr_closer = C_idle, sr_waiters = []\<rparr>"

definition shell_new ::
  "os_spawn \<Rightarrow> string \<Rightarrow> string list \<Rightarrow> bool \<Rightarrow> spawn_log \<Rightarrow> (error + shell_reader) \<times> spawn_log" where
  "shell_new os program args stream_stderr log =
     (case os (length log) program args stream_stderr of
        Inl e \<Rightarrow> (Inl (FFmpegSpawn e), log)
      | Inr c \<Rightarrow>
          if \<not> sp_stdout c
          then (Inl (FFmpegSpawn ''failed to capture ffmpeg stdout''), log @ [(program, args)])
          else (Inr (sr_init (sp_pid c) (stream_stderr \<and> sp_stderr c)), log @ [(program, args)]))"

section \<open>The tasks\<close>

datatype sr_action =
    Reap                     \<comment> \<open>a step of the reap task\<close>
  | Close_call               \<comment> \<open>a call of \<open>close\<close>, up to its swap\<close>
  | Close_step               \<comment> \<open>a step of the one \<open>close\<close> that passed the swap\<close>
  | Set_on_exit string
  | Wait_call                \<comment> \<open>a new caller of \<open>wait_for_exit\<close>\<close>
  | Wait_step nat
  | Stderr_chunk bytes       \<comment> \<open>one read of at most 1024 bytes by the stderr task\<close>
  | Process_exit exit_status

fun exit_report :: "exit_status \<Rightarrow> error option" where
  "exit_report Success = None"
| "exit_report (Failure s) = Some (FFmpegCrashed (''ffmpeg exited with code '' @ s))"
| "exit_report (Wait_error e) = Some (FFmpegCrashed e)"

definition wake :: "waiter_pc \<Rightarrow> waiter_pc" where
  "wake w = (if w = W_listening then W_returned else w)"

definition notify_waiters :: "shell_reader \<Rightarrow> shell_reader" where
  "notify_waiters s = s\<lparr>sr_waiters := map wake (sr_waiters s)\<rparr>"

text \<open>
  The reap task: lock the child; \<open>wait\<close> with the guard held; release; store the error; call
  the callback; set \<open>exited\<close>; notify.  It returns at once when the child was already taken.
\<close>

definition reap_step :: "shell_reader \<Rightarrow> shell_reader option" where
  "reap_step s =
     (case sr_reaper s of
        R_lock \<Rightarrow>
          if sr_lock s \<noteq> None then None
          else if sr_child s then Some (s\<lparr>sr_lock := Some Reaper, sr_reaper := R_wait\<rparr>)
          else Some (s\<lparr>sr_reaper := R_done\<rparr>)
      | R_wait \<Rightarrow>
          (case sr_process s of
             None \<Rightarrow> None
           | Some st \<Rightarrow> Some (s\<lparr>sr_lock := None, sr_reaper := R_store (exit_report st)\<rparr>))
      | R_store e \<Rightarrow> Some (s\<lparr>sr_exit_error := e, sr_reaper := R_call e\<rparr>)
      | R_call e \<Rightarrow>
          (case sr_on_exit s of
             None \<Rightarrow> Some (s\<lparr>sr_reaper := R_flag\<rparr>)
           | Some f \<Rightarrow> Some (s\<lparr>sr_calls := sr_calls s @ [(f, e)], sr_reaper := R_flag\<rparr>))
      | R_flag \<Rightarrow> Some (s\<lparr>sr_exited := True, sr_reaper := R_notify\<rparr>)
      | R_notify \<Rightarrow> Some (notify_waiters s\<lparr>sr_reaper := R_done\<rparr>)
      | R_done \<Rightarrow> None)"

text \<open>\<open>close\<close>: the swap lets one caller through; that one locks, takes, kills and reaps the
  child, sets \<open>exited\<close> and notifies, with the guard held to the end.\<close>

definition close_call :: "shell_reader \<Rightarrow> shell_reader" where
  "close_call s = (if sr_closed s then s else s\<lparr>sr_closed := True, sr_closer := C_lock\<rparr>)"

definition close_step :: "shell_reader \<Rightarrow> shell_reader option" where
  "close_step s =
     (case sr_closer s of
        C_idle \<Rightarrow> None
      | C_lock \<Rightarrow>
          if sr_lock s \<noteq> None then None
          else Some (s\<lparr>sr_lock := Some Closer, sr_closer := C_take\<rparr>)
      | C_take \<Rightarrow>
          if sr_child s
          then Some (s\<lparr>sr_child := False, sr_killed := (sr_process s = None), sr_closer := C_reap\<rparr>)
          else Some (s\<lparr>sr_closer := C_flag\<rparr>)
      | C_reap \<Rightarrow> if sr_process s = None then None else Some (s\<lparr>sr_closer := C_flag\<rparr>)
      | C_flag \<Rightarrow> Some (s\<lparr>sr_exited := True, sr_closer := C_notify\<rparr>)
      | C_notify \<Rightarrow> Some (notify_waiters s\<lparr>sr_lock := None, sr_closer := C_done\<rparr>)
      | C_done \<Rightarrow> None)"

text \<open>
  \<open>wait_for_exit\<close>: read the flag; create the \<open>Notified\<close> future; wait for a notification,
  which reaches only the futures created before it.
\<close>

definition wait_step :: "nat \<Rightarrow> shell_reader \<Rightarrow> shell_reader option" where
  "wait_step i s =
     (if length (sr_waiters s) \<le> i then None
      else case sr_waiters s ! i of
        W_enter \<Rightarrow>
          Some (s\<lparr>sr_waiters := (sr_waiters s)[i := if sr_exited s then W_returned else W_checked]\<rparr>)
      | W_checked \<Rightarrow> Some (s\<lparr>sr_waiters := (sr_waiters s)[i := W_listening]\<rparr>)
      | W_listening \<Rightarrow> None
      | W_returned \<Rightarrow> None)"

fun sr_step :: "sr_action \<Rightarrow> shell_reader \<Rightarrow> shell_reader option" where
  "sr_step Reap s = reap_step s"
| "sr_step Close_call s = Some (close_call s)"
| "sr_step Close_step s = close_step s"
| "sr_step (Set_on_exit f) s = Some (s\<lparr>sr_on_exit := Some f\<rparr>)"
| "sr_step Wait_call s = Some (s\<lparr>sr_waiters := sr_waiters s @ [W_enter]\<rparr>)"
| "sr_step (Wait_step i) s = wait_step i s"
| "sr_step (Stderr_chunk c) s =
     (if sr_streaming s \<and> c \<noteq> [] \<and> length c \<le> 1024
      then Some (s\<lparr>sr_stderr_ring := ring_push (sr_stderr_ring s) c\<rparr>) else None)"
| "sr_step (Process_exit st) s =
     (if sr_process s = None then Some (s\<lparr>sr_process := Some st\<rparr>) else None)"

fun sr_run :: "sr_action list \<Rightarrow> shell_reader \<Rightarrow> shell_reader option" where
  "sr_run [] s = Some s"
| "sr_run (a # as) s = (case sr_step a s of None \<Rightarrow> None | Some s' \<Rightarrow> sr_run as s')"

text \<open>The states of a reader: a freshly spawned one and whatever its tasks make of it.\<close>

inductive sr_reach :: "shell_reader \<Rightarrow> bool" where
  start: "sr_reach (sr_init pid streaming)"
| step: "sr_reach s \<Longrightarrow> sr_step a s = Some s' \<Longrightarrow> sr_reach s'"

text \<open>Readers of the shared state.\<close>

definition stderr_tail :: "shell_reader \<Rightarrow> bytes" where
  "stderr_tail s = ring_snapshot (sr_stderr_ring s)"

definition exit_error :: "shell_reader \<Rightarrow> error option" where
  "exit_error s = sr_exit_error s"

lemmas sr_defs = reap_step_def close_call_def close_step_def wait_step_def notify_waiters_def

section \<open>Invariant\<close>

text \<open>
  Who holds the child's mutex, whose child it is, and what has been reported so far.
\<close>

fun sr_inv_reaper :: "reaper_pc \<Rightarrow> shell_reader \<Rightarrow> bool" where
  "sr_inv_reaper R_lock s \<longleftrightarrow>
     sr_lock s \<noteq> Some Reaper \<and> sr_exit_error s = None \<and> sr_calls s = []"
| "sr_inv_reaper R_wait s \<longleftrightarrow>
     sr_lock s = Some Reaper \<and> sr_child s \<and> \<not> sr_killed s \<and> sr_exit_error s = None \<and> sr_calls s = []
     \<and> sr_closer s \<in> {C_idle, C_lock}"
| "sr_inv_reaper (R_store e) s \<longleftrightarrow>
     sr_lock s \<noteq> Some Reaper \<and> \<not> sr_killed s \<and> (\<exists>st. sr_process s = Some st \<and> e = exit_report st) \<and>
     sr_exit_error s = None \<and> sr_calls s = []"
| "sr_inv_reaper (R_call e) s \<longleftrightarrow>
     sr_lock s \<noteq> Some Reaper \<and> \<not> sr_killed s \<and> (\<exists>st. sr_process s = Some st \<and> e = exit_report st) \<and>
     sr_exit_error s = e \<and> sr_calls s = []"
| "sr_inv_reaper R_flag s \<longleftrightarrow>
     sr_lock s \<noteq> Some Reaper \<and> \<not> sr_killed s \<and>
     (\<exists>st. sr_process s = Some st \<and> sr_exit_error s = exit_report st) \<and>
     (sr_calls s = [] \<or> (\<exists>f. sr_calls s = [(f, sr_exit_error s)]))"
| "sr_inv_reaper R_notify s \<longleftrightarrow>
     sr_lock s \<noteq> Some Reaper \<and> \<not> sr_killed s \<and> sr_exited s \<and>
     (\<exists>st. sr_process s = Some st \<and> sr_exit_error s = exit_report st) \<and>
     (sr_calls s = [] \<or> (\<exists>f. sr_calls s = [(f, sr_exit_error s)]))"
| "sr_inv_reaper R_done s \<longleftrightarrow>
     sr_lock s \<noteq> Some Reaper \<and>
     (sr_calls s = [] \<and> sr_exit_error s = None \<and> \<not> sr_child s
      \<or> \<not> sr_killed s \<and> sr_exited s \<and>
        (\<exists>st. sr_process s = Some st \<and> sr_exit_error s = exit_report st) \<and>
        (sr_calls s = [] \<or> (\<exists>f. sr_calls s = [(f, sr_exit_error s)])))"

definition sr_inv_closer :: "shell_reader \<Rightarrow> bool" where
  "sr_inv_closer s \<longleftrightarrow>
     (sr_closed s \<longleftrightarrow> sr_closer s \<noteq> C_idle)
     \<and> (sr_lock s = Some Closer \<longleftrightarrow> sr_closer s \<in> {C_take, C_reap, C_flag, C_notify})
     \<and> (\<not> sr_child s \<longrightarrow> sr_closer s \<in> {C_reap, C_flag, C_notify, C_done})
     \<and> (sr_child s \<longrightarrow> \<not> sr_killed s \<and> sr_closer s \<in> {C_idle, C_lock, C_take})
     \<and> (sr_exited s \<longrightarrow> sr_reaper s \<in> {R_notify, R_done} \<or> sr_closer s \<in> {C_notify, C_done})"

definition sr_inv :: "shell_reader \<Rightarrow> bool" where
  "sr_inv s \<longleftrightarrow> sr_inv_reaper (sr_reaper s) s \<and> sr_inv_closer s"

lemma sr_init_inv: "sr_inv (sr_init pid streaming)"
  by (simp add: sr_init_def sr_inv_def sr_inv_closer_def)

lemmas sr_inv_defs = sr_inv_def sr_inv_closer_def

lemma reap_step_inv: "sr_inv s \<Longrightarrow> reap_step s = Some s' \<Longrightarrow> sr_inv s'"
  by (cases "sr_reaper s"; simp add: reap_step_def split: if_splits option.splits;
      clarsimp simp: sr_inv_defs notify_waiters_def)

lemma close_call_inv: "sr_inv s \<Longrightarrow> sr_inv (close_call s)"
  by (cases "sr_reaper s"; cases "sr_closer s"; clarsimp simp: close_call_def sr_inv_defs)

lemma close_step_inv: "sr_inv s \<Longrightarrow> close_step s = Some s' \<Longrightarrow> sr_inv s'"
  by (cases "sr_closer s"; simp add: close_step_def split: if_splits;
      cases "sr_reaper s"; clarsimp simp: sr_inv_defs notify_waiters_def)

lemma env_step_inv:
  "sr_inv s \<Longrightarrow> sr_inv (s\<lparr>sr_on_exit := Some f\<rparr>)"
  "sr_inv s \<Longrightarrow> sr_inv (s\<lparr>sr_waiters := ws\<rparr>)"
  "sr_inv s \<Longrightarrow> sr_inv (s\<lparr>sr_stderr_ring := r\<rparr>)"
  "sr_inv s \<Longrightarrow> sr_process s = None \<Longrightarrow> sr_inv (s\<lparr>sr_process := Some st\<rparr>)"
  by (cases "sr_reaper s"; clarsimp simp: sr_inv_defs)+

lemma wait_step_inv: "sr_inv s \<Longrightarrow> wait_step i s = Some s' \<Longrightarrow> sr_inv s'"
  by (cases "sr_waiters s ! i"; simp add: wait_step_def split: if_splits;
      drule sym; simp add: env_step_inv)

lemma sr_step_inv [inv_rules]: "sr_inv s \<Longrightarrow> sr_step a s = Some s' \<Longrightarrow> sr_inv s'"
  by (cases a; simp split: if_splits; (erule (1) reap_step_inv close_step_inv wait_step_inv)?;
      (drule sym; simp add: env_step_inv close_call_inv)?)

lemma sr_reach_inv: "sr_reach s \<Longrightarrow> sr_inv s"
proof (induction rule: sr_reach.induct)
  case (step s a s')
  then show ?case by (auto intro: sr_step_inv)
qed (rule sr_init_inv)

lemma sr_run_invariant:
  assumes "\<And>a s s'. a \<in> set as \<Longrightarrow> P s \<Longrightarrow> sr_step a s = Some s' \<Longrightarrow> P s'"
    and "P s" "sr_run as s = Some s'"
  shows "P s'"
  using assms
proof (induction as arbitrary: s)
  case (Cons a as)
  then obtain t where "sr_step a s = Some t" "sr_run as t = Some s'"
    by (auto split: option.splits)
  with Cons show ?case by (meson list.set_intros)
qed simp

lemma sr_reach_run: "sr_reach s \<Longrightarrow> sr_run as s = Some s' \<Longrightarrow> sr_reach s'"
  by (rule sr_run_invariant [of as sr_reach]) (auto intro: sr_reach.step)

section \<open>Closing and reporting\<close>

definition sr_waiting :: "shell_reader \<Rightarrow> bool" where
  "sr_waiting s \<longleftrightarrow> sr_inv s \<and> \<not> sr_killed s \<and> (sr_process s = None \<longrightarrow> sr_reaper s = R_wait)"

lemma sr_waiting_step:
  assumes "sr_waiting s" "sr_step a s = Some s'"
  shows "sr_waiting s'"
proof -
  have inv: "sr_inv s'" using assms by (auto simp: sr_waiting_def intro: sr_step_inv)
  have "\<not> sr_killed s' \<and> (sr_process s' = None \<longrightarrow> sr_reaper s' = R_wait)"
  proof (cases a)
    case Reap
    with assms show ?thesis
      by (cases "sr_reaper s"; simp add: sr_waiting_def reap_step_def notify_waiters_def
          split: if_splits option.splits; clarsimp)
  next
    case Close_step
    have "sr_closer s = C_take \<Longrightarrow> \<exists>st. sr_process s = Some st"
      using assms(1) by (cases "sr_process s"; clarsimp simp: sr_waiting_def sr_inv_def)
    with Close_step assms show ?thesis
      by (cases "sr_closer s"; simp add: sr_waiting_def close_step_def notify_waiters_def
          split: if_splits; clarsimp)
  next
    case (Wait_step i)
    with assms show ?thesis
      by (cases "sr_waiters s ! i"; simp add: sr_waiting_def wait_step_def split: if_splits; clarsimp)
  qed (use assms in \<open>clarsimp simp: sr_waiting_def close_call_def split: if_splits\<close>)+
  with inv show ?thesis by (simp add: sr_waiting_def)
qed

lemma sr_inv_waitD:
  assumes "sr_inv s" "sr_reaper s = R_wait"
  shows "sr_lock s = Some Reaper \<and> \<not> sr_exited s \<and> (sr_closer s = C_idle \<or> sr_closer s = C_lock)"
  using assms by (cases "sr_closer s") (clarsimp simp: sr_inv_defs)+

text \<open>
  The reap task holds the child's mutex while it waits, so from then on \<open>close\<close> cannot
  kill: whatever the tasks do next, no kill is sent, and as long as the process has not
  exited by itself \<open>close\<close> stays blocked on the mutex and the reader is not \<open>exited\<close>.
\<close>

theorem close_cannot_interrupt_wait:
  assumes "sr_reach s" "sr_reaper s = R_wait" "sr_run as s = Some s'"
  shows "\<not> sr_killed s' \<and> (sr_process s' = None \<longrightarrow> close_step s' = None \<and> \<not> sr_exited s')"
proof -
  have "sr_waiting s" using assms sr_reach_inv [of s] by (simp add: sr_waiting_def sr_inv_def)
  then have w: "sr_waiting s'"
    using sr_run_invariant [of as sr_waiting s s'] assms(3) sr_waiting_step by blast
  then have "\<not> sr_killed s'" by (simp add: sr_waiting_def)
  moreover have "close_step s' = None \<and> \<not> sr_exited s'" if "sr_process s' = None"
  proof -
    have "sr_inv s'" "sr_reaper s' = R_wait" using w that by (simp_all add: sr_waiting_def)
    from sr_inv_waitD [OF this] show ?thesis by (auto simp: close_step_def)
  qed
  ultimately show ?thesis by simp
qed

lemma close_cannot_interrupt_wait_witness:
  "close_step (close_call (sr_init None False\<lparr>sr_lock := Some Reaper, sr_reaper := R_wait\<rparr>)) = None"
proof -
  let ?s = "sr_init None False\<lparr>sr_lock := Some Reaper, sr_reaper := R_wait\<rparr>"
  have "sr_step Reap (sr_init None False) = Some ?s" by (simp add: reap_step_def sr_init_def)
  then have r: "sr_reach ?s" by (rule sr_reach.step [OF sr_reach.start])
  have "sr_run [Close_call] ?s = Some (close_call ?s)" by simp
  from close_cannot_interrupt_wait [OF r _ this] show ?thesis
    by (simp add: sr_init_def close_call_def)
qed



section \<open>Waiting\<close>

lemma wake_not_listening: "wake w \<noteq> W_listening"
  by (simp add: wake_def)

definition sr_stranded :: "nat \<Rightarrow> shell_reader \<Rightarrow> bool" where
  "sr_stranded i s \<longleftrightarrow> sr_reaper s = R_done \<and> sr_closer s = C_idle \<and>
     i < length (sr_waiters s) \<and> sr_waiters s ! i = W_listening"

lemma sr_stranded_step:
  assumes "sr_stranded i s" "a \<noteq> Close_call" "sr_step a s = Some s'"
  shows "sr_stranded i s'"
proof (cases a)
  case (Wait_step j)
  with assms show ?thesis
    by (cases "i = j"; cases "sr_waiters s ! j"; simp add: sr_stranded_def wait_step_def split: if_splits;
        clarsimp)
qed (use assms in \<open>clarsimp simp: sr_stranded_def reap_step_def close_step_def nth_append split: if_splits\<close>)+

text \<open>
  A lost wakeup: a caller of \<open>wait_for_exit\<close> that read \<open>exited\<close> before the reap task set
  it and created its future after the notification waits for ever, unless somebody calls
  \<open>close\<close> later: nothing else the tasks do wakes it.
\<close>

theorem wait_lost_wakeup:
  assumes "sr_reaper s = R_done" "sr_closer s = C_idle"
    and "i < length (sr_waiters s)" "sr_waiters s ! i = W_listening"
    and "Close_call \<notin> set as" "sr_run as s = Some s'"
  shows "sr_waiters s' ! i = W_listening"
proof -
  have "sr_stranded i s'"
  proof (rule sr_run_invariant [of as "sr_stranded i" s])
    show "sr_stranded i t'" if "a \<in> set as" "sr_stranded i t" "sr_step a t = Some t'" for a t t'
    proof (rule sr_stranded_step [OF that(2) _ that(3)])
      show "a \<noteq> Close_call" using that(1) assms(5) by blast
    qed
  qed (use assms in \<open>simp_all add: sr_stranded_def\<close>)
  then show ?thesis by (simp add: sr_stranded_def)
qed

lemma wait_lost_wakeup_witness:
  "\<exists>s. sr_run [Wait_call, Wait_step 0, Process_exit Success, Reap, Reap, Reap, Reap, Reap, Reap,
               Wait_step 0] (sr_init None False) = Some s \<and> sr_exited s \<and>
     (\<forall>as s'. Close_call \<notin> set as \<longrightarrow> sr_run as s = Some s' \<longrightarrow> sr_waiters s' ! 0 = W_listening)"
proof (intro exI conjI allI impI)
  let ?s = "sr_init None False\<lparr>sr_process := Some Success, sr_exited := True, sr_reaper := R_done,
      sr_waiters := [W_listening]\<rparr>"
  show "sr_run [Wait_call, Wait_step 0, Process_exit Success, Reap, Reap, Reap, Reap, Reap, Reap,
      Wait_step 0] (sr_init None False) = Some ?s"
    by (simp add: sr_init_def sr_defs wake_def)
  show "sr_exited ?s" by simp
  fix as s'
  assume "Close_call \<notin> set as" "sr_run as ?s = Some s'"
  then show "sr_waiters s' ! 0 = W_listening"
    by (intro wait_lost_wakeup [of ?s 0 as s']) (simp_all add: sr_init_def)
qed

section \<open>The captured stderr\<close>

fun stderr_chunks :: "sr_action list \<Rightarrow> bytes list" where
  "stderr_chunks [] = []"
| "stderr_chunks (Stderr_chunk c # as) = c # stderr_chunks as"
| "stderr_chunks (_ # as) = stderr_chunks as"

lemma sr_step_ring:
  "sr_step a s = Some s' \<Longrightarrow> sr_stderr_ring s' = foldl ring_push (sr_stderr_ring s) (stderr_chunks [a])"
proof (cases a)
  case Reap
  then show "sr_step a s = Some s' \<Longrightarrow> ?thesis"
    by (cases "sr_reaper s"; simp add: sr_defs split: if_splits option.splits; clarsimp)
next
  case Close_step
  then show "sr_step a s = Some s' \<Longrightarrow> ?thesis"
    by (cases "sr_closer s"; simp add: sr_defs split: if_splits; clarsimp)
next
  case (Wait_step i)
  then show "sr_step a s = Some s' \<Longrightarrow> ?thesis"
    by (cases "sr_waiters s ! i"; simp add: sr_defs split: if_splits; clarsimp)
qed (clarsimp simp: close_call_def split: if_splits)+

lemma stderr_chunks_Cons: "stderr_chunks (a # as) = stderr_chunks [a] @ stderr_chunks as"
  by (cases a) simp_all

lemma sr_run_ring:
  "sr_run as s = Some s' \<Longrightarrow> sr_stderr_ring s' = foldl ring_push (sr_stderr_ring s) (stderr_chunks as)"
proof (induction as arbitrary: s)
  case (Cons a as)
  then obtain t where t: "sr_step a s = Some t" "sr_run as t = Some s'"
    by (auto split: option.splits)
  show ?case
    using Cons.IH [OF t(2)] sr_step_ring [OF t(1)] by (subst stderr_chunks_Cons) simp
qed simp

text \<open>
  C38. \<open>stderr_tail\<close> is exactly the last 4096 bytes of everything the child wrote to stderr,
  however the reads cut it and whatever the other tasks did in between.
\<close>

theorem stderr_tail_exact:
  assumes "sr_run as (sr_init pid streaming) = Some s"
  shows "stderr_tail s = last_n 4096 (concat (stderr_chunks as))"
  using sr_run_ring [OF assms] ring_log.contents_pushes [of "ring_new 4096" "stderr_chunks as"]
  by (simp add: stderr_tail_def sr_init_def ring_inv_new ring_snapshot_new ring_cap_new)

lemma stderr_tail_exact_witness:
  "\<exists>s. sr_run [Stderr_chunk [1, 2], Process_exit Success, Stderr_chunk [3]] (sr_init None True) = Some s
     \<and> stderr_tail s = [1, 2, 3]"
proof -
  have "\<exists>s. sr_run [Stderr_chunk [1, 2], Process_exit Success, Stderr_chunk [3]] (sr_init None True) = Some s"
    by (simp add: sr_init_def)
  then obtain s where s: "sr_run [Stderr_chunk [1, 2], Process_exit Success, Stderr_chunk [3]]
      (sr_init None True) = Some s" ..
  from stderr_tail_exact [OF s] s show ?thesis by (auto simp: last_n_def)
qed

end
