(* ===== verification/Shell_Source.thy ===== *)
theory Shell_Source
  imports Media_Source Float64 Shell_Reader
begin

text \<open>
  \<open>src/media/shell_source.rs\<close>: sources built from the user's own ffmpeg command lines: the
  command-line tokenizer, the check of the output codec, the completion of the flags, the
  insertion of a seek, and the one- and two-process sources that spawn the result.
  The theorems are a quoting round trip for the tokenizer, the exact effect of each argv
  transformation, and what \<open>from_shell\<close> and \<open>from_shells\<close> start on every branch.
\<close>

section \<open>Tokenizing\<close>

text \<open>
  \<open>cur.push(byte as char)\<close>: the byte becomes the code point of the same number, which takes
  two bytes of UTF-8 from 128 on.
\<close>

definition push_byte :: "char \<Rightarrow> string" where
  "push_byte c =
     (let n = (of_char c :: nat)
      in if n < 128 then [c] else [char_of (192 + n div 64), char_of (128 + n mod 64)])"

definition dquote :: char where "dquote = CHR 0x22"
definition backslash :: char where "backslash = CHR 0x5C"

definition is_blank :: "char \<Rightarrow> bool" where
  "is_blank c \<longleftrightarrow> c = CHR '' '' \<or> c = CHR 0x09 \<or> c = CHR 0x0A"

fun tokenize_loop :: "string \<Rightarrow> string list \<Rightarrow> string \<Rightarrow> bool \<Rightarrow> string list" where
  "tokenize_loop [] out cur in_quote = (if cur \<noteq> [] then out @ [cur] else out)"
| "tokenize_loop (c # rest) out cur in_quote =
     (if c = backslash \<and> rest \<noteq> [] \<and> (hd rest = dquote \<or> hd rest = backslash)
      then tokenize_loop (tl rest) out (cur @ push_byte (hd rest)) in_quote
      else if c = dquote then tokenize_loop rest out cur (\<not> in_quote)
      else if is_blank c \<and> \<not> in_quote
      then (if cur \<noteq> [] then tokenize_loop rest (out @ [cur]) [] in_quote
            else tokenize_loop rest out cur in_quote)
      else tokenize_loop rest out (cur @ push_byte c) in_quote)"

definition tokenize_shell :: "string \<Rightarrow> string list" where
  "tokenize_shell s = tokenize_loop s [] [] False"

declare tokenize_loop.simps [simp del]

section \<open>Checking the output codec\<close>

definition raw_pcm :: "string list" where
  "raw_pcm = [''s16le'', ''s16be'', ''s24le'', ''s32le'', ''f32le'', ''f64le'', ''u8'', ''alaw'', ''mulaw'']"

text \<open>One round of the loop: the argument \<open>a\<close> and the one after it (empty at the end).\<close>

definition codec_error :: "track \<Rightarrow> string \<Rightarrow> string \<Rightarrow> error option" where
  "codec_error track a nxt =
     (if (a = ''-acodec'' \<or> a = ''-c:a'') \<and> prefix ''pcm_'' nxt \<and> has track TRACK_AUDIO
      then Some (InvalidParams (''raw PCM codec '' @ nxt @ '' not supported; expected libopus in OGG''))
      else if a = ''-f'' \<and> nxt \<in> set raw_pcm \<and> has track TRACK_AUDIO
      then Some (InvalidParams (''raw PCM container '' @ nxt @ '' not supported; expected -f ogg''))
      else None)"

definition next_arg :: "string list \<Rightarrow> string" where
  "next_arg rest = (case rest of [] \<Rightarrow> [] | n # _ \<Rightarrow> n)"

fun validate_output_codec :: "string list \<Rightarrow> track \<Rightarrow> error + unit" where
  "validate_output_codec [] track = Inr ()"
| "validate_output_codec (a # rest) track =
     (case codec_error track a (next_arg rest) of
        Some e \<Rightarrow> Inl e
      | None \<Rightarrow> validate_output_codec rest track)"

section \<open>Completing the flags\<close>

record flag_scan =
  has_analyzeduration :: bool
  has_probesize :: bool
  has_err_detect :: bool
  has_ca :: bool
  has_cv :: bool
  has_f :: bool
  has_pipe :: bool
  input_idx :: "nat option"

definition scan_init :: flag_scan where
  "scan_init = \<lparr>has_analyzeduration = False, has_probesize = False, has_err_detect = False,
     has_ca = False, has_cv = False, has_f = False, has_pipe = False, input_idx = None\<rparr>"

definition scan_arg :: "nat \<times> string \<Rightarrow> flag_scan \<Rightarrow> flag_scan" where
  "scan_arg ia s =
     (let i = fst ia; a = snd ia;
          s1 = (if a = ''-analyzeduration'' then s\<lparr>has_analyzeduration := True\<rparr> else s);
          s2 = (if a = ''-probesize'' then s1\<lparr>has_probesize := True\<rparr> else s1);
          s3 = (if a = ''-err_detect'' then s2\<lparr>has_err_detect := True\<rparr> else s2);
          s4 = (if a = ''-c:a'' \<or> a = ''-acodec'' then s3\<lparr>has_ca := True\<rparr> else s3);
          s5 = (if a = ''-c:v'' \<or> a = ''-vcodec'' then s4\<lparr>has_cv := True\<rparr> else s4);
          s6 = (if a = ''-f'' then s5\<lparr>has_f := True\<rparr> else s5);
          s7 = (if a = ''pipe:1'' \<or> a = ''-'' then s6\<lparr>has_pipe := True\<rparr> else s6);
          s8 = (if a = ''-i'' \<and> input_idx s7 = None then s7\<lparr>input_idx := Some i\<rparr> else s7)
      in s8)"

definition scan_args :: "string list \<Rightarrow> flag_scan" where
  "scan_args args = fold scan_arg (enumerate 0 args) scan_init"

definition input_inject :: "flag_scan \<Rightarrow> string list" where
  "input_inject s =
     (if input_idx s \<noteq> None then
        (if \<not> has_analyzeduration s then [''-analyzeduration'', ''0''] else []) @
        (if \<not> has_probesize s then [''-probesize'', ''64k''] else []) @
        (if \<not> has_err_detect s then [''-err_detect'', ''ignore_err''] else [])
      else [])"

definition output_inject :: "flag_scan \<Rightarrow> track \<Rightarrow> string list" where
  "output_inject s track =
     (if has track TRACK_AUDIO then
        (if \<not> has_ca s then [''-c:a'', ''libopus''] else []) @
        [''-application'', ''audio'', ''-frame_duration'', ''20'', ''-page_duration'', ''20000'',
         ''-mapping_family'', ''0'', ''-ar'', ''48000'', ''-ac'', ''2''] @
        (if \<not> has_f s then [''-f'', ''ogg''] else [])
      else if has track TRACK_VIDEO then
        (if \<not> has_cv s then [''-c:v'', ''libvpx'', ''-deadline'', ''realtime''] else []) @
        (if \<not> has_f s then [''-f'', ''ivf''] else [])
      else [])"

definition ensure_ffmpeg_flags :: "string list \<Rightarrow> track \<Rightarrow> string list" where
  "ensure_ffmpeg_flags args track =
     (let s = scan_args args;
          out1 = (case input_idx s of
                    Some idx \<Rightarrow> take idx args @ input_inject s @ drop idx args
                  | None \<Rightarrow> args);
          out2 = (if has_pipe s then filter (\<lambda>x. x \<noteq> ''pipe:1'') out1 else out1)
      in out2 @ output_inject s track @ [''pipe:1''])"

section \<open>Seeking\<close>

text \<open>The loop of \<open>inject_seek\<close>: \<open>cleaned\<close>, \<open>input_idx\<close> and \<open>skip_next\<close> are its variables.\<close>

fun seek_loop :: "string list \<Rightarrow> bool \<Rightarrow> nat option \<Rightarrow> string list \<Rightarrow> string list \<times> nat option" where
  "seek_loop [] skip_next idx cleaned = (cleaned, idx)"
| "seek_loop (a # rest) skip_next idx cleaned =
     (if skip_next then seek_loop rest False idx cleaned
      else if a = ''-ss'' \<and> idx = None \<and> rest \<noteq> [] then seek_loop rest True idx cleaned
      else seek_loop rest False
             (if a = ''-i'' \<and> idx = None then Some (length cleaned) else idx) (cleaned @ [a]))"

text \<open>The offset as it is printed, \<open>{:.3}\<close> of the seconds as a double.\<close>

definition seek_text :: "duration_ns \<Rightarrow> string" where
  "seek_text offset = fmt3 (as_secs_f64 offset)"

definition inject_seek :: "string list \<Rightarrow> duration_ns \<Rightarrow> string list" where
  "inject_seek args offset =
     (let offset_str = seek_text offset;
          ci = seek_loop args False None [];
          cleaned = fst ci
      in case snd ci of
           Some idx \<Rightarrow> take idx cleaned @ [''-ss'', offset_str] @ drop idx cleaned
         | None \<Rightarrow> [''-ss'', offset_str] @ cleaned)"

section \<open>The sources\<close>

record shell_source =
  ss_binary :: string
  ss_args :: "string list"
  ss_track :: track

definition shell_tracks :: "shell_source \<Rightarrow> track" where
  "shell_tracks s = (if ss_track s = 0 then TRACK_AUDIO else ss_track s)"

definition bin_or_ffmpeg :: "string \<Rightarrow> string" where
  "bin_or_ffmpeg b = (if b = [] then ''ffmpeg'' else b)"

type_synonym opened = "(error + shell_reader streams) \<times> spawn_log"

definition shell_open_with :: "os_spawn \<Rightarrow> shell_source \<Rightarrow> string list \<Rightarrow> spawn_log \<Rightarrow> opened" where
  "shell_open_with os s args started =
     (case shell_new os (bin_or_ffmpeg (ss_binary s)) args False started of
        (Inl e, started') \<Rightarrow> (Inl e, started')
      | (Inr reader, started') \<Rightarrow>
          (Inr (if has (shell_tracks s) TRACK_AUDIO then streams_default\<lparr>st_audio := Some reader\<rparr>
                else if has (shell_tracks s) TRACK_VIDEO then streams_default\<lparr>st_video := Some reader\<rparr>
                else streams_default), started'))"

definition shell_open :: "os_spawn \<Rightarrow> shell_source \<Rightarrow> spawn_log \<Rightarrow> opened" where
  "shell_open os s started = shell_open_with os s (ss_args s) started"

definition shell_open_at :: "os_spawn \<Rightarrow> shell_source \<Rightarrow> duration_ns \<Rightarrow> spawn_log \<Rightarrow> opened" where
  "shell_open_at os s offset started =
     (if offset = 0 then shell_open_with os s (ss_args s) started
      else shell_open_with os s (inject_seek (ss_args s) offset) started)"

record multi_shell_source =
  mss_audio_bin :: string
  mss_video_bin :: string
  mss_audio_args :: "string list"
  mss_video_args :: "string list"
  mss_parallel :: bool

definition with_parallel_spawn :: "multi_shell_source \<Rightarrow> multi_shell_source" where
  "with_parallel_spawn s = s\<lparr>mss_parallel := True\<rparr>"

definition multi_tracks :: "multi_shell_source \<Rightarrow> track" where
  "multi_tracks s =
     (let t0 = 0;
          t1 = (if mss_audio_args s \<noteq> [] then t0 OR TRACK_AUDIO else t0);
          t2 = (if mss_video_args s \<noteq> [] then t1 OR TRACK_VIDEO else t1)
      in t2)"

text \<open>One leg of the two-process source: nothing is started when the command is absent.\<close>

definition open_leg :: "os_spawn \<Rightarrow> string \<Rightarrow> string list \<Rightarrow> spawn_log \<Rightarrow>
    (error + shell_reader option) \<times> spawn_log" where
  "open_leg os bin args started =
     (if args = [] then (Inr None, started)
      else case shell_new os (bin_or_ffmpeg bin) args False started of
             (Inl e, started') \<Rightarrow> (Inl e, started')
           | (Inr r, started') \<Rightarrow> (Inr (Some r), started'))"

definition multi_open_with ::
  "os_spawn \<Rightarrow> multi_shell_source \<Rightarrow> string list \<Rightarrow> string list \<Rightarrow> spawn_log \<Rightarrow> opened" where
  "multi_open_with os s audio_args video_args started =
     (case open_leg os (mss_audio_bin s) audio_args started of
        (Inl e, started1) \<Rightarrow> (Inl e, started1)
      | (Inr a, started1) \<Rightarrow>
          (case open_leg os (mss_video_bin s) video_args started1 of
             (Inl e, started2) \<Rightarrow> (Inl e, started2)
           | (Inr v, started2) \<Rightarrow> (Inr (streams_default\<lparr>st_audio := a, st_video := v\<rparr>), started2)))"

definition multi_open :: "os_spawn \<Rightarrow> multi_shell_source \<Rightarrow> spawn_log \<Rightarrow> opened" where
  "multi_open os s started = multi_open_with os s (mss_audio_args s) (mss_video_args s) started"

definition multi_open_at :: "os_spawn \<Rightarrow> multi_shell_source \<Rightarrow> duration_ns \<Rightarrow> spawn_log \<Rightarrow> opened" where
  "multi_open_at os s offset started =
     (if offset = 0 then multi_open_with os s (mss_audio_args s) (mss_video_args s) started
      else
        let audio = (if mss_audio_args s \<noteq> [] then inject_seek (mss_audio_args s) offset else []);
            video = (if mss_video_args s \<noteq> [] then inject_seek (mss_video_args s) offset else [])
        in multi_open_with os s audio video started)"

definition from_shell :: "os_spawn \<Rightarrow> string \<Rightarrow> track \<Rightarrow> spawn_log \<Rightarrow> opened" where
  "from_shell os cmdline track started =
     (case tokenize_shell cmdline of
        [] \<Rightarrow> (Inl (FFmpegSpawn ''empty command''), started)
      | binary # rest \<Rightarrow>
          (case validate_output_codec rest track of
             Inl e \<Rightarrow> (Inl e, started)
           | Inr _ \<Rightarrow>
               shell_open os \<lparr>ss_binary = binary, ss_args = ensure_ffmpeg_flags rest track,
                              ss_track = track\<rparr> started))"

text \<open>One command of \<open>from_shells\<close>: the binary and the completed arguments, both empty when
  there is no command.\<close>

definition parse_leg :: "string \<Rightarrow> track \<Rightarrow> error + string \<times> string list" where
  "parse_leg cmd track =
     (if cmd \<noteq> [] then
        (case tokenize_shell cmd of
           [] \<Rightarrow> Inr ([], [])
         | bin # rest \<Rightarrow>
             bind_res (validate_output_codec rest track)
               (\<lambda>_. Inr (bin, ensure_ffmpeg_flags rest track)))
      else Inr ([], []))"

definition from_shells :: "os_spawn \<Rightarrow> string \<Rightarrow> string \<Rightarrow> spawn_log \<Rightarrow> opened" where
  "from_shells os audio_cmd video_cmd started =
     (case bind_res (parse_leg audio_cmd TRACK_AUDIO)
             (\<lambda>a. bind_res (parse_leg video_cmd TRACK_VIDEO) (\<lambda>v. Inr (a, v))) of
        Inl e \<Rightarrow> (Inl e, started)
      | Inr ((audio_bin, audio_args), (video_bin, video_args)) \<Rightarrow>
          multi_open os
            \<lparr>mss_audio_bin = audio_bin, mss_video_bin = video_bin,
             mss_audio_args = audio_args, mss_video_args = video_args, mss_parallel = False\<rparr> started)"

section \<open>The tokenizer undoes quoting\<close>

definition escape :: "string \<Rightarrow> string" where
  "escape s = concat (map (\<lambda>c. if c = dquote \<or> c = backslash then [backslash, c] else [c]) s)"

definition quote_arg :: "string \<Rightarrow> string" where
  "quote_arg s = dquote # escape s @ [dquote]"

fun shell_join :: "string list \<Rightarrow> string" where
  "shell_join [] = []"
| "shell_join [a] = quote_arg a"
| "shell_join (a # args) = quote_arg a @ CHR '' '' # shell_join args"

definition widen :: "string \<Rightarrow> string" where
  "widen s = concat (map push_byte s)"

definition is_ascii :: "string \<Rightarrow> bool" where
  "is_ascii s \<longleftrightarrow> (\<forall>c \<in> set s. (of_char c :: nat) < 128)"

lemma widen_simps [simp]: "widen [] = []" "widen (c # s) = push_byte c @ widen s"
  by (simp_all add: widen_def)

lemma push_byte_ascii [simp]: "push_byte dquote = [dquote]" "push_byte backslash = [backslash]"
  by (simp_all add: push_byte_def dquote_def backslash_def Let_def)

lemma push_byte_nonempty [simp]: "push_byte c \<noteq> []"
  by (simp add: push_byte_def Let_def)

lemma dquote_not_backslash [simp]: "dquote \<noteq> backslash" "backslash \<noteq> dquote"
  by (simp_all add: dquote_def backslash_def)

lemma blank_not_special: "is_blank c \<Longrightarrow> c \<noteq> dquote \<and> c \<noteq> backslash"
  by (auto simp: is_blank_def dquote_def backslash_def)

lemma tokenize_escaped:
  "tokenize_loop (escape s @ rest) out cur True = tokenize_loop rest out (cur @ widen s) True"
proof (induction s arbitrary: cur)
  case Nil
  then show ?case by (simp add: escape_def)
next
  case (Cons c s)
  have esc: "escape (c # s) = (if c = dquote \<or> c = backslash then [backslash, c] else [c]) @ escape s"
    by (simp add: escape_def)
  show ?case
    using Cons.IH [of "cur @ push_byte c"]
    by (simp add: esc tokenize_loop.simps(2) [of backslash] tokenize_loop.simps(2) [of c])
qed

lemma tokenize_quoted:
  "tokenize_loop (quote_arg a @ rest) out [] False = tokenize_loop rest out (widen a) False"
  by (simp add: quote_arg_def tokenize_loop.simps(2) [of dquote] tokenize_escaped)

lemma tokenize_joined:
  "tokenize_loop (shell_join args) out [] False = out @ filter (\<lambda>a. a \<noteq> []) (map widen args)"
proof (induction args arbitrary: out rule: shell_join.induct)
  case (2 a)
  show ?case using tokenize_quoted [of a "[]" out] by (simp add: tokenize_loop.simps)
next
  case (3 a b args)
  have "is_blank (CHR '' '')" by (simp add: is_blank_def)
  with 3 blank_not_special [of "CHR '' ''"] show ?case
    by (simp add: tokenize_quoted tokenize_loop.simps(2) [of "CHR '' ''"])
qed (simp add: tokenize_loop.simps)

lemma length_widen_ge: "length s \<le> length (widen s)"
proof (induction s)
  case (Cons c s)
  then show ?case by (simp add: push_byte_def Let_def)
qed simp

lemma widen_id_iff: "widen s = s \<longleftrightarrow> is_ascii s"
proof (induction s)
  case (Cons c s)
  show ?case
  proof (cases "(of_char c :: nat) < 128")
    case True
    with Cons show ?thesis by (simp add: push_byte_def is_ascii_def Let_def)
  next
    case False
    then have "length (widen (c # s)) = 2 + length (widen s)" by (simp add: push_byte_def Let_def)
    then have "length (widen (c # s)) \<noteq> length (c # s)" using length_widen_ge [of s] by simp
    then have "widen (c # s) \<noteq> c # s" by metis
    with False show ?thesis by (auto simp: is_ascii_def)
  qed
qed (simp add: is_ascii_def)

lemma length_filter_conv_all: "length (filter P xs) = length xs \<longleftrightarrow> (\<forall>x \<in> set xs. P x)"
proof (induction xs)
  case (Cons x xs)
  have "length (filter P xs) \<noteq> Suc (length xs)" using length_filter_le [of P xs] by linarith
  with Cons show ?case by auto
qed simp

lemma widen_Nil_iff: "widen a = [] \<longleftrightarrow> a = []"
  by (cases a) simp_all

text \<open>
  C29. Quoting round trip.  The command line that puts every argument between double quotes,
  with \<open>"\<close> and \<open>\\<close> escaped, is split back into the arguments exactly when all of them are
  non-empty and ASCII.  Otherwise empty arguments disappear and every byte from 128 on (a
  path with an accent, say) becomes two other bytes.
\<close>

theorem tokenize_quote_roundtrip:
  "tokenize_shell (shell_join args) = filter (\<lambda>a. a \<noteq> []) (map widen args)
   \<and> (tokenize_shell (shell_join args) = args \<longleftrightarrow> (\<forall>a \<in> set args. a \<noteq> [] \<and> is_ascii a))"
proof -
  have 1: "tokenize_shell (shell_join args) = filter (\<lambda>a. a \<noteq> []) (map widen args)"
    using tokenize_joined [of args "[]"] by (simp add: tokenize_shell_def)
  have "filter (\<lambda>a. a \<noteq> []) (map widen args) = args \<longleftrightarrow> (\<forall>a \<in> set args. a \<noteq> [] \<and> is_ascii a)"
  proof
    assume eq: "filter (\<lambda>a. a \<noteq> []) (map widen args) = args"
    then have "length (filter (\<lambda>a. a \<noteq> []) (map widen args)) = length (map widen args)" by simp
    then have all: "\<forall>a \<in> set (map widen args). a \<noteq> []"
      by (subst (asm) length_filter_conv_all)
    then have "map widen args = args" using eq by (simp add: filter_True)
    then have "\<forall>a \<in> set args. widen a = a" using map_eq_conv [of widen args id] by simp
    with all show "\<forall>a \<in> set args. a \<noteq> [] \<and> is_ascii a"
      by (auto simp: widen_id_iff widen_Nil_iff)
  next
    assume asm: "\<forall>a \<in> set args. a \<noteq> [] \<and> is_ascii a"
    then have "map widen args = args" by (simp add: widen_id_iff map_idI)
    with asm show "filter (\<lambda>a. a \<noteq> []) (map widen args) = args" by simp
  qed
  with 1 show ?thesis by simp
qed

lemma tokenize_quote_roundtrip_witness:
  "tokenize_shell (shell_join [''ffmpeg'', ''-i'', ''my song.mp3'']) = [''ffmpeg'', ''-i'', ''my song.mp3'']
   \<and> tokenize_shell (shell_join [[CHR 0xC3, CHR 0xA9]]) = [[CHR 0xC3, CHR 0x83, CHR 0xC2, CHR 0xA9]]"
  using tokenize_quote_roundtrip [of "[''ffmpeg'', ''-i'', ''my song.mp3'']"]
    tokenize_quote_roundtrip [of "[[CHR 0xC3, CHR 0xA9]]"]
  by (simp add: is_ascii_def push_byte_def char_of_def bit_Suc_0_iff)

section \<open>The completed flags\<close>

lemma scan_arg_sel:
  "has_f (scan_arg (n, a) s) \<longleftrightarrow> has_f s \<or> a = ''-f''"
  "has_pipe (scan_arg (n, a) s) \<longleftrightarrow> has_pipe s \<or> a = ''pipe:1'' \<or> a = ''-''"
  "input_idx (scan_arg (n, a) s) = (if a = ''-i'' \<and> input_idx s = None then Some n else input_idx s)"
  by (simp_all add: scan_arg_def Let_def if_distrib [of has_f] if_distrib [of has_pipe]
      if_distrib [of input_idx])

lemma scan_fold:
  fixes args n s0
  defines "s \<equiv> fold scan_arg (enumerate n args) s0"
  shows "(has_f s \<longleftrightarrow> has_f s0 \<or> ''-f'' \<in> set args)
    \<and> (has_pipe s \<longleftrightarrow> has_pipe s0 \<or> ''pipe:1'' \<in> set args \<or> ''-'' \<in> set args)
    \<and> (input_idx s = None \<longleftrightarrow> input_idx s0 = None \<and> ''-i'' \<notin> set args)"
  unfolding s_def
proof (induction args arbitrary: n s0)
  case (Cons a args)
  have "fold scan_arg (enumerate n (a # args)) s0 =
    fold scan_arg (enumerate (Suc n) args) (scan_arg (n, a) s0)" by simp
  then show ?case
    using Cons.IH [of "Suc n" "scan_arg (n, a) s0"] by (auto simp: scan_arg_sel)
qed simp

lemma scan_args_facts:
  "has_f (scan_args args) \<longleftrightarrow> ''-f'' \<in> set args"
  "has_pipe (scan_args args) \<longleftrightarrow> ''pipe:1'' \<in> set args \<or> ''-'' \<in> set args"
  "input_idx (scan_args args) = None \<longleftrightarrow> ''-i'' \<notin> set args"
  using scan_fold [of 0 args scan_init] by (simp_all add: scan_args_def scan_init_def)

definition injected :: "string list \<Rightarrow> string list" where
  "injected args =
     (case input_idx (scan_args args) of
        Some idx \<Rightarrow> take idx args @ input_inject (scan_args args) @ drop idx args
      | None \<Rightarrow> args)"

lemma ensure_alt:
  "ensure_ffmpeg_flags args track =
     filter (\<lambda>x. x \<noteq> ''pipe:1'') (injected args) @ output_inject (scan_args args) track @ [''pipe:1'']"
proof -
  have "''pipe:1'' \<notin> set (injected args)" if "\<not> has_pipe (scan_args args)"
  proof -
    have "''pipe:1'' \<notin> set args" using that by (simp add: scan_args_facts)
    then show ?thesis
      by (auto simp: injected_def input_inject_def split: option.splits dest: in_set_takeD in_set_dropD)
  qed
  then have "filter (\<lambda>x. x \<noteq> ''pipe:1'') (injected args) = injected args"
    if "\<not> has_pipe (scan_args args)" using that by (intro filter_True) auto
  then show ?thesis by (simp add: ensure_ffmpeg_flags_def injected_def Let_def)
qed

lemma count_list_filter: "P x \<Longrightarrow> count_list (filter P xs) x = count_list xs x"
  by (induction xs) auto

lemma count_injected:
  assumes "x \<notin> {''-analyzeduration'', ''0'', ''-probesize'', ''64k'', ''-err_detect'', ''ignore_err''}"
  shows "count_list (injected args) x = count_list args x"
proof (cases "input_idx (scan_args args)")
  case (Some i)
  have "count_list args x = count_list (take i args) x + count_list (drop i args) x"
    by (metis append_take_drop_id count_list_append)
  with assms Some show ?thesis by (simp add: injected_def input_inject_def)
qed (simp add: injected_def)

lemma subseq_injected: "subseq args (injected args)"
proof (cases "input_idx (scan_args args)")
  case (Some i)
  have "subseq (take i args @ drop i args) (take i args @ input_inject (scan_args args) @ drop i args)"
    by (intro list_emb_append_mono) (simp_all add: list_emb_append2)
  with Some show ?thesis by (simp add: injected_def)
qed (simp add: injected_def)

text \<open>
  Whatever command the user gave, the completed argument list has exactly one
  \<open>pipe:1\<close>, at its end, and keeps every other argument of the user, in order: only flags
  are added.
\<close>

theorem ensure_flags_one_pipe:
  "count_list (ensure_ffmpeg_flags args track) ''pipe:1'' = 1
   \<and> last (ensure_ffmpeg_flags args track) = ''pipe:1''
   \<and> subseq (filter (\<lambda>x. x \<noteq> ''pipe:1'') args) (ensure_ffmpeg_flags args track)"
proof -
  have "count_list (filter (\<lambda>x. x \<noteq> ''pipe:1'') xs) ''pipe:1'' = 0" for xs
    by (simp add: count_list_0_iff)
  moreover have "count_list (output_inject s track) ''pipe:1'' = 0" for s
    by (simp add: output_inject_def)
  moreover have "subseq (filter (\<lambda>x. x \<noteq> ''pipe:1'') args) (filter (\<lambda>x. x \<noteq> ''pipe:1'') (injected args))"
    by (intro subseq_filter subseq_injected)
  ultimately show ?thesis by (simp add: ensure_alt subseq_rev_drop_many)
qed

text \<open>
  Where the completion does not do what its users are told.  An \<open>-f\<close> anywhere in the
  command, also one that describes the input, keeps the output format from being set; the
  output name \<open>-\<close> stays, so that ffmpeg gets two outputs; and for an audio track the
  sample rate and the channel count are appended even when the user gave them.
\<close>

theorem ensure_flags_gaps:
  assumes "''-f'' \<in> set args"
  shows "count_list (ensure_ffmpeg_flags args track) ''-f'' = count_list args ''-f''
    \<and> count_list (ensure_ffmpeg_flags args track) ''-'' = count_list args ''-''
    \<and> (has track TRACK_AUDIO \<longrightarrow>
         count_list (ensure_ffmpeg_flags args track) ''-ac'' = count_list args ''-ac'' + 1 \<and>
         count_list (ensure_ffmpeg_flags args track) ''-ar'' = count_list args ''-ar'' + 1)"
  using assms
  by (simp add: ensure_alt count_list_filter count_injected output_inject_def scan_args_facts)

lemma ensure_flags_gaps_witness:
  "count_list (ensure_ffmpeg_flags [''-f'', ''x11grab'', ''-i'', '':0.0''] TRACK_VIDEO) ''-f'' = 1"
  using ensure_flags_gaps [of "[''-f'', ''x11grab'', ''-i'', '':0.0'']" TRACK_VIDEO] by simp

section \<open>Seeking again replaces the seek\<close>

text \<open>What the loop keeps: the arguments before the first \<open>-i\<close> without their seeks, and the
  rest from that \<open>-i\<close> on, if there is one.\<close>

fun strip_seek :: "string list \<Rightarrow> string list \<times> string list option" where
  "strip_seek [] = ([], None)"
| "strip_seek (a # rest) =
     (if a = ''-ss'' \<and> rest \<noteq> [] then strip_seek (tl rest)
      else if a = ''-i'' then ([], Some (a # rest))
      else (a # fst (strip_seek rest), snd (strip_seek rest)))"

declare strip_seek.simps(2) [simp del]

lemma strip_seek_cases:
  "rest \<noteq> [] \<Longrightarrow> strip_seek (''-ss'' # rest) = strip_seek (tl rest)"
  "strip_seek (''-i'' # rest) = ([], Some (''-i'' # rest))"
  "a \<noteq> ''-ss'' \<or> rest = [] \<Longrightarrow> a \<noteq> ''-i'' \<Longrightarrow>
     strip_seek (a # rest) = (a # fst (strip_seek rest), snd (strip_seek rest))"
  by (auto simp: strip_seek.simps(2))

lemma strip_seek_induct [case_names Nil Skip Stop Keep]:
  assumes "P []"
    and "\<And>b rest. P rest \<Longrightarrow> P (''-ss'' # b # rest)"
    and "\<And>rest. P (''-i'' # rest)"
    and "\<And>a rest. a \<noteq> ''-ss'' \<or> rest = [] \<Longrightarrow> a \<noteq> ''-i'' \<Longrightarrow> P rest \<Longrightarrow> P (a # rest)"
  shows "P args"
proof (induction args rule: length_induct)
  case (1 args)
  show ?case
  proof (cases args)
    case (Cons a rest)
    show ?thesis
    proof (cases "a = ''-ss'' \<and> rest \<noteq> []")
      case True
      then obtain b rest' where "rest = b # rest'" by (cases rest) auto
      with 1 Cons True assms(2) show ?thesis by simp
    next
      case False
      with 1 Cons assms(3,4) show ?thesis by (cases "a = ''-i''") auto
    qed
  qed (use assms(1) in simp)
qed

lemma seek_loop_after: "seek_loop args False (Some i) cleaned = (cleaned @ args, Some i)"
  by (induction args arbitrary: cleaned) simp_all

lemma seek_loop_strip:
  "seek_loop args False None cleaned =
     (case strip_seek args of
        (pre, None) \<Rightarrow> (cleaned @ pre, None)
      | (pre, Some post) \<Rightarrow> (cleaned @ pre @ post, Some (length cleaned + length pre)))"
proof (induction args arbitrary: cleaned rule: strip_seek_induct)
  case (Keep a rest)
  then have "seek_loop (a # rest) False None cleaned = seek_loop rest False None (cleaned @ [a])"
    by auto
  with Keep show ?case
    by (simp add: strip_seek_cases del: seek_loop.simps split: prod.splits option.splits)
qed (simp_all add: strip_seek_cases seek_loop_after)

lemma inject_seek_strip:
  "inject_seek args offset =
     (case strip_seek args of
        (pre, None) \<Rightarrow> ''-ss'' # seek_text offset # pre
      | (pre, Some post) \<Rightarrow> pre @ ''-ss'' # seek_text offset # post)"
  by (cases "strip_seek args"; cases "snd (strip_seek args)")
    (simp_all add: inject_seek_def seek_loop_strip Let_def)

lemma strip_seek_None: "strip_seek args = (pre, None) \<Longrightarrow> strip_seek pre = (pre, None)"
proof (induction args arbitrary: pre rule: strip_seek_induct)
  case (Keep a rest)
  then obtain q where q: "pre = a # q" "strip_seek rest = (q, None)"
    by (cases "strip_seek rest") (simp add: strip_seek_cases)
  then have "a \<noteq> ''-ss'' \<or> q = []" using Keep.hyps(1) by auto
  with q Keep show ?case by (simp add: strip_seek_cases)
qed (simp_all add: strip_seek_cases)

lemma strip_seek_Some:
  "strip_seek args = (pre, Some post) \<Longrightarrow>
     ''-ss'' \<notin> set pre \<and> ''-i'' \<notin> set pre \<and> (\<exists>r. post = ''-i'' # r)"
proof (induction args arbitrary: pre rule: strip_seek_induct)
  case (Keep a rest)
  then obtain q where q: "pre = a # q" "strip_seek rest = (q, Some post)"
    by (cases "strip_seek rest") (simp add: strip_seek_cases)
  then have "a \<noteq> ''-ss''" using Keep.hyps(1) by auto
  with q Keep show ?case by simp
qed (auto simp add: strip_seek_cases)

lemma strip_seek_no_input: "''-i'' \<notin> set args \<Longrightarrow> snd (strip_seek args) = None"
  by (induction args rule: strip_seek_induct) (simp_all add: strip_seek_cases)

lemma strip_seek_found:
  "''-ss'' \<notin> set pre \<Longrightarrow> ''-i'' \<notin> set pre \<Longrightarrow>
     strip_seek (pre @ ''-ss'' # t # ''-i'' # r) = (pre, Some (''-i'' # r))"
proof (induction pre)
  case (Cons a pre)
  then have "a \<noteq> ''-ss''" "a \<noteq> ''-i''" by auto
  with Cons show ?case by (simp add: strip_seek_cases)
qed (simp add: strip_seek_cases)

text \<open>
  Seeking is absolute: injecting a second offset gives the same argument list as
  injecting it into the original one, so that offsets never pile up however often a source
  is reopened.  The offset stands directly before the first \<open>-i\<close> (or in front, when there is
  none), and everything from that \<open>-i\<close> on is untouched.
\<close>

theorem inject_seek_replaces:
  "inject_seek (inject_seek args t1) t2 = inject_seek args t2
   \<and> (''-i'' \<notin> set args \<longrightarrow> take 2 (inject_seek args t2) = [''-ss'', seek_text t2])"
proof -
  obtain pre q where s: "strip_seek args = (pre, q)" by (cases "strip_seek args")
  have 1: "inject_seek (inject_seek args t1) t2 = inject_seek args t2"
  proof (cases q)
    case None
    with s strip_seek_None [of args pre] have "strip_seek pre = (pre, None)" by simp
    then have "strip_seek (''-ss'' # seek_text t1 # pre) = (pre, None)" by (simp add: strip_seek_cases)
    with s None show ?thesis by (simp add: inject_seek_strip)
  next
    case (Some post)
    with s strip_seek_Some [of args pre post] obtain r
      where "''-ss'' \<notin> set pre" "''-i'' \<notin> set pre" "post = ''-i'' # r" by auto
    then have "strip_seek (pre @ ''-ss'' # seek_text t1 # post) = (pre, Some post)"
      by (simp add: strip_seek_found)
    with s Some show ?thesis by (simp add: inject_seek_strip)
  qed
  have "q = None" if "''-i'' \<notin> set args"
    using strip_seek_no_input [OF that] s by simp
  with 1 s show ?thesis by (simp add: inject_seek_strip)
qed

lemma inject_seek_replaces_witness:
  "take 2 (inject_seek [''x''] 0) = [''-ss'', seek_text 0]
   \<and> inject_seek (inject_seek [''-i'', ''a''] 5) 7 = inject_seek [''-i'', ''a''] 7"
  using inject_seek_replaces [of "[''x'']" 0 0] inject_seek_replaces [of "[''-i'', ''a'']" 5 7] by simp

section \<open>What is checked and what is started\<close>

lemma validate_ok_iff:
  "validate_output_codec args track = Inr () \<longleftrightarrow>
     (\<forall>i < length args. codec_error track (args ! i) (next_arg (drop (Suc i) args)) = None)"
proof (induction args)
  case (Cons a rest)
  then show ?case by (simp add: All_less_Suc2 split: option.splits)
qed simp

lemma tokens_nonempty: "[] \<notin> set out \<Longrightarrow> [] \<notin> set (tokenize_loop s out cur q)"
proof (induction s out cur q rule: tokenize_loop.induct)
  case (2 c rest out cur q)
  then show ?case by (subst tokenize_loop.simps) auto
qed (simp add: tokenize_loop.simps)

lemma shell_new_log:
  "shell_new os bin args se started = (r, started') \<Longrightarrow>
     (case r of Inl e \<Rightarrow> \<exists>m. e = FFmpegSpawn m | Inr rd \<Rightarrow> started' = started @ [(bin, args)])
     \<and> started' \<in> {started, started @ [(bin, args)]}"
  by (auto simp: shell_new_def split: sum.splits if_splits)

text \<open>
  \<open>from_shell\<close> on every branch: a command without a word or with a raw PCM output is
  refused before anything is started; otherwise the one process started is the command's
  own program with the completed arguments, and its output becomes the audio stream for an
  audio or unspecified track and the video stream for a pure video track.
\<close>

theorem from_shell_starts:
  "(case tokenize_shell cmd of
      [] \<Rightarrow> from_shell os cmd track started = (Inl (FFmpegSpawn ''empty command''), started)
    | bin # rest \<Rightarrow>
        bin \<noteq> [] \<and>
        (case validate_output_codec rest track of
           Inl e \<Rightarrow> from_shell os cmd track started = (Inl e, started)
         | Inr _ \<Rightarrow>
            (case shell_new os bin (ensure_ffmpeg_flags rest track) False started of
               (Inl e, started') \<Rightarrow> from_shell os cmd track started = (Inl e, started')
             | (Inr r, started') \<Rightarrow>
                 started' = started @ [(bin, ensure_ffmpeg_flags rest track)] \<and>
                 (\<exists>st. from_shell os cmd track started = (Inr st, started') \<and>
                   (track = 0 \<or> has track TRACK_AUDIO \<longrightarrow> st_audio st = Some r \<and> st_video st = None) \<and>
                   (track = TRACK_VIDEO \<longrightarrow> st_audio st = None \<and> st_video st = Some r)))))"
proof (cases "tokenize_shell cmd")
  case (Cons bin rest)
  then have bin: "bin \<noteq> []"
    using tokens_nonempty [of "[]" cmd "[]" False] by (auto simp: tokenize_shell_def)
  show ?thesis
  proof (cases "validate_output_codec rest track")
    case (Inr u)
    obtain r started' where n: "shell_new os bin (ensure_ffmpeg_flags rest track) False started = (r, started')"
      by (cases "shell_new os bin (ensure_ffmpeg_flags rest track) False started")
    have z: "TRACK_VIDEO \<noteq> 0" using has_consts(2,5) by metis
    from shell_new_log [OF n] n Cons Inr bin show ?thesis
      by (cases r) (auto simp: from_shell_def shell_open_def shell_open_with_def bin_or_ffmpeg_def
          shell_tracks_def streams_default_def z)
  qed (simp add: from_shell_def Cons bin)
qed (simp add: from_shell_def)

lemma from_shell_starts_witness:
  "from_shell (\<lambda>n p as b. Inl ''no such file'') ''ffmpeg -f s16le pipe:1'' TRACK_AUDIO [] =
     (Inl (InvalidParams ''raw PCM container s16le not supported; expected -f ogg''), [])"
proof -
  have t: "tokenize_shell ''ffmpeg -f s16le pipe:1'' = [''ffmpeg'', ''-f'', ''s16le'', ''pipe:1'']"
    by (simp add: tokenize_shell_def tokenize_loop.simps is_blank_def dquote_def backslash_def push_byte_def)
  show ?thesis
    using from_shell_starts [where cmd = "''ffmpeg -f s16le pipe:1''" and os = "\<lambda>n p as b. Inl ''no such file''"
        and track = TRACK_AUDIO and started = "[]"]
    by (simp add: t codec_error_def next_arg_def raw_pcm_def)
qed

text \<open>
  A two-command source starts the audio process first and does not stop it when the
  video process cannot be started: the caller gets only the error.
\<close>

theorem from_shells_partial_start:
  assumes "parse_leg audio_cmd TRACK_AUDIO = Inr (abin, aargs)" "aargs \<noteq> []" "abin \<noteq> []"
    and "parse_leg video_cmd TRACK_VIDEO = Inr (vbin, vargs)" "vargs \<noteq> []" "vbin \<noteq> []"
    and "shell_new os abin aargs False started = (Inr r, started1)"
    and "shell_new os vbin vargs False started1 = (Inl e, started2)"
  shows "from_shells os audio_cmd video_cmd started = (Inl e, started2)
    \<and> (abin, aargs) \<in> set started2"
proof -
  have "started1 = started @ [(abin, aargs)]" using shell_new_log [OF assms(7)] by simp
  moreover have "started2 = started1 \<or> started2 = started1 @ [(vbin, vargs)]"
    using shell_new_log [OF assms(8)] by simp
  ultimately have "(abin, aargs) \<in> set started2" by auto
  with assms show ?thesis
    by (simp add: from_shells_def multi_open_def multi_open_with_def open_leg_def bin_or_ffmpeg_def)
qed

lemma from_shells_partial_start_witness:
  "\<exists>log. from_shells
       (\<lambda>n p as b. if n = 0 then Inr \<lparr>sp_pid = Some 7, sp_stdout = True, sp_stderr = False\<rparr>
                   else Inl ''no such file'') ''a x'' ''v y'' [] = (Inl (FFmpegSpawn ''no such file''), log)
     \<and> (''a'', ensure_ffmpeg_flags [''x''] TRACK_AUDIO) \<in> set log"
proof -
  let ?os = "\<lambda>n p as b. if n = (0::nat) then Inr \<lparr>sp_pid = Some 7, sp_stdout = True, sp_stderr = False\<rparr>
                   else Inl ''no such file''"
  have t: "tokenize_shell ''a x'' = [''a'', ''x'']" "tokenize_shell ''v y'' = [''v'', ''y'']"
    by (simp_all add: tokenize_shell_def tokenize_loop.simps is_blank_def dquote_def backslash_def push_byte_def)
  have a: "parse_leg ''a x'' TRACK_AUDIO = Inr (''a'', ensure_ffmpeg_flags [''x''] TRACK_AUDIO)"
    and v: "parse_leg ''v y'' TRACK_VIDEO = Inr (''v'', ensure_ffmpeg_flags [''y''] TRACK_VIDEO)"
    by (simp_all add: parse_leg_def t codec_error_def)
  have "ensure_ffmpeg_flags as t \<noteq> []" for as t by (simp add: ensure_ffmpeg_flags_def Let_def)
  then show ?thesis
    using from_shells_partial_start [OF a _ _ v, of ?os "[]"] by (simp add: shell_new_def)
qed

end
