(* ===== verification/Transcode.thy ===== *)
theory Transcode
  imports Media_Source Float64 Shell_Reader
begin

text \<open>
  \<open>src/media/transcode.rs\<close>: the source that runs one or two ffmpeg processes on a file or a
  URL.  The argument lists are the code's, element by element; a number is printed with
  \<open>dec\<close>.  Spawning goes through \<open>shell_new\<close>, so that the theorems can say which processes
  an operation starts, in which order, on every branch.
\<close>

definition ERR_NOT_SEEKABLE :: string where
  "ERR_NOT_SEEKABLE = ''media: source is not seekable''"

section \<open>Arguments\<close>

definition audio_ff_args :: "string list \<Rightarrow> encode_options \<Rightarrow> string list" where
  "audio_ff_args input opt =
     [''-hide_banner'', ''-loglevel'', ''error'', ''-nostdin'', ''-fflags'', ''+discardcorrupt+genpts'',
      ''-err_detect'', ''ignore_err''] @
     input @
     [''-map'', ''0:a?'', ''-vn'', ''-sn'', ''-dn'', ''-c:a'', ''libopus'',
      ''-b:a'', show_u32 (audio_bitrate_kbps opt) @ ''k'', ''-vbr'', ''on'', ''-compression_level'', ''10'',
      ''-frame_duration'', show_u32 OPUS_FRAME_DURATION_MS,
      ''-page_duration'', show_u32 (OPUS_FRAME_DURATION_MS * 1000),
      ''-application'', ''audio'', ''-mapping_family'', ''0'', ''-ar'', show_u32 OPUS_SAMPLE_RATE,
      ''-ac'', show_u16 (audio_channels opt), ''-f'', ''ogg'', ''pipe:1'']"

text \<open>
  \<open>(kbps as f64 * 1.5) as u32\<close>: the product is exact in double precision (it needs at most
  34 bits), and the cast truncates and saturates.  \<open>kbps * 2\<close> wraps.
\<close>

definition max_rate_kbps :: "u32 \<Rightarrow> nat" where
  "max_rate_kbps kbps = min (unat kbps * 3 div 2) (2 ^ 32 - 1)"

definition video_ff_args :: "string list \<Rightarrow> encode_options \<Rightarrow> string list" where
  "video_ff_args input opt =
     (let rate = show_u32 (video_bitrate_kbps opt) @ ''k'';
          max_rate = dec (max_rate_kbps (video_bitrate_kbps opt)) @ ''k'';
          buf_size = show_u32 (video_bitrate_kbps opt * 2) @ ''k'';
          gop = show_u32 (video_fps opt)
      in [''-hide_banner'', ''-loglevel'', ''error'', ''-nostdin'', ''-fflags'', ''+discardcorrupt+genpts'',
          ''-err_detect'', ''ignore_err''] @
         input @
         [''-map'', ''0:v?'', ''-an'', ''-sn'', ''-dn'', ''-c:v'', ''libvpx'', ''-b:v'', rate,
          ''-maxrate'', max_rate, ''-bufsize'', buf_size, ''-quality'', ''realtime'',
          ''-deadline'', ''realtime'', ''-cpu-used'', ''16'', ''-threads'', ''4'', ''-slices'', ''4'',
          ''-arnr-maxframes'', ''0'', ''-rc_lookahead'', ''0'', ''-lag-in-frames'', ''0'',
          ''-vf'', ''scale='' @ show_u32 (video_width opt) @ '':'' @ show_u32 (video_height opt),
          ''-r'', show_u32 (video_fps opt), ''-g'', gop, ''-keyint_min'', gop,
          ''-auto-alt-ref'', ''0'', ''-error-resilient'', ''1'', ''-f'', ''ivf'', ''pipe:1''])"

fun str_contains :: "string \<Rightarrow> string \<Rightarrow> bool" where
  "str_contains pat [] = (pat = [])"
| "str_contains pat (c # s) = (prefix pat (c # s) \<or> str_contains pat s)"

definition user_agent :: string where
  "user_agent =
     ''Mozilla/5.0 (X11; Linux x86_64) AppleWebKit/537.36 (KHTML, like Gecko) Chrome/145.0.0.0 Safari/537.36''"

definition ffmpeg_input_prefix :: "string \<Rightarrow> string list" where
  "ffmpeg_input_prefix input =
     (let is_m3u8 = str_contains ''.m3u8'' input;
          is_http = prefix ''http://'' input \<or> prefix ''https://'' input
      in if is_m3u8 then
           [''-user_agent'', user_agent, ''-protocol_whitelist'', ''file,http,https,tcp,tls'',
            ''-rw_timeout'', ''10000000'', ''-http_persistent'', ''1'',
            ''-analyzeduration'', ''0'', ''-probesize'', ''32k'']
         else if is_http then
           [''-user_agent'', user_agent, ''-reconnect'', ''1'', ''-reconnect_at_eof'', ''1'',
            ''-reconnect_streamed'', ''1'', ''-reconnect_on_network_error'', ''1'',
            ''-reconnect_on_http_error'', ''4xx,5xx'', ''-reconnect_delay_max'', ''5'',
            ''-rw_timeout'', ''15000000'', ''-timeout'', ''15000000'',
            ''-analyzeduration'', ''0'', ''-probesize'', ''128k'']
         else [''-analyzeduration'', ''0'', ''-probesize'', ''64k''])"

section \<open>The source\<close>

record transcode_source =
  ts_path :: string
  ts_input_args :: "string list"
  ts_opt :: encode_options

definition transcode_tracks :: "transcode_source \<Rightarrow> track" where
  "transcode_tracks s = tracks (with_defaults (ts_opt s))"

definition encode_opts :: "transcode_source \<Rightarrow> encode_options" where
  "encode_opts s = with_defaults (ts_opt s)"

type_synonym opened = "(error + shell_reader streams) \<times> spawn_log"

text \<open>\<open>map_err\<close> wraps a spawn error into another one of the same kind.\<close>

definition spawn_leg :: "os_spawn \<Rightarrow> ffmpeg_env \<Rightarrow> string \<Rightarrow> string list \<Rightarrow> spawn_log \<Rightarrow>
    (error + shell_reader option) \<times> spawn_log" where
  "spawn_leg os env label args started =
     (case shell_new os (get_ffmpeg_path env) args (is_stderr_log_enabled env) started of
        (Inl e, started') \<Rightarrow> (Inl (FFmpegSpawn (label @ '' ffmpeg: '' @ show_error e)), started')
      | (Inr r, started') \<Rightarrow> (Inr (Some r), started'))"

definition transcode_open_with ::
  "os_spawn \<Rightarrow> ffmpeg_env \<Rightarrow> transcode_source \<Rightarrow> string list \<Rightarrow> spawn_log \<Rightarrow> opened" where
  "transcode_open_with os env s input started =
     (let opt = with_defaults (ts_opt s) in
      case (if has (tracks opt) TRACK_AUDIO
            then spawn_leg os env ''audio'' (audio_ff_args input opt) started
            else (Inr None, started)) of
        (Inl e, started1) \<Rightarrow> (Inl e, started1)
      | (Inr audio, started1) \<Rightarrow>
          (case (if has (tracks opt) TRACK_VIDEO
                 then spawn_leg os env ''video'' (video_ff_args input opt) started1
                 else (Inr None, started1)) of
             (Inl e, started2) \<Rightarrow> (Inl e, started2)
           | (Inr video, started2) \<Rightarrow>
               (Inr \<lparr>st_audio = audio, st_video = video, st_close = None\<rparr>, started2)))"

definition transcode_open ::
  "os_spawn \<Rightarrow> ffmpeg_env \<Rightarrow> transcode_source \<Rightarrow> spawn_log \<Rightarrow> opened" where
  "transcode_open os env s started = transcode_open_with os env s (ts_input_args s) started"

text \<open>The input section: the prefix for the kind of input, the input, and the offset when it
  is at least a millisecond.\<close>

definition seek_input :: "string \<Rightarrow> duration_ns \<Rightarrow> string list" where
  "seek_input path offset =
     ffmpeg_input_prefix path @ [''-i'', path] @
     (if 0 < offset div 1000000 then [''-ss'', fmt3 (as_secs_f64 offset)] else [])"

definition transcode_open_at ::
  "os_spawn \<Rightarrow> ffmpeg_env \<Rightarrow> transcode_source \<Rightarrow> duration_ns \<Rightarrow> spawn_log \<Rightarrow> opened" where
  "transcode_open_at os env s offset started =
     (if ts_path s = [] then (Inl SeekUnsupported, started)
      else transcode_open_with os env s (seek_input (ts_path s) offset) started)"

definition from_file_offset ::
  "os_spawn \<Rightarrow> ffmpeg_env \<Rightarrow> string \<Rightarrow> duration_ns \<Rightarrow> encode_options \<Rightarrow> spawn_log \<Rightarrow> opened" where
  "from_file_offset os env path offset opt started =
     transcode_open os env
       \<lparr>ts_path = path, ts_input_args = seek_input path offset, ts_opt = opt\<rparr> started"

definition from_file ::
  "os_spawn \<Rightarrow> ffmpeg_env \<Rightarrow> string \<Rightarrow> encode_options \<Rightarrow> spawn_log \<Rightarrow> opened" where
  "from_file os env path opt started = from_file_offset os env path 0 opt started"

definition from_url_offset ::
  "os_spawn \<Rightarrow> ffmpeg_env \<Rightarrow> string \<Rightarrow> duration_ns \<Rightarrow> encode_options \<Rightarrow> spawn_log \<Rightarrow> opened" where
  "from_url_offset os env url offset opt started =
     transcode_open os env
       \<lparr>ts_path = url, ts_input_args = seek_input url offset, ts_opt = opt\<rparr> started"

definition from_url ::
  "os_spawn \<Rightarrow> ffmpeg_env \<Rightarrow> string \<Rightarrow> encode_options \<Rightarrow> spawn_log \<Rightarrow> opened" where
  "from_url os env url opt started = from_url_offset os env url 0 opt started"

section \<open>What is started\<close>

text \<open>The processes an open asks for, in order.\<close>

definition legs :: "ffmpeg_env \<Rightarrow> encode_options \<Rightarrow> string list \<Rightarrow> spawn_log" where
  "legs env opt input =
     (if has (tracks opt) TRACK_AUDIO then [(get_ffmpeg_path env, audio_ff_args input opt)] else []) @
     (if has (tracks opt) TRACK_VIDEO then [(get_ffmpeg_path env, video_ff_args input opt)] else [])"

lemma spawn_leg_result:
  "spawn_leg os env label args started = (r, started') \<Longrightarrow>
     (case r of Inl e \<Rightarrow> (\<exists>m. e = FFmpegSpawn m) \<and>
                  started' \<in> {started, started @ [(get_ffmpeg_path env, args)]}
              | Inr x \<Rightarrow> x \<noteq> None \<and> started' = started @ [(get_ffmpeg_path env, args)])"
  by (auto simp: spawn_leg_def shell_new_def split: sum.splits if_splits)

text \<open>
  Opening a transcode source.  On success it started exactly the processes its options
  ask for, audio before video, and returns a stream for each: video never comes without
  audio.  On failure it started a prefix of them and the error is \<open>FFmpegSpawn\<close>.
\<close>

theorem transcode_open_starts:
  "(case transcode_open os env s started of
      (Inr st, started') \<Rightarrow>
        started' = started @ legs env (encode_opts s) (ts_input_args s)
        \<and> (st_audio st \<noteq> None \<longleftrightarrow> has (transcode_tracks s) TRACK_AUDIO)
        \<and> (st_video st \<noteq> None \<longleftrightarrow> has (transcode_tracks s) TRACK_VIDEO)
        \<and> (st_video st \<noteq> None \<longrightarrow> st_audio st \<noteq> None)
    | (Inl e, started') \<Rightarrow>
        (\<exists>m. e = FFmpegSpawn m)
        \<and> (\<exists>p. started' = started @ p \<and> prefix p (legs env (encode_opts s) (ts_input_args s))))"
proof -
  let ?o = "with_defaults (ts_opt s)" and ?in = "ts_input_args s"
  have va: "has (tracks ?o) TRACK_VIDEO \<Longrightarrow> has (tracks ?o) TRACK_AUDIO"
    using with_defaults_ok [of "ts_opt s"] by (simp add: encode_ok_def)
  show ?thesis
  proof (cases "has (tracks ?o) TRACK_AUDIO")
    case False
    with va have "\<not> has (tracks ?o) TRACK_VIDEO" by blast
    with False show ?thesis
      by (simp add: transcode_open_def transcode_open_with_def transcode_tracks_def legs_def
          encode_opts_def Let_def)
  next
    case a: True
    obtain r1 l1 where 1: "spawn_leg os env ''audio'' (audio_ff_args ?in ?o) started = (r1, l1)"
      by fastforce
    obtain r2 l2 where 2: "spawn_leg os env ''video'' (video_ff_args ?in ?o) l1 = (r2, l2)"
      by fastforce
    show ?thesis
      using a 1 2 spawn_leg_result [OF 1] spawn_leg_result [OF 2]
      by (cases r1; cases r2; cases "has (tracks ?o) TRACK_VIDEO")
        (auto simp: transcode_open_def transcode_open_with_def transcode_tracks_def legs_def
          encode_opts_def Let_def)
  qed
qed

lemma transcode_open_starts_witness:
  "\<exists>st started'. transcode_open (\<lambda>n p as b. Inr \<lparr>sp_pid = None, sp_stdout = True, sp_stderr = b\<rparr>) ffmpeg_env_init
       \<lparr>ts_path = ''a.mp4'', ts_input_args = [''-i'', ''a.mp4''], ts_opt = video_default\<rparr> [] = (Inr st, started')
     \<and> st_video st \<noteq> None \<and> st_audio st \<noteq> None"
proof -
  let ?os = "\<lambda>n p as b. Inr \<lparr>sp_pid = None, sp_stdout = True, sp_stderr = b\<rparr>"
  let ?s = "\<lparr>ts_path = ''a.mp4'', ts_input_args = [''-i'', ''a.mp4''], ts_opt = video_default\<rparr>"
  have t: "has (tracks (with_defaults video_default)) TRACK_VIDEO"
    by (simp add: with_defaults_def video_default_def video_preset_def encode_default_def has_def Let_def TRACK_VIDEO_def
        TRACK_AUDIO_def track_or_def)
  obtain r started' where o: "transcode_open ?os ffmpeg_env_init ?s [] = (r, started')" by fastforce
  moreover obtain st where "r = Inr st"
    using o by (auto simp: transcode_open_def transcode_open_with_def spawn_leg_def shell_new_def Let_def
        split: if_splits)
  ultimately show ?thesis
    using transcode_open_starts [where os = ?os and env = ffmpeg_env_init and s = ?s and started = "[]"] t
    by (auto simp: transcode_tracks_def)
qed

text \<open>
  \<open>from_file_offset\<close> is \<open>open_at\<close> of the same file, a URL is treated like a file, an
  offset below a millisecond is no offset, and a source without a path is the only one that
  cannot seek.
\<close>

theorem from_file_offset_open_at:
  "(path \<noteq> [] \<longrightarrow>
      from_file_offset os env path t opt started =
        transcode_open_at os env \<lparr>ts_path = path, ts_input_args = ia, ts_opt = opt\<rparr> t started)
   \<and> transcode_open_at os env \<lparr>ts_path = [], ts_input_args = ia, ts_opt = opt\<rparr> t started =
        (Inl SeekUnsupported, started)
   \<and> from_url_offset os env path t opt started = from_file_offset os env path t opt started
   \<and> (t < 1000000 \<longrightarrow> from_file_offset os env path t opt started = from_file os env path opt started)"
  by (simp add: from_file_offset_def from_url_offset_def from_file_def transcode_open_def
      transcode_open_at_def transcode_open_with_def seek_input_def)

lemma from_file_offset_open_at_witness:
  "from_file_offset (\<lambda>n p as b. Inl ''e'') ffmpeg_env_init ''a.mp3'' 999999 encode_default [] =
     from_file (\<lambda>n p as b. Inl ''e'') ffmpeg_env_init ''a.mp3'' encode_default []"
  using from_file_offset_open_at [of "''a.mp3''" "\<lambda>n p as b. Inl ''e''" ffmpeg_env_init 999999
      encode_default "[]"] by simp

text \<open>
  The rates of the video encoder: the maximum rate is one and a half times the bit rate,
  rounded down, for every bit rate below 2.8 Tbit/s, and the buffer twice the bit rate as
  long as that fits 32 bits; from 2147483648 kbit/s on the buffer size wraps.
\<close>

theorem video_rates:
  "(unat k \<le> 2863311530 \<longrightarrow> max_rate_kbps k = unat k * 3 div 2)
   \<and> unat (k * 2) = (if unat k < 2147483648 then unat k * 2 else unat k * 2 - 4294967296)"
proof
  show "unat k \<le> 2863311530 \<longrightarrow> max_rate_kbps k = unat k * 3 div 2"
    by (simp add: max_rate_kbps_def)
  have "unat (k * 2) = unat k * 2 mod 4294967296" by (simp add: unat_word_ariths)
  moreover have "m mod 4294967296 = m - 4294967296" if "4294967296 \<le> m" "m < 2 * 4294967296" for m :: nat
    using that by (simp add: mod_if)
  ultimately show "unat (k * 2) = (if unat k < 2147483648 then unat k * 2 else unat k * 2 - 4294967296)"
    using unat_u32_less [of k] by auto
qed

lemma video_rates_witness: "max_rate_kbps 800 = 1200 \<and> unat (800 * 2 :: u32) = 1600"
  using video_rates [of 800] by simp

end
