(* ===== verification/Streamer.thy ===== *)
theory Streamer
  imports Frame_Reader
begin

text \<open>
  \<open>src/media/streamer.rs\<close>: the two tasks behind every outgoing track, the reader task that
  prefetches samples into a channel of 256 and the pacing task that sends each one at its
  time, with the calls that steer them (\<open>pause\<close>, \<open>resume\<close>, \<open>set_muted\<close>, \<open>stop\<close>, \<open>on_end\<close>).
  The state holds the shared flags, the channel and where each task stands; an action is one
  step of a task, one call, or the passing of time.  The source is any reader \<open>nx\<close> (the Opus
  and VP8 readers are the two of the code); the outcome of a send is part of the action.
\<close>

definition STALL_TIMEOUT :: duration_ns where "STALL_TIMEOUT = 60 * 1000000000"

section \<open>State\<close>

datatype reader_pc = Rd_loop | Rd_read | Rd_send "error + sample" | Rd_done

datatype pacer_pc =
    Pc_first                     \<comment> \<open>waiting for the first sample\<close>
  | Pc_loop                      \<comment> \<open>at the head of the loop\<close>
  | Pc_barrier sample            \<comment> \<open>waiting for the other streamer\<close>
  | Pc_send sample
  | Pc_join                      \<comment> \<open>sleeping and prefetching\<close>
  | Pc_end "error option"
  | Pc_done

record 'r streamer =
  sm_muted :: bool
  sm_paused :: bool
  sm_running :: bool
  sm_done :: bool
  sm_ns_sent :: u64
  sm_on_end :: "string option"
  sm_reader :: 'r
  sm_reader_pc :: reader_pc
  sm_channel :: "(error + sample) list"
  sm_pacer :: pacer_pc
  sm_next :: "(error + sample) option"
  sm_wake :: "nat option"
  sm_prefetched :: bool
  sm_first :: bool
  sm_deadline :: nat
  sm_barrier :: bool
  sm_clock :: nat
  sm_played :: "(nat \<times> nat \<times> bool \<times> sample) list"
    \<comment> \<open>the start of its time slot, when it was played, whether it was sent, what\<close>
  sm_calls :: "(string \<times> error option) list"

definition played_sample :: "nat \<times> nat \<times> bool \<times> sample \<Rightarrow> sample" where
  "played_sample p = snd (snd (snd p))"

lemma played_sample_simp [simp]: "played_sample (d, t, b, x) = x"
  by (simp add: played_sample_def)

definition sm_new :: "'r \<Rightarrow> bool \<Rightarrow> nat \<Rightarrow> 'r streamer" where
  "sm_new reader barrier now =
     \<lparr>sm_muted = False, sm_paused = False, sm_running = True, sm_done = False, sm_ns_sent = 0,
      sm_on_end = None, sm_reader = reader, sm_reader_pc = Rd_loop, sm_channel = [],
      sm_pacer = Pc_first, sm_next = None, sm_wake = None, sm_prefetched = False, sm_first = True,
      sm_deadline = now, sm_barrier = barrier, sm_clock = now, sm_played = [], sm_calls = []\<rparr>"

section \<open>The reader task\<close>

definition CHANNEL_SIZE :: nat where "CHANNEL_SIZE = 256"

definition stall_error :: error where
  "stall_error = Internal ''streamer read timed out after 30s''"

text \<open>A step of the reader task; \<open>stalled\<close>: the read lost against the 60 s timer.\<close>

definition reader_step ::
  "('r \<Rightarrow> (error + sample) \<times> 'r) \<Rightarrow> bool \<Rightarrow> 'r streamer \<Rightarrow> 'r streamer option" where
  "reader_step nx stalled s =
     (case sm_reader_pc s of
        Rd_loop \<Rightarrow>
          if \<not> sm_running s then Some (s\<lparr>sm_reader_pc := Rd_done\<rparr>)
          else if sm_paused s then None
          else Some (s\<lparr>sm_reader_pc := Rd_read\<rparr>)
      | Rd_read \<Rightarrow>
          if stalled then Some (s\<lparr>sm_reader_pc := Rd_send (Inl stall_error)\<rparr>)
          else (case nx (sm_reader s) of
                  (res, r) \<Rightarrow> Some (s\<lparr>sm_reader := r, sm_reader_pc := Rd_send res\<rparr>))
      | Rd_send res \<Rightarrow>
          if sm_pacer s = Pc_done then Some (s\<lparr>sm_reader_pc := Rd_done\<rparr>)
          else if length (sm_channel s) < CHANNEL_SIZE
          then Some (s\<lparr>sm_channel := sm_channel s @ [res],
                       sm_reader_pc := (if is_ok res then Rd_loop else Rd_done)\<rparr>)
          else None
      | Rd_done \<Rightarrow> None)"

section \<open>The pacing task\<close>

text \<open>\<open>rx.recv()\<close>: the next entry, or \<open>None\<close> once the channel is empty and its sender gone.\<close>

definition recv :: "'r streamer \<Rightarrow> ((error + sample) option \<times> 'r streamer) option" where
  "recv s =
     (case sm_channel s of
        x # xs \<Rightarrow> Some (Some x, s\<lparr>sm_channel := xs\<rparr>)
      | [] \<Rightarrow> if sm_reader_pc s = Rd_done then Some (None, s) else None)"

definition start_slot :: "sample \<Rightarrow> 'r streamer \<Rightarrow> 'r streamer" where
  "start_slot smp s = s\<lparr>sm_deadline := sm_clock s, sm_first := False, sm_pacer := Pc_send smp\<rparr>"

text \<open>The head of the loop: stop, wait while paused, take the sample.\<close>

definition pacer_loop :: "'r streamer \<Rightarrow> 'r streamer" where
  "pacer_loop s =
     (if \<not> sm_running s then s\<lparr>sm_pacer := Pc_end None\<rparr>
      else if sm_paused s then s\<lparr>sm_first := True\<rparr>
      else case sm_next s of
             None \<Rightarrow> s\<lparr>sm_pacer := Pc_end None\<rparr>
           | Some (Inl e) \<Rightarrow> s\<lparr>sm_next := None, sm_pacer := Pc_end (Some e)\<rparr>
           | Some (Inr smp) \<Rightarrow>
               let s1 = s\<lparr>sm_next := None\<rparr> in
               if sm_first s1
               then (if sm_barrier s1 then s1\<lparr>sm_pacer := Pc_barrier smp\<rparr> else start_slot smp s1)
               else s1\<lparr>sm_pacer := Pc_send smp\<rparr>)"

text \<open>After a frame: count it, move the deadline, and sleep or resynchronise.\<close>

definition finish_slot :: "bool \<Rightarrow> sample \<Rightarrow> 'r streamer \<Rightarrow> 'r streamer" where
  "finish_slot sent smp s =
     (let deadline = sm_deadline s + sm_duration smp; now = sm_clock s
      in s\<lparr>sm_ns_sent := sm_ns_sent s + of_nat (sm_duration smp),
           sm_played := sm_played s @ [(sm_deadline s, now, sent, smp)],
           sm_deadline := (if \<not> now < deadline \<and> 100000000 < now - deadline then now else deadline),
           sm_wake := (if now < deadline then Some deadline else None),
           sm_prefetched := False, sm_pacer := Pc_join\<rparr>)"

definition pacer_step :: "error + unit \<Rightarrow> 'r streamer \<Rightarrow> 'r streamer option" where
  "pacer_step send_result s =
     (case sm_pacer s of
        Pc_first \<Rightarrow>
          (case recv s of
             None \<Rightarrow> None
           | Some (x, s') \<Rightarrow> Some (s'\<lparr>sm_next := x, sm_pacer := Pc_loop\<rparr>))
      | Pc_loop \<Rightarrow> Some (pacer_loop s)
      | Pc_barrier smp \<Rightarrow> None
      | Pc_send smp \<Rightarrow>
          if sm_muted s then Some (finish_slot False smp s)
          else (case send_result of
                  Inl e \<Rightarrow> Some (s\<lparr>sm_pacer := Pc_end (Some e)\<rparr>)
                | Inr _ \<Rightarrow> Some (finish_slot True smp s))
      | Pc_join \<Rightarrow>
          if sm_prefetched s \<and> sm_wake s = None then Some (s\<lparr>sm_pacer := Pc_loop\<rparr>) else None
      | Pc_end e \<Rightarrow>
          Some (s\<lparr>sm_done := True, sm_on_end := None, sm_pacer := Pc_done,
                  sm_calls := (case sm_on_end s of None \<Rightarrow> sm_calls s | Some f \<Rightarrow> sm_calls s @ [(f, e)])\<rparr>)
      | Pc_done \<Rightarrow> None)"

text \<open>The two futures that \<open>join!\<close> waits for.\<close>

definition prefetch_step :: "'r streamer \<Rightarrow> 'r streamer option" where
  "prefetch_step s =
     (if sm_pacer s = Pc_join \<and> \<not> sm_prefetched s
      then (case recv s of
              None \<Rightarrow> None
            | Some (x, s') \<Rightarrow> Some (s'\<lparr>sm_next := x, sm_prefetched := True\<rparr>))
      else None)"

definition wake_step :: "'r streamer \<Rightarrow> 'r streamer option" where
  "wake_step s =
     (case sm_wake s of
        Some t \<Rightarrow> if sm_pacer s = Pc_join \<and> t \<le> sm_clock s then Some (s\<lparr>sm_wake := None\<rparr>) else None
      | None \<Rightarrow> None)"

text \<open>The other streamer has reached the barrier too.\<close>

definition barrier_step :: "'r streamer \<Rightarrow> 'r streamer option" where
  "barrier_step s = (case sm_pacer s of Pc_barrier smp \<Rightarrow> Some (start_slot smp s) | _ \<Rightarrow> None)"

section \<open>The calls\<close>

definition sm_start :: "'r streamer \<Rightarrow> 'r streamer" where
  "sm_start s = s\<lparr>sm_running := True\<rparr>"

definition sm_pause :: "'r streamer \<Rightarrow> 'r streamer" where
  "sm_pause s = s\<lparr>sm_paused := True\<rparr>"

definition sm_resume :: "'r streamer \<Rightarrow> 'r streamer" where
  "sm_resume s = s\<lparr>sm_paused := False\<rparr>"

definition sm_set_muted :: "bool \<Rightarrow> 'r streamer \<Rightarrow> 'r streamer" where
  "sm_set_muted b s = s\<lparr>sm_muted := b\<rparr>"

definition sm_is_muted :: "'r streamer \<Rightarrow> bool" where
  "sm_is_muted s = sm_muted s"

definition sm_is_paused :: "'r streamer \<Rightarrow> bool" where
  "sm_is_paused s = sm_paused s"

definition sm_stop :: "'r streamer \<Rightarrow> 'r streamer" where
  "sm_stop s = s\<lparr>sm_on_end := None, sm_running := False\<rparr>"

definition sm_set_on_end :: "string \<Rightarrow> 'r streamer \<Rightarrow> 'r streamer" where
  "sm_set_on_end f s = s\<lparr>sm_on_end := Some f\<rparr>"

datatype sm_action =
    Read_step bool | Pace_step "error + unit" | Prefetch | Wake | Barrier_open | Tick nat
  | Pause | Resume | Set_muted bool | Stop | On_end string

fun sm_step :: "('r \<Rightarrow> (error + sample) \<times> 'r) \<Rightarrow> sm_action \<Rightarrow> 'r streamer \<Rightarrow> 'r streamer option" where
  "sm_step nx (Read_step stalled) s = reader_step nx stalled s"
| "sm_step nx (Pace_step r) s = pacer_step r s"
| "sm_step nx Prefetch s = prefetch_step s"
| "sm_step nx Wake s = wake_step s"
| "sm_step nx Barrier_open s = barrier_step s"
| "sm_step nx (Tick n) s = Some (s\<lparr>sm_clock := sm_clock s + n\<rparr>)"
| "sm_step nx Pause s = Some (sm_pause s)"
| "sm_step nx Resume s = Some (sm_resume s)"
| "sm_step nx (Set_muted b) s = Some (sm_set_muted b s)"
| "sm_step nx Stop s = Some (sm_stop s)"
| "sm_step nx (On_end f) s = Some (sm_set_on_end f s)"

fun sm_run :: "('r \<Rightarrow> (error + sample) \<times> 'r) \<Rightarrow> sm_action list \<Rightarrow> 'r streamer \<Rightarrow> 'r streamer option" where
  "sm_run nx [] s = Some s"
| "sm_run nx (a # as) s = (case sm_step nx a s of None \<Rightarrow> None | Some s' \<Rightarrow> sm_run nx as s')"

lemmas sm_task_defs = reader_step_def pacer_step_def pacer_loop_def prefetch_step_def wake_step_def
  barrier_step_def start_slot_def finish_slot_def recv_def
lemmas sm_call_defs = sm_pause_def sm_resume_def sm_set_muted_def sm_stop_def sm_set_on_end_def

inductive sm_reach :: "('r \<Rightarrow> (error + sample) \<times> 'r) \<Rightarrow> 'r streamer \<Rightarrow> 'r streamer \<Rightarrow> bool" for nx s0 where
  start: "sm_reach nx s0 s0"
| step: "sm_reach nx s0 s \<Longrightarrow> sm_step nx a s = Some s' \<Longrightarrow> sm_reach nx s0 s'"

inductive_cases sm_reachE: "sm_reach nx s0 s"

lemma sm_run_invariant:
  assumes "\<And>a s s'. a \<in> set as \<Longrightarrow> P s \<Longrightarrow> sm_step nx a s = Some s' \<Longrightarrow> P s'"
    and "P s" "sm_run nx as s = Some s'"
  shows "P s'"
  using assms
proof (induction as arbitrary: s)
  case (Cons a as)
  then obtain t where "sm_step nx a s = Some t" "sm_run nx as t = Some s'"
    by (auto split: option.splits)
  with Cons show ?case by (meson list.set_intros)
qed simp

section \<open>Pausing and stopping\<close>

text \<open>How many frames may still go out while the streamer is held.\<close>

fun in_hand :: "pacer_pc \<Rightarrow> nat" where
  "in_hand (Pc_barrier smp) = 1"
| "in_hand (Pc_send smp) = 1"
| "in_hand _ = 0"

definition held :: "'r streamer \<Rightarrow> bool" where
  "held s \<longleftrightarrow> sm_paused s \<or> \<not> sm_running s"

lemma held_step:
  assumes "held s" "a \<noteq> Resume" "sm_step nx a s = Some s'"
  shows "held s' \<and> length (sm_played s') + in_hand (sm_pacer s') \<le> length (sm_played s) + in_hand (sm_pacer s)"
proof (cases a)
  case (Read_step b)
  with assms show ?thesis
    by (cases "sm_reader_pc s"; simp add: reader_step_def held_def split: if_splits prod.splits; clarsimp)
next
  case (Pace_step r)
  with assms show ?thesis
    by (cases "sm_pacer s"; simp add: pacer_step_def pacer_loop_def finish_slot_def recv_def held_def Let_def
        split: if_splits sum.splits option.splits list.splits; clarsimp)
next
  case Prefetch
  with assms show ?thesis
    by (simp add: prefetch_step_def recv_def held_def split: if_splits option.splits list.splits; clarsimp)
next
  case Wake
  with assms show ?thesis by (simp add: wake_step_def held_def split: if_splits option.splits; clarsimp)
next
  case Barrier_open
  with assms show ?thesis
    by (cases "sm_pacer s"; simp add: barrier_step_def start_slot_def held_def; clarsimp)
qed (use assms in \<open>simp add: sm_call_defs held_def; clarsimp\<close>)+

text \<open>
  C33. \<open>pause\<close> and \<open>stop\<close> take effect within one frame: once the streamer is paused or stopped
  and until it is resumed, at most one more frame is played, and none when the pacing task
  was not already past its test for that frame.
\<close>

theorem pause_within_one_frame:
  assumes "sm_paused s \<or> \<not> sm_running s" "Resume \<notin> set as" "sm_run nx as s = Some s'"
  shows "length (sm_played s') \<le> length (sm_played s) + in_hand (sm_pacer s)
    \<and> in_hand (sm_pacer s) \<le> 1"
proof -
  let ?P = "\<lambda>t. held t \<and> length (sm_played t) + in_hand (sm_pacer t) \<le> length (sm_played s) + in_hand (sm_pacer s)"
  have "?P s'"
  proof (rule sm_run_invariant [of as ?P nx s])
    fix a t t'
    assume "a \<in> set as" "?P t" "sm_step nx a t = Some t'"
    moreover from this assms(2) have "a \<noteq> Resume" by blast
    ultimately show "?P t'" using held_step [of t a nx t'] by linarith
  qed (use assms in \<open>auto simp: held_def\<close>)
  moreover have "in_hand pc \<le> 1" for pc by (cases pc) simp_all
  ultimately show ?thesis by simp
qed

lemma pause_within_one_frame_witness:
  "\<exists>s. sm_run (\<lambda>r. (Inl File, r)) [Pause, Tick 5, Stop] (sm_new () False 0) = Some s \<and> sm_played s = []"
proof -
  have "sm_run (\<lambda>r. (Inl File, r)) [Pause] (sm_new () False 0) = Some (sm_pause (sm_new () False 0))" by simp
  moreover have "sm_run (\<lambda>r. (Inl File, r)) [Tick 5, Stop] (sm_pause (sm_new () False 0)) =
      Some (sm_stop (sm_pause (sm_new () False 0)\<lparr>sm_clock := 5\<rparr>))" (is "_ = Some ?s'")
    by (simp add: sm_new_def sm_pause_def)
  moreover from this have "length (sm_played ?s') \<le> 0"
    using pause_within_one_frame [of "sm_pause (sm_new () False 0)" "[Tick 5, Stop]"]
    by (simp add: sm_new_def sm_pause_def)
  ultimately show ?thesis by (simp add: sm_new_def sm_pause_def)
qed

section \<open>Order\<close>

text \<open>\<open>yields nx ys r\<close>: the reader state after exactly the samples \<open>ys\<close>, if it gives them.\<close>

fun yields :: "('r \<Rightarrow> (error + sample) \<times> 'r) \<Rightarrow> sample list \<Rightarrow> 'r \<Rightarrow> 'r option" where
  "yields nx [] r = Some r"
| "yields nx (y # ys) r =
     (case nx r of
        (Inl e, r1) \<Rightarrow> None
      | (Inr x, r1) \<Rightarrow> if x = y then yields nx ys r1 else None)"

lemma yields_append1:
  "yields nx ys r = Some r1 \<Longrightarrow> nx r1 = (Inr x, r2) \<Longrightarrow> yields nx (ys @ [x]) r = Some r2"
  by (induction ys arbitrary: r) (auto split: prod.splits sum.splits if_splits)

lemma yields_drain: "yields nx ys r = Some r1 \<Longrightarrow> drain fuel nx r = (xs, Some e) \<Longrightarrow> prefix ys xs"
proof (induction ys arbitrary: r fuel xs)
  case (Cons y ys)
  obtain n where n: "fuel = Suc n" using Cons.prems(2) by (cases fuel) auto
  obtain r2 where r2: "nx r = (Inr y, r2)" "yields nx ys r2 = Some r1"
    using Cons.prems(1) by (auto split: prod.splits sum.splits if_splits)
  obtain zs e' where d: "drain n nx r2 = (zs, e')" by fastforce
  with Cons.prems(2) n r2 have "xs = y # zs" "e' = Some e" by auto
  with Cons.IH [OF r2(2)] d show ?case by simp
qed simp

fun ok_samples :: "(error + sample) list \<Rightarrow> sample list" where
  "ok_samples [] = []"
| "ok_samples (Inl e # xs) = ok_samples xs"
| "ok_samples (Inr x # xs) = x # ok_samples xs"

lemma ok_samples_append [simp]: "ok_samples (xs @ ys) = ok_samples xs @ ok_samples ys"
  by (induction xs rule: ok_samples.induct) simp_all

lemma ok_samples_single [simp]: "ok_samples [x] @ ok_samples xs = ok_samples (x # xs)"
  by (cases x) simp_all

fun held_sample :: "pacer_pc \<Rightarrow> sample list" where
  "held_sample (Pc_barrier x) = [x]"
| "held_sample (Pc_send x) = [x]"
| "held_sample _ = []"

fun pending_result :: "reader_pc \<Rightarrow> (error + sample) list" where
  "pending_result (Rd_send x) = [x]"
| "pending_result _ = []"

fun opt_list :: "'a option \<Rightarrow> 'a list" where
  "opt_list None = []"
| "opt_list (Some x) = [x]"

definition played_samples :: "'r streamer \<Rightarrow> sample list" where
  "played_samples s = map played_sample (sm_played s)"

text \<open>Everything on its way from the reader to the wire.\<close>

definition in_flight :: "'r streamer \<Rightarrow> sample list" where
  "in_flight s = held_sample (sm_pacer s) @ ok_samples (opt_list (sm_next s) @ sm_channel s) @
     ok_samples (pending_result (sm_reader_pc s))"

fun ended :: "pacer_pc \<Rightarrow> bool" where
  "ended (Pc_end e) = True"
| "ended Pc_done = True"
| "ended _ = False"

lemma ended_step:
  assumes "ended (sm_pacer s)" "sm_step nx a s = Some s'"
  shows "ended (sm_pacer s')"
proof (cases a)
  case (Read_step b)
  with assms show ?thesis
    by (cases "sm_reader_pc s"; simp add: reader_step_def split: if_splits prod.splits; clarsimp)
next
  case (Pace_step r)
  with assms show ?thesis by (cases "sm_pacer s") (auto simp: pacer_step_def)
qed (use assms in \<open>cases "sm_pacer s"; auto simp: sm_call_defs prefetch_step_def wake_step_def
      barrier_step_def split: option.splits\<close>)+

definition reading :: "reader_pc \<Rightarrow> bool" where
  "reading pc \<longleftrightarrow> pc \<noteq> Rd_done \<and> (\<forall>e. pc \<noteq> Rd_send (Inl e))"

definition next_taken :: "'r streamer \<Rightarrow> bool" where
  "next_taken s \<longleftrightarrow>
     (sm_pacer s = Pc_first \<or> (sm_pacer s = Pc_join \<and> \<not> sm_prefetched s) \<or> in_hand (sm_pacer s) = 1
      \<longrightarrow> sm_next s = None)"

definition flow_ok :: "sample list \<Rightarrow> 'r streamer \<Rightarrow> bool" where
  "flow_ok ys s \<longleftrightarrow>
     (if ended (sm_pacer s) then prefix (played_samples s) ys else played_samples s @ in_flight s = ys)"

definition order_inv :: "('r \<Rightarrow> (error + sample) \<times> 'r) \<Rightarrow> 'r \<Rightarrow> 'r streamer \<Rightarrow> bool" where
  "order_inv nx r0 s \<longleftrightarrow>
     (\<exists>ys r1. yields nx ys r0 = Some r1
        \<and> (reading (sm_reader_pc s) \<longrightarrow> sm_reader s = r1)
        \<and> flow_ok ys s)
     \<and> next_taken s"

lemma order_inv_new: "order_inv nx r (sm_new r b t)"
  by (simp add: order_inv_def flow_ok_def sm_new_def played_samples_def in_flight_def reading_def
      next_taken_def)

text \<open>The invariant from what it depends on: a step that changes nothing of it keeps it.\<close>

lemma order_inv_cong:
  assumes "order_inv nx r0 s"
    and "sm_reader t = sm_reader s" "sm_reader_pc t = sm_reader_pc s" "sm_played t = sm_played s"
    and "sm_pacer t = sm_pacer s" "sm_next t = sm_next s" "sm_channel t = sm_channel s"
    and "sm_prefetched t = sm_prefetched s"
  shows "order_inv nx r0 t"
proof -
  have "flow_ok ys t = flow_ok ys s" "next_taken t = next_taken s" for ys
    using assms by (simp_all add: flow_ok_def played_samples_def in_flight_def next_taken_def)
  with assms show ?thesis unfolding order_inv_def by simp
qed

lemma order_invI:
  "yields nx ys r0 = Some r1 \<Longrightarrow> reading (sm_reader_pc t) \<longrightarrow> sm_reader t = r1 \<Longrightarrow> flow_ok ys t \<Longrightarrow>
     next_taken t \<Longrightarrow> order_inv nx r0 t"
  unfolding order_inv_def by blast

lemma flow_ok_cong:
  "flow_ok ys s \<Longrightarrow> sm_pacer t = sm_pacer s \<Longrightarrow> played_samples t = played_samples s \<Longrightarrow>
     \<not> ended (sm_pacer s) \<longrightarrow> in_flight t = in_flight s @ zs \<Longrightarrow> flow_ok (ys @ zs) t"
  by (auto simp: flow_ok_def)

lemma order_inv_reader:
  assumes i: "order_inv nx r0 s" and st: "reader_step nx stalled s = Some t"
  shows "order_inv nx r0 t"
proof -
  obtain ys r1 where y: "yields nx ys r0 = Some r1" "reading (sm_reader_pc s) \<longrightarrow> sm_reader s = r1"
    "flow_ok ys s" and nt: "next_taken s"
    using i unfolding order_inv_def by blast
  have t: "next_taken t" "sm_pacer t = sm_pacer s" "played_samples t = played_samples s"
    using st nt by (cases "sm_reader_pc s"; clarsimp simp: reader_step_def next_taken_def played_samples_def
        split: if_splits prod.splits)+
  have keep: "order_inv nx r0 t"
    if "\<not> ended (sm_pacer s) \<longrightarrow> in_flight t = in_flight s" "reading (sm_reader_pc t) \<longrightarrow> sm_reader t = r1"
    using order_invI [OF y(1) that(2) _ t(1)] flow_ok_cong [OF y(3) t(2,3), of "[]"] that(1) by simp
  show ?thesis
  proof (cases "sm_reader_pc s")
    case Rd_loop
    with st y(2) show ?thesis
      by (intro keep) (auto simp: reader_step_def in_flight_def reading_def split: if_splits)
  next
    case Rd_read
    then have r1: "sm_reader s = r1" using y(2) by (simp add: reading_def)
    show ?thesis
    proof (cases "\<exists>x r2. \<not> stalled \<and> nx r1 = (Inr x, r2)")
      case True
      then obtain x r2 where x: "\<not> stalled" "nx r1 = (Inr x, r2)" by blast
      then have e: "t = s\<lparr>sm_reader := r2, sm_reader_pc := Rd_send (Inr x)\<rparr>"
        using st Rd_read r1 by (simp add: reader_step_def)
      have "yields nx (ys @ [x]) r0 = Some r2" using yields_append1 y(1) x(2) by fast
      moreover have "flow_ok (ys @ [x]) t"
        using flow_ok_cong [OF y(3) t(2,3)] e Rd_read by (simp add: in_flight_def)
      ultimately show ?thesis using e t(1) by (intro order_invI [of nx "ys @ [x]" r0 r2]) simp_all
    next
      case False
      obtain res r2 where n: "nx r1 = (res, r2)" by fastforce
      have "\<exists>e. sm_reader_pc t = Rd_send (Inl e) \<and> sm_next t = sm_next s \<and> sm_channel t = sm_channel s"
        using st Rd_read r1 n False by (cases stalled; cases res) (auto simp: reader_step_def)
      with t(2) Rd_read show ?thesis by (intro keep) (auto simp: in_flight_def reading_def)
    qed
  next
    case (Rd_send res)
    with st y(2) show ?thesis
      by (intro keep; cases res) (auto simp: reader_step_def in_flight_def reading_def split: if_splits)
  next
    case Rd_done
    with st show ?thesis by (simp add: reader_step_def)
  qed
qed

lemma order_inv_flow:
  assumes "order_inv nx r0 s" "\<not> ended (sm_pacer s)"
    and "sm_reader t = sm_reader s" "sm_reader_pc t = sm_reader_pc s" "next_taken t"
    and "if ended (sm_pacer t) then prefix (played_samples t) (played_samples s @ in_flight s)
         else played_samples t @ in_flight t = played_samples s @ in_flight s"
  shows "order_inv nx r0 t"
proof -
  let ?ys = "played_samples s @ in_flight s"
  obtain r1 where "yields nx ?ys r0 = Some r1" "reading (sm_reader_pc s) \<longrightarrow> sm_reader s = r1"
    using assms(1,2) by (auto simp: order_inv_def flow_ok_def)
  with assms(3-6) show ?thesis
    unfolding order_inv_def flow_ok_def by (intro conjI exI [of _ ?ys] exI [of _ r1]) (simp_all split: if_splits)
qed

lemma order_inv_pacer:
  assumes i: "order_inv nx r0 s" and st: "pacer_step r s = Some t"
  shows "order_inv nx r0 t"
proof (cases "ended (sm_pacer s)")
  case True
  then obtain e where "sm_pacer s = Pc_end e" using st by (cases "sm_pacer s") (auto simp: pacer_step_def)
  with st have t: "sm_pacer t = Pc_done" "sm_reader t = sm_reader s" "sm_reader_pc t = sm_reader_pc s"
    "played_samples t = played_samples s" by (auto simp: pacer_step_def played_samples_def)
  then have "flow_ok ys s \<Longrightarrow> flow_ok ys t" "next_taken t" for ys
    using True by (simp_all add: flow_ok_def next_taken_def)
  with i t show ?thesis unfolding order_inv_def by auto
next
  case False
  have nt: "next_taken s" using i by (simp add: order_inv_def)
  show ?thesis
  proof (rule order_inv_flow [OF i False])
    show "sm_reader t = sm_reader s" "sm_reader_pc t = sm_reader_pc s"
      using st by (cases "sm_pacer s"; clarsimp simp: sm_task_defs Let_def
          split: option.splits sum.splits if_splits list.splits)+
    show "next_taken t"
      using st nt by (cases "sm_pacer s"; clarsimp simp: sm_task_defs next_taken_def Let_def
          split: option.splits sum.splits if_splits list.splits)
    show "if ended (sm_pacer t) then prefix (played_samples t) (played_samples s @ in_flight s)
         else played_samples t @ in_flight t = played_samples s @ in_flight s"
      using st nt False
      by (cases "sm_pacer s"; clarsimp simp: sm_task_defs next_taken_def played_samples_def in_flight_def Let_def
          split: option.splits sum.splits if_splits list.splits)
  qed
qed

lemma order_inv_step: "order_inv nx r0 s \<Longrightarrow> sm_step nx a s = Some t \<Longrightarrow> order_inv nx r0 t"
proof (cases a)
  case Prefetch
  assume i: "order_inv nx r0 s" and st: "sm_step nx a s = Some t"
  with Prefetch have j: "sm_pacer s = Pc_join" "\<not> sm_prefetched s"
    by (auto simp: prefetch_step_def split: if_splits)
  then have n: "sm_next s = None" using i by (simp add: order_inv_def next_taken_def)
  show ?thesis
    using st Prefetch j n
    by (intro order_inv_flow [OF i]; clarsimp simp: prefetch_step_def recv_def next_taken_def played_samples_def
        in_flight_def split: list.splits if_splits)
next
  case Barrier_open
  assume i: "order_inv nx r0 s" and st: "sm_step nx a s = Some t"
  with Barrier_open obtain x where j: "sm_pacer s = Pc_barrier x"
    by (cases "sm_pacer s") (auto simp: barrier_step_def)
  then have n: "sm_next s = None" using i by (simp add: order_inv_def next_taken_def)
  show ?thesis
    using st Barrier_open j n
    by (intro order_inv_flow [OF i]; clarsimp simp: barrier_step_def start_slot_def next_taken_def
        played_samples_def in_flight_def)
next
  case Wake
  assume i: "order_inv nx r0 s" and st: "sm_step nx a s = Some t"
  then show ?thesis
    using Wake by (intro order_inv_cong [OF i]) (auto simp: wake_step_def split: option.splits if_splits)
next
  case (Read_step b)
  assume "order_inv nx r0 s" "sm_step nx a s = Some t"
  with Read_step show ?thesis by (simp add: order_inv_reader)
next
  case (Pace_step r)
  assume "order_inv nx r0 s" "sm_step nx a s = Some t"
  with Pace_step show ?thesis by (simp add: order_inv_pacer)
qed (rule order_inv_cong, assumption; clarsimp simp: sm_call_defs)+

lemma sm_reach_order: "sm_reach nx (sm_new r b t) s \<Longrightarrow> order_inv nx r s"
  by (induction rule: sm_reach.induct) (auto intro: order_inv_new order_inv_step)

lemma order_inv_prefix:
  assumes "order_inv nx r s" "drain fuel nx r = (xs, Some e)"
  shows "prefix (played_samples s) xs"
proof -
  obtain ys r1 where y: "yields nx ys r = Some r1" "prefix (played_samples s) ys"
    using assms(1) by (auto simp: order_inv_def flow_ok_def split: if_splits)
  with yields_drain [OF y(1) assms(2)] show ?thesis
    using prefix_order.order_trans by blast
qed

text \<open>
  C9. No frame is lost, repeated or reordered on the way from the reader to the wire,
  whatever the interleaving of the two tasks with pauses, mutes and stops: the frames whose
  time slots have been played are a prefix of the samples the source gives when it is read
  to its end.
\<close>

theorem streamer_plays_prefix:
  assumes "sm_reach nx (sm_new r b t) s" "drain fuel nx r = (xs, Some e)"
  shows "prefix (map played_sample (sm_played s)) xs"
  using order_inv_prefix [OF sm_reach_order [OF assms(1)] assms(2)] by (simp add: played_samples_def)

definition two_samples :: "nat \<Rightarrow> (error + sample) \<times> nat" where
  "two_samples n = (if n < 2 then Inr \<lparr>sm_data = [of_nat n], sm_duration = 20000000\<rparr> else Inl File, n + 1)"

definition first_frame :: "sm_action list" where
  "first_frame = [Read_step False, Read_step False, Read_step False, Pace_step (Inr ()),
     Pace_step (Inr ()), Tick 3, Pace_step (Inr ())]"

lemma sm_reach_run: "sm_reach nx s0 s \<Longrightarrow> sm_run nx as s = Some s' \<Longrightarrow> sm_reach nx s0 s'"
  by (rule sm_run_invariant [of as "sm_reach nx s0"]) (auto intro: sm_reach.step)

lemma first_frame_run:
  "\<exists>s. sm_run two_samples first_frame (sm_new 0 False 7) = Some s
     \<and> sm_played s = [(7, 10, True, \<lparr>sm_data = [0], sm_duration = 20000000\<rparr>)]"
  by (simp add: first_frame_def sm_new_def sm_task_defs two_samples_def CHANNEL_SIZE_def Let_def)

lemma streamer_plays_prefix_witness:
  "\<exists>s. sm_reach two_samples (sm_new 0 False 7) s \<and> sm_played s \<noteq> [] \<and>
     prefix (map played_sample (sm_played s))
       [\<lparr>sm_data = [0], sm_duration = 20000000\<rparr>, \<lparr>sm_data = [1], sm_duration = 20000000\<rparr>]"
proof -
  have d: "drain 3 two_samples 0 =
    ([\<lparr>sm_data = [0], sm_duration = 20000000\<rparr>, \<lparr>sm_data = [1], sm_duration = 20000000\<rparr>], Some File)"
    by (simp add: two_samples_def numeral_3_eq_3)
  obtain s where s: "sm_run two_samples first_frame (sm_new 0 False 7) = Some s" "sm_played s \<noteq> []"
    using first_frame_run by auto
  then have r: "sm_reach two_samples (sm_new 0 False 7) s" using sm_reach_run sm_reach.start by fast
  from streamer_plays_prefix [OF r d] r s show ?thesis by blast
qed

section \<open>Pace\<close>

text \<open>Every frame is played in or after its slot, and the slots are a duration apart.\<close>

definition on_schedule :: "(nat \<times> nat \<times> bool \<times> sample) list \<Rightarrow> bool" where
  "on_schedule ps \<longleftrightarrow>
     (\<forall>k < length ps. fst (ps ! k) \<le> fst (snd (ps ! k)))
     \<and> (\<forall>k. Suc k < length ps \<longrightarrow> fst (ps ! k) + sm_duration (played_sample (ps ! k)) \<le> fst (ps ! Suc k))"

definition slot_end :: "nat \<times> nat \<times> bool \<times> sample \<Rightarrow> nat" where
  "slot_end p = fst p + sm_duration (played_sample p)"

definition pace_inv :: "'r streamer \<Rightarrow> bool" where
  "pace_inv s \<longleftrightarrow>
     on_schedule (sm_played s)
     \<and> (sm_played s \<noteq> [] \<longrightarrow> slot_end (last (sm_played s)) \<le> sm_deadline s)
     \<and> (case sm_wake s of None \<Rightarrow> sm_deadline s \<le> sm_clock s
                        | Some t \<Rightarrow> t = sm_deadline s \<and> sm_pacer s = Pc_join)"

lemma pace_inv_new: "pace_inv (sm_new r b t)"
  by (simp add: pace_inv_def sm_new_def on_schedule_def)

lemma on_schedule_snoc:
  assumes "on_schedule ps" "d \<le> t" "ps \<noteq> [] \<longrightarrow> slot_end (last ps) \<le> d"
  shows "on_schedule (ps @ [(d, t, b, x)])"
proof -
  have "slot_end ((ps @ [(d, t, b, x)]) ! k) \<le> fst ((ps @ [(d, t, b, x)]) ! Suc k)"
    if k: "Suc k < length (ps @ [(d, t, b, x)])" for k
  proof (cases "Suc k = length ps")
    case True
    then have "ps \<noteq> []" "ps ! k = last ps" by (cases ps rule: rev_cases; simp)+
    with True assms(3) show ?thesis by (simp add: nth_append)
  next
    case False
    with k assms(1) show ?thesis by (auto simp: on_schedule_def nth_append slot_end_def)
  qed
  moreover have "k < length (ps @ [(d, t, b, x)]) \<Longrightarrow> fst ((ps @ [(d, t, b, x)]) ! k) \<le> fst (snd ((ps @ [(d, t, b, x)]) ! k))" for k
    using assms by (cases "k = length ps") (auto simp: on_schedule_def nth_append)
  ultimately show ?thesis unfolding on_schedule_def slot_end_def by blast
qed

lemma pace_inv_finish:
  assumes "pace_inv s" "sm_pacer s \<noteq> Pc_join"
  shows "pace_inv (finish_slot sent x s)"
proof -
  have w: "sm_wake s = None" "sm_deadline s \<le> sm_clock s"
    using assms by (auto simp: pace_inv_def split: option.splits)
  have "on_schedule (sm_played s @ [(sm_deadline s, sm_clock s, sent, x)])"
    using assms w by (intro on_schedule_snoc) (auto simp: pace_inv_def)
  with assms w show ?thesis
    by (auto simp: pace_inv_def finish_slot_def slot_end_def Let_def)
qed

lemma pace_inv_start:
  "pace_inv s \<Longrightarrow> sm_pacer s \<noteq> Pc_join \<Longrightarrow> pace_inv (start_slot x s)"
  by (auto simp: pace_inv_def start_slot_def split: option.splits)

lemma pace_inv_cong:
  assumes "pace_inv s" "sm_played t = sm_played s" "sm_deadline t = sm_deadline s" "sm_wake t = sm_wake s"
    and "sm_clock s \<le> sm_clock t" "sm_pacer t = sm_pacer s \<or> sm_wake s = None"
  shows "pace_inv t"
  using assms by (auto simp: pace_inv_def split: option.splits)

lemma recv_pace:
  "recv s = Some (x, t) \<Longrightarrow> sm_played t = sm_played s \<and> sm_deadline t = sm_deadline s \<and>
     sm_wake t = sm_wake s \<and> sm_clock t = sm_clock s \<and> sm_pacer t = sm_pacer s"
  by (auto simp: recv_def split: list.splits if_splits)

lemma pace_inv_loop: "pace_inv s \<Longrightarrow> sm_pacer s = Pc_loop \<Longrightarrow> pace_inv (pacer_loop s)"
proof -
  assume i: "pace_inv s" and l: "sm_pacer s = Pc_loop"
  then have w: "sm_wake s = None" by (auto simp: pace_inv_def split: option.splits)
  have "pace_inv (start_slot x (s\<lparr>sm_next := None\<rparr>))" for x
    using i l by (intro pace_inv_start pace_inv_cong [OF i]) auto
  with w show ?thesis
    by (auto simp: pacer_loop_def Let_def split: option.splits sum.splits intro: pace_inv_cong [OF i])
qed

lemma pace_inv_pacer: "pace_inv s \<Longrightarrow> pacer_step r s = Some t \<Longrightarrow> pace_inv t"
proof (cases "sm_pacer s")
  case Pc_first
  assume i: "pace_inv s" and st: "pacer_step r s = Some t"
  with Pc_first obtain x u where "recv s = Some (x, u)" "t = u\<lparr>sm_next := x, sm_pacer := Pc_loop\<rparr>"
    by (auto simp: pacer_step_def split: option.splits)
  moreover have "sm_wake s = None" using i Pc_first by (auto simp: pace_inv_def split: option.splits)
  ultimately show ?thesis using recv_pace [of s x u] by (intro pace_inv_cong [OF i]) auto
next
  case (Pc_send x)
  assume "pace_inv s" "pacer_step r s = Some t"
  moreover from this have "sm_wake s = None" using Pc_send by (auto simp: pace_inv_def split: option.splits)
  ultimately show ?thesis
    using Pc_send pace_inv_finish [of s]
    by (auto simp: pacer_step_def split: if_splits sum.splits intro: pace_inv_cong [of s])
next
  case Pc_join
  assume "pace_inv s" "pacer_step r s = Some t"
  with Pc_join show ?thesis by (auto simp: pacer_step_def split: if_splits intro: pace_inv_cong [of s])
next
  case (Pc_end e)
  assume "pace_inv s" "pacer_step r s = Some t"
  moreover from this have "sm_wake s = None" using Pc_end by (auto simp: pace_inv_def split: option.splits)
  ultimately show ?thesis using Pc_end by (auto simp: pacer_step_def intro: pace_inv_cong [of s])
qed (auto simp: pacer_step_def pace_inv_loop)

lemma pace_inv_step: "pace_inv s \<Longrightarrow> sm_step nx a s = Some t \<Longrightarrow> pace_inv t"
proof (cases a)
  case (Read_step b)
  assume i: "pace_inv s" and "sm_step nx a s = Some t"
  with Read_step show ?thesis
    by (intro pace_inv_cong [OF i]; cases "sm_reader_pc s"; clarsimp simp: reader_step_def split: if_splits prod.splits)
next
  case (Pace_step r)
  assume "pace_inv s" "sm_step nx a s = Some t"
  with Pace_step show ?thesis by (simp add: pace_inv_pacer)
next
  case Prefetch
  assume i: "pace_inv s" and st: "sm_step nx a s = Some t"
  with Prefetch obtain x u where "recv s = Some (x, u)" "t = u\<lparr>sm_next := x, sm_prefetched := True\<rparr>"
    by (auto simp: prefetch_step_def split: if_splits option.splits)
  with recv_pace [of s x u] show ?thesis by (intro pace_inv_cong [OF i]) auto
next
  case Wake
  assume "pace_inv s" "sm_step nx a s = Some t"
  with Wake show ?thesis by (auto simp: wake_step_def pace_inv_def split: option.splits if_splits)
next
  case Barrier_open
  assume i: "pace_inv s" and st: "sm_step nx a s = Some t"
  with Barrier_open show ?thesis
    by (cases "sm_pacer s") (auto simp: barrier_step_def intro: pace_inv_start)
qed (rule pace_inv_cong, assumption; clarsimp simp: sm_call_defs)+

text \<open>
  C15. No frame is played early: each one is played at or after the start of its time slot, and
  each slot starts at least the duration of the frame before it after that frame's slot,
  through pauses, mutes, waits for the other streamer and resynchronisations alike, so the
  stream never runs ahead of real time.
\<close>

theorem streamer_never_early:
  assumes "sm_reach nx (sm_new r b t) s"
  shows "(\<forall>(slot, played, sent, x) \<in> set (sm_played s). slot \<le> played)
    \<and> (\<forall>k. Suc k < length (sm_played s) \<longrightarrow>
          fst (sm_played s ! k) + sm_duration (played_sample (sm_played s ! k)) \<le> fst (sm_played s ! Suc k))"
proof -
  have "pace_inv s"
    using assms by (induction rule: sm_reach.induct) (auto intro: pace_inv_new pace_inv_step)
  then show ?thesis
    by (fastforce simp: pace_inv_def on_schedule_def in_set_conv_nth)
qed

lemma streamer_never_early_witness:
  "\<exists>s. sm_reach two_samples (sm_new 0 False 7) s \<and> sm_played s \<noteq> []
     \<and> fst (hd (sm_played s)) \<le> fst (snd (hd (sm_played s)))"
proof -
  obtain s where s: "sm_run two_samples first_frame (sm_new 0 False 7) = Some s" "sm_played s \<noteq> []"
    using first_frame_run by auto
  then have r: "sm_reach two_samples (sm_new 0 False 7) s" using sm_reach_run sm_reach.start by fast
  from s(2) have "hd (sm_played s) \<in> set (sm_played s)" by simp
  with streamer_never_early [OF r] have "fst (hd (sm_played s)) \<le> fst (snd (hd (sm_played s)))"
    by (auto simp: case_prod_beta)
  with r s(2) show ?thesis by blast
qed

section \<open>The end of a stream\<close>

definition end_inv :: "'r streamer \<Rightarrow> bool" where
  "end_inv s \<longleftrightarrow>
     sm_running s
     \<and> (sm_reader_pc s = Rd_done \<and> \<not> ended (sm_pacer s) \<longrightarrow>
          (\<exists>xs e. opt_list (sm_next s) @ sm_channel s = xs @ [Inl e]))
     \<and> (sm_pacer s = Pc_loop \<or> (sm_pacer s = Pc_join \<and> sm_prefetched s) \<longrightarrow> sm_next s \<noteq> None)
     \<and> sm_pacer s \<noteq> Pc_end None
     \<and> (sm_pacer s \<noteq> Pc_done \<longrightarrow> sm_calls s = []) \<and> length (sm_calls s) \<le> 1
     \<and> (\<forall>c \<in> set (sm_calls s). snd c \<noteq> None)"

lemma end_inv_new: "end_inv (sm_new r b t)"
  by (simp add: end_inv_def sm_new_def)

lemma flow_snoc_tl: "x # ys = xs @ [Inl e] \<Longrightarrow> ys \<noteq> [] \<Longrightarrow> \<exists>zs e. ys = zs @ [Inl e]"
  by (cases xs) auto

lemma end_inv_reader:
  assumes i: "end_inv s" and st: "reader_step nx stalled s = Some t"
  shows "end_inv t"
proof (cases "sm_reader_pc s")
  case (Rd_send res)
  with assms show ?thesis
    by (cases res) (auto simp: reader_step_def end_inv_def split: if_splits)
qed (use assms in \<open>clarsimp simp: reader_step_def end_inv_def split: if_splits prod.splits\<close>)+

lemma end_inv_recv:
  assumes "end_inv s" "recv s = Some (x, u)" "sm_next s = None" "\<not> ended (sm_pacer s)"
  shows "\<exists>y. x = Some y \<and> sm_channel s = y # sm_channel u \<and> sm_running u = sm_running s
    \<and> sm_reader_pc u = sm_reader_pc s \<and> sm_calls u = sm_calls s"
  using assms by (auto simp: recv_def end_inv_def split: list.splits if_splits)

text \<open>Receiving moves an entry from the channel to \<open>sm_next\<close>; the rest is unchanged.\<close>

lemma end_inv_received:
  assumes i: "end_inv s" and r: "recv s = Some (x, u)" and n: "sm_next s = None" "\<not> ended (sm_pacer s)"
    and t: "sm_running t = sm_running u" "sm_reader_pc t = sm_reader_pc u" "sm_channel t = sm_channel u"
      "sm_next t = x" "sm_calls t = sm_calls u" "sm_pacer t = Pc_loop \<or> sm_pacer t = Pc_join"
  shows "end_inv t"
proof -
  obtain y where y: "x = Some y" "sm_channel s = y # sm_channel u"
    and u: "sm_running u = sm_running s" "sm_reader_pc u = sm_reader_pc s" "sm_calls u = sm_calls s"
    using end_inv_recv [OF i r n] by blast
  have "opt_list (sm_next t) @ sm_channel t = opt_list (sm_next s) @ sm_channel s"
    using t y n by simp
  moreover have "sm_calls s = []"
    using i n by (cases "sm_pacer s") (simp_all add: end_inv_def)
  moreover have "\<not> ended (sm_pacer t)" using t(6) by auto
  ultimately show ?thesis
    using i n t u y(1) unfolding end_inv_def by (metis empty_iff list.set(1) list.size(3) not_None_eq pacer_pc.distinct zero_le)
qed

lemma end_inv_pacer:
  assumes i: "end_inv s" and nt: "next_taken s" and st: "pacer_step r s = Some t"
  shows "end_inv t"
proof (cases "sm_pacer s")
  case Pc_first
  then obtain x u where "recv s = Some (x, u)" "t = u\<lparr>sm_next := x, sm_pacer := Pc_loop\<rparr>"
    using st by (auto simp: pacer_step_def split: option.splits)
  with Pc_first nt show ?thesis
    by (intro end_inv_received [OF i, of x u]) (auto simp: next_taken_def)
next
  case Pc_loop
  then obtain y where y: "sm_next s = Some y" using i by (auto simp: end_inv_def)
  have run: "sm_running s" using i by (simp add: end_inv_def)
  show ?thesis
  proof (cases "sm_paused s")
    case True
    with Pc_loop st i run show ?thesis by (auto simp: pacer_step_def pacer_loop_def end_inv_def)
  next
    case False
    show ?thesis
    proof (cases y)
      case (Inl e)
      with False Pc_loop st i run y show ?thesis
        by (auto simp: pacer_step_def pacer_loop_def end_inv_def)
    next
      case (Inr smp)
      have "sm_reader_pc s = Rd_done \<Longrightarrow> \<exists>xs e. sm_channel s = xs @ [Inl e]"
        using i Pc_loop y Inr by (auto simp: end_inv_def Cons_eq_append_conv)
      with Inr False Pc_loop st i run y show ?thesis
        by (auto simp: pacer_step_def pacer_loop_def start_slot_def end_inv_def Let_def split: if_splits)
    qed
  qed
next
  case (Pc_send x)
  then have "sm_next s = None" using nt by (simp add: next_taken_def)
  with Pc_send st i show ?thesis
    by (auto simp: pacer_step_def finish_slot_def end_inv_def Let_def split: if_splits sum.splits)
next
  case Pc_join
  with st i show ?thesis by (auto simp: pacer_step_def end_inv_def split: if_splits)
next
  case (Pc_end e)
  with st i show ?thesis by (auto simp: pacer_step_def end_inv_def split: option.splits)
qed (use st in \<open>simp_all add: pacer_step_def\<close>)

lemma end_inv_step:
  assumes i: "end_inv s" and nt: "next_taken s" and st: "sm_step nx a s = Some t" and "a \<noteq> Stop"
  shows "end_inv t"
proof (cases a)
  case (Read_step b)
  with st i show ?thesis by (simp add: end_inv_reader)
next
  case (Pace_step r)
  with st i nt show ?thesis by (simp add: end_inv_pacer)
next
  case Prefetch
  then obtain x u where x: "recv s = Some (x, u)" "t = u\<lparr>sm_next := x, sm_prefetched := True\<rparr>"
      "sm_pacer s = Pc_join" "\<not> sm_prefetched s"
    using st by (auto simp: prefetch_step_def split: if_splits option.splits)
  moreover have "sm_pacer u = Pc_join" using recv_pace [OF x(1)] x(3) by simp
  ultimately show ?thesis using nt
    by (intro end_inv_received [OF i, of x u]) (auto simp: next_taken_def)
next
  case Wake
  with st i show ?thesis by (auto simp: wake_step_def end_inv_def split: option.splits if_splits)
next
  case Barrier_open
  with st i show ?thesis
    by (cases "sm_pacer s") (auto simp: barrier_step_def start_slot_def end_inv_def)
next
  case (Tick n)
  with st have "t = s\<lparr>sm_clock := sm_clock s + n\<rparr>" by simp
  with i show ?thesis by (simp add: end_inv_def)
next
  case Pause
  with st have "t = sm_pause s" by simp
  with i show ?thesis by (simp add: end_inv_def sm_pause_def)
next
  case Resume
  with st have "t = sm_resume s" by simp
  with i show ?thesis by (simp add: end_inv_def sm_resume_def)
next
  case (Set_muted b)
  with st have "t = sm_set_muted b s" by simp
  with i show ?thesis by (simp add: end_inv_def sm_set_muted_def)
next
  case Stop
  with assms(4) show ?thesis by simp
next
  case (On_end f)
  with st have "t = sm_set_on_end f s" by simp
  with i show ?thesis by (simp add: end_inv_def sm_set_on_end_def)
qed

text \<open>
  C32. How a stream ends.  Unless somebody stops the streamer, the completion callback runs at
  most once and always with an error: the end of the source is reported with the error that
  ended it (\<open>File\<close> for a plain end of file), never with \<open>None\<close>.
\<close>

theorem stream_end_is_error:
  assumes "sm_run nx as (sm_new r b t) = Some s" "Stop \<notin> set as"
  shows "length (sm_calls s) \<le> 1 \<and> (\<forall>(f, e) \<in> set (sm_calls s). e \<noteq> None)"
proof -
  have "order_inv nx r s \<and> end_inv s"
  proof (rule sm_run_invariant [of as "\<lambda>s. order_inv nx r s \<and> end_inv s" nx "sm_new r b t"])
    fix a u v
    assume a: "a \<in> set as" and inv: "order_inv nx r u \<and> end_inv u" and st: "sm_step nx a u = Some v"
    have "a \<noteq> Stop" using a assms(2) by blast
    moreover have "next_taken u" using inv by (simp add: order_inv_def)
    ultimately show "order_inv nx r v \<and> end_inv v"
      using order_inv_step [OF conjunct1 [OF inv] st] end_inv_step [OF conjunct2 [OF inv] _ st] by simp
  qed (use assms in \<open>simp_all add: order_inv_new end_inv_new\<close>)
  then have "length (sm_calls s) \<le> 1" "\<forall>c \<in> set (sm_calls s). snd c \<noteq> None"
    unfolding end_inv_def by blast+
  then show ?thesis by force
qed

lemma stream_end_is_error_witness:
  "\<exists>s. sm_run two_samples
         [On_end ''cb'', Read_step False, Read_step True, Read_step False, Pace_step (Inr ()),
          Pace_step (Inr ()), Pace_step (Inr ())] (sm_new 2 False 0) = Some s
     \<and> sm_calls s = [(''cb'', Some stall_error)] \<and> length (sm_calls s) \<le> 1"
proof -
  let ?as = "[On_end ''cb'', Read_step False, Read_step True, Read_step False, Pace_step (Inr ()),
          Pace_step (Inr ()), Pace_step (Inr ())]"
  have "\<exists>s. sm_run two_samples ?as (sm_new 2 False 0) = Some s \<and> sm_calls s = [(''cb'', Some stall_error)]"
    by (simp add: sm_new_def sm_task_defs sm_call_defs CHANNEL_SIZE_def Let_def)
  then obtain s where "sm_run two_samples ?as (sm_new 2 False 0) = Some s"
    "sm_calls s = [(''cb'', Some stall_error)]" by blast
  with stream_end_is_error [OF this(1)] show ?thesis by auto
qed

end
