(* ===== verification/Streamer_Live.thy ===== *)
theory Streamer_Live
  imports Streamer
begin

text \<open>
  That a streamer gets to its end.  The safety results about \<open>media/streamer.rs\<close> would also hold
  of one that never plays anything; here it is shown that a streamer is never stuck: from every
  state that its tasks and calls can reach, as long as nobody stops it, no read stalls and no
  frame fails to be sent, a finite schedule leads to the barrier, if it has one, or to the end,
  with every frame of the source played and the completion callback called.
\<close>

section \<open>Everything is accounted for\<close>

text \<open>What the reader will still yield: its samples and then the error that ends it.\<close>

definition to_come ::
  "('r \<Rightarrow> (error + sample) \<times> 'r) \<Rightarrow> error \<Rightarrow> 'r streamer \<Rightarrow> (error + sample) list \<Rightarrow> bool" where
  "to_come nx e s ts \<longleftrightarrow>
     (if reading (sm_reader_pc s)
      then \<exists>n zs. drain n nx (sm_reader s) = (zs, Some e) \<and> ts = map Inr zs @ [Inl e]
      else ts = [])"

definition pipeline :: "'r streamer \<Rightarrow> (error + sample) list" where
  "pipeline s = map Inr (played_samples s @ held_sample (sm_pacer s)) @ opt_list (sm_next s) @
     sm_channel s @ pending_result (sm_reader_pc s)"

text \<open>The calls of the completion callback, if there is one, at the end.\<close>

definition end_calls :: "string option \<Rightarrow> error \<Rightarrow> (string \<times> error option) list" where
  "end_calls f e = (case f of None \<Rightarrow> [] | Some g \<Rightarrow> [(g, Some e)])"

lemma end_calls_simps [simp]: "end_calls None e = []" "end_calls (Some g) e = [(g, Some e)]"
  by (simp_all add: end_calls_def)

definition at_barrier :: "'r streamer \<Rightarrow> bool" where
  "at_barrier s \<longleftrightarrow> (\<exists>x. sm_pacer s = Pc_barrier x)"

definition pacer_ok :: "error \<Rightarrow> string option \<Rightarrow> 'r streamer \<Rightarrow> bool" where
  "pacer_ok e f s \<longleftrightarrow>
     (if sm_pacer s = Pc_done then sm_calls s = end_calls f e else sm_on_end s = f \<and> sm_calls s = [])
     \<and> (\<forall>r. sm_pacer s = Pc_end r \<longrightarrow> r = Some e) \<and> (at_barrier s \<longrightarrow> sm_barrier s)
     \<and> (sm_pacer s = Pc_loop \<or> sm_pacer s = Pc_join \<and> sm_prefetched s \<longrightarrow> sm_next s \<noteq> None)"

definition complete ::
  "('r \<Rightarrow> (error + sample) \<times> 'r) \<Rightarrow> sample list \<Rightarrow> error \<Rightarrow> bool \<Rightarrow> string option \<Rightarrow>
     (error + sample) list \<Rightarrow> 'r streamer \<Rightarrow> bool" where
  "complete nx xs e b f ts s \<longleftrightarrow>
     sm_running s \<and> sm_barrier s = b \<and> next_taken s \<and> to_come nx e s ts
     \<and> (sm_pacer s \<noteq> Pc_join \<longrightarrow> sm_wake s = None)
     \<and> (if ended (sm_pacer s) then played_samples s = xs
        else pipeline s @ ts = map Inr xs @ [Inl e])
     \<and> pacer_ok e f s"

text \<open>The work that is left.\<close>

fun reader_stage :: "reader_pc \<Rightarrow> nat" where
  "reader_stage Rd_loop = 1"
| "reader_stage _ = 0"

fun pacer_stage :: "bool \<Rightarrow> pacer_pc \<Rightarrow> nat" where
  "pacer_stage w Pc_first = 1"
| "pacer_stage w Pc_loop = 0"
| "pacer_stage w (Pc_barrier x) = 5"
| "pacer_stage w (Pc_send x) = 4"
| "pacer_stage w Pc_join = (if w then 3 else 2)"
| "pacer_stage w (Pc_end e) = 1"
| "pacer_stage w Pc_done = 0"

definition work :: "(error + sample) list \<Rightarrow> 'r streamer \<Rightarrow> nat" where
  "work ts s = 11 * length ts + reader_stage (sm_reader_pc s) + 9 * length (pending_result (sm_reader_pc s)) +
     7 * length (sm_channel s) + 6 * length (opt_list (sm_next s)) + pacer_stage (sm_wake s \<noteq> None) (sm_pacer s)"

section \<open>Reading makes progress\<close>

lemma complete_frame:
  assumes "complete nx xs e b f ts s" "to_come nx e t ts'" "pipeline t @ ts' = pipeline s @ ts"
    and "sm_running t = sm_running s" "sm_barrier t = sm_barrier s" "sm_wake t = sm_wake s"
      "sm_pacer t = sm_pacer s" "sm_played t = sm_played s" "sm_next t = sm_next s"
      "sm_prefetched t = sm_prefetched s" "sm_on_end t = sm_on_end s" "sm_calls t = sm_calls s"
  shows "complete nx xs e b f ts' t"
proof -
  have "played_samples t = played_samples s" "next_taken t = next_taken s" "pacer_ok e f t = pacer_ok e f s"
    using assms(4-12) by (simp_all add: played_samples_def next_taken_def pacer_ok_def at_barrier_def)
  with assms show ?thesis unfolding complete_def by simp
qed

lemma complete_reader:
  assumes c: "complete nx xs e b f ts s" and st: "reader_step nx False s = Some t"
  shows "\<exists>ts'. complete nx xs e b f ts' t \<and> (sm_pacer s \<noteq> Pc_done \<longrightarrow> work ts' t < work ts s)"
proof (cases "sm_reader_pc s")
  case Rd_loop
  then have t: "t = s\<lparr>sm_reader_pc := Rd_read\<rparr>" using c st by (auto simp: complete_def reader_step_def split: if_splits)
  have "to_come nx e t ts" using c t Rd_loop by (simp add: complete_def to_come_def reading_def)
  moreover have "pipeline t = pipeline s" using t Rd_loop by (simp add: pipeline_def played_samples_def)
  ultimately have "complete nx xs e b f ts t" using t by (intro complete_frame [OF c]) simp_all
  moreover have "work ts t < work ts s" using t Rd_loop by (simp add: work_def)
  ultimately show ?thesis by blast
next
  case Rd_read
  then obtain n zs where d: "drain n nx (sm_reader s) = (zs, Some e)" "ts = map Inr zs @ [Inl e]"
    using c by (auto simp: complete_def to_come_def reading_def)
  obtain res r where n: "nx (sm_reader s) = (res, r)" by fastforce
  then have t: "t = s\<lparr>sm_reader := r, sm_reader_pc := Rd_send res\<rparr>"
    using st Rd_read by (simp add: reader_step_def)
  obtain m where m: "n = Suc m" using d(1) by (cases n) auto
  have ts: "to_come nx e t (tl ts) \<and> ts = res # tl ts"
  proof (cases res)
    case (Inl e')
    with d n m t show ?thesis by (simp add: to_come_def reading_def)
  next
    case (Inr x)
    obtain ws e' where w: "drain m nx r = (ws, e')" by fastforce
    with d n m Inr have "zs = x # ws" "e' = Some e" by auto
    with d(2) t Inr w show ?thesis by (auto simp: to_come_def reading_def)
  qed
  then have "pipeline t @ tl ts = pipeline s @ ts"
    using t Rd_read by (simp add: pipeline_def played_samples_def)
  with t ts have "complete nx xs e b f (tl ts) t" by (intro complete_frame [OF c]) simp_all
  moreover have "work (tl ts) t < work ts s"
    using t Rd_read ts by (cases ts) (simp_all add: work_def)
  ultimately show ?thesis by blast
next
  case (Rd_send res)
  show ?thesis
  proof (cases "sm_pacer s = Pc_done")
    case True
    then have t: "t = s\<lparr>sm_reader_pc := Rd_done\<rparr>" using st Rd_send by (simp add: reader_step_def)
    then have "complete nx xs e b f [] t"
      using c True by (simp add: complete_def to_come_def reading_def played_samples_def next_taken_def pacer_ok_def at_barrier_def)
    with True show ?thesis by blast
  next
    case False
    then have t: "t = s\<lparr>sm_channel := sm_channel s @ [res], sm_reader_pc := (if is_ok res then Rd_loop else Rd_done)\<rparr>"
      using st Rd_send by (simp add: reader_step_def split: if_splits)
    have "to_come nx e t ts" using c t Rd_send by (cases res) (simp_all add: complete_def to_come_def reading_def)
    moreover have "pipeline t = pipeline s" using t Rd_send by (simp add: pipeline_def played_samples_def)
    ultimately have "complete nx xs e b f ts t" using t by (intro complete_frame [OF c]) simp_all
    moreover have "work ts t < work ts s" using t Rd_send by (simp add: work_def)
    ultimately show ?thesis by blast
  qed
next
  case Rd_done
  with st show ?thesis by (simp add: reader_step_def)
qed

section \<open>Playing makes progress\<close>

lemma results_end:
  "map Inr ps @ Inl e' # rest = map Inr xs @ [Inl e] \<Longrightarrow> ps = xs \<and> e' = e"
proof (induction ps arbitrary: xs)
  case Nil
  then show ?case by (cases xs) auto
next
  case (Cons p ps)
  then show ?case by (cases xs) auto
qed

lemma complete_recv:
  assumes c: "complete nx xs e b f ts s" and p: "sm_pacer s = Pc_first \<or> sm_pacer s = Pc_join" "sm_next s = None"
    and r: "recv s = Some (x, u)"
  shows "\<exists>y rest. x = Some y \<and> sm_channel s = y # rest \<and> u = s\<lparr>sm_channel := rest\<rparr>"
proof (cases "sm_channel s")
  case Nil
  then have d: "sm_reader_pc s = Rd_done" using r by (auto simp: recv_def split: if_splits)
  with c have "ts = []" by (simp add: complete_def to_come_def reading_def)
  moreover have "pipeline s @ ts = map Inr xs @ [Inl e]" using c p by (auto simp: complete_def)
  ultimately have "map Inr (played_samples s) = map Inr xs @ [Inl e]" using d Nil p by (auto simp: pipeline_def)
  then have "Inl e \<in> set (map Inr (played_samples s))" by simp
  then show ?thesis by auto
next
  case (Cons y rest)
  with r show ?thesis by (auto simp: recv_def)
qed

lemma to_come_cong:
  "sm_reader_pc t = sm_reader_pc s \<Longrightarrow> sm_reader t = sm_reader s \<Longrightarrow> to_come nx e t ts = to_come nx e s ts"
  by (simp add: to_come_def)

lemma complete_moved:
  assumes "complete nx xs e b f ts s" "\<not> ended (sm_pacer s)"
    and "sm_reader_pc t = sm_reader_pc s" "sm_reader t = sm_reader s" "sm_running t = sm_running s"
      "sm_barrier t = sm_barrier s"
    and "next_taken t" "sm_pacer t \<noteq> Pc_join \<longrightarrow> sm_wake t = None" "pacer_ok e f t"
    and "if ended (sm_pacer t) then played_samples t = xs else pipeline t = pipeline s"
  shows "complete nx xs e b f ts t"
  using assms to_come_cong [of t s nx e ts] unfolding complete_def by (simp split: if_splits)

lemma complete_pacer:
  assumes c: "complete nx xs e b f ts s" and st: "pacer_step (Inr ()) s = Some t"
  shows "complete nx xs e b f ts t \<and> (\<not> sm_paused s \<longrightarrow> work ts t < work ts s)"
proof (cases "sm_pacer s")
  case Pc_first
  have n: "sm_next s = None" using c Pc_first by (simp add: complete_def next_taken_def)
  obtain x u where u: "recv s = Some (x, u)" "t = u\<lparr>sm_next := x, sm_pacer := Pc_loop\<rparr>"
    using st Pc_first by (auto simp: pacer_step_def split: option.splits)
  obtain y rest where y: "x = Some y" "sm_channel s = y # rest" "u = s\<lparr>sm_channel := rest\<rparr>"
    using complete_recv [OF c _ n u(1)] Pc_first by blast
  have "complete nx xs e b f ts t"
    using c Pc_first n u(2) y
    by (intro complete_moved [OF c]) (auto simp: complete_def next_taken_def pacer_ok_def at_barrier_def pipeline_def played_samples_def)
  then show ?thesis using Pc_first n u(2) y by (simp add: work_def)
next
  case Pc_loop
  then obtain y where y: "sm_next s = Some y" using c by (auto simp: complete_def pacer_ok_def at_barrier_def)
  have run: "sm_running s" "sm_wake s = None" using c Pc_loop by (auto simp: complete_def)
  have t: "t = pacer_loop s" using st Pc_loop by (simp add: pacer_step_def)
  show ?thesis
  proof (cases "sm_paused s")
    case True
    then have "t = s\<lparr>sm_first := True\<rparr>" using t run by (simp add: pacer_loop_def)
    moreover from this c Pc_loop have "complete nx xs e b f ts t"
      by (intro complete_moved [OF c])
        (auto simp: complete_def next_taken_def pacer_ok_def at_barrier_def pipeline_def played_samples_def)
    ultimately show ?thesis using True by simp
  next
    case False
    show ?thesis
    proof (cases y)
      case (Inl e')
      have p: "pipeline s @ ts = map Inr xs @ [Inl e]" using c Pc_loop by (simp add: complete_def)
      have "map Inr (played_samples s) @ Inl e' # (sm_channel s @ pending_result (sm_reader_pc s) @ ts) =
          map Inr xs @ [Inl e]"
        using p Pc_loop y Inl by (simp add: pipeline_def)
      then have e: "played_samples s = xs" "e' = e" by (auto dest: results_end)
      have "t = s\<lparr>sm_next := None, sm_pacer := Pc_end (Some e)\<rparr>"
        using t run False y Inl e(2) by (simp add: pacer_loop_def)
      then show ?thesis
        using c Pc_loop y e(1) run
        by (intro conjI complete_moved [OF c])
          (auto simp: complete_def next_taken_def pacer_ok_def at_barrier_def played_samples_def work_def)
    next
      case (Inr smp)
      then have "sm_pacer t = (if sm_first s \<and> b then Pc_barrier smp else Pc_send smp)
          \<and> sm_next t = None \<and> sm_wake t = None \<and> sm_played t = sm_played s
          \<and> sm_channel t = sm_channel s \<and> sm_reader_pc t = sm_reader_pc s \<and> sm_reader t = sm_reader s
          \<and> sm_running t \<and> sm_barrier t = b \<and> sm_on_end t = sm_on_end s \<and> sm_calls t = sm_calls s"
        using t run c False y by (simp add: complete_def pacer_loop_def start_slot_def Let_def)
      then show ?thesis
        using c Pc_loop y Inr run
        by (intro conjI complete_moved [OF c])
          (auto simp: complete_def next_taken_def pacer_ok_def at_barrier_def pipeline_def played_samples_def work_def)
    qed
  qed
next
  case (Pc_send x)
  have n: "sm_next s = None" using c Pc_send by (simp add: complete_def next_taken_def)
  obtain b where t: "t = finish_slot b x s" using st Pc_send by (auto simp: pacer_step_def split: if_splits)
  have "sm_pacer t = Pc_join \<and> sm_next t = None \<and> \<not> sm_prefetched t \<and> played_samples t = played_samples s @ [x]
      \<and> sm_channel t = sm_channel s \<and> sm_reader_pc t = sm_reader_pc s \<and> sm_reader t = sm_reader s
      \<and> sm_running t = sm_running s \<and> sm_barrier t = sm_barrier s \<and> sm_on_end t = sm_on_end s \<and> sm_calls t = sm_calls s"
    using t n by (simp add: finish_slot_def played_samples_def Let_def)
  then show ?thesis
    using c Pc_send n
    by (intro conjI complete_moved [OF c])
      (auto simp: complete_def next_taken_def pacer_ok_def at_barrier_def pipeline_def work_def)
next
  case Pc_join
  then have t: "t = s\<lparr>sm_pacer := Pc_loop\<rparr>" "sm_prefetched s" "sm_wake s = None"
    using st by (auto simp: pacer_step_def split: if_splits)
  with c Pc_join show ?thesis
    by (intro conjI complete_moved [OF c])
      (auto simp: complete_def next_taken_def pacer_ok_def at_barrier_def pipeline_def played_samples_def work_def)
next
  case (Pc_end r)
  then have "t = s\<lparr>sm_done := True, sm_on_end := None, sm_pacer := Pc_done, sm_calls := end_calls f e\<rparr>"
    using st c by (auto simp: pacer_step_def complete_def pacer_ok_def at_barrier_def end_calls_def split: option.split)
  with c Pc_end show ?thesis
    by (simp add: complete_def next_taken_def pacer_ok_def at_barrier_def played_samples_def to_come_def work_def)
qed (use st in \<open>simp_all add: pacer_step_def\<close>)

lemma complete_prefetch:
  assumes c: "complete nx xs e b f ts s" and st: "prefetch_step s = Some t"
  shows "complete nx xs e b f ts t \<and> work ts t < work ts s"
proof -
  obtain x u where u: "sm_pacer s = Pc_join" "\<not> sm_prefetched s" "recv s = Some (x, u)"
      "t = u\<lparr>sm_next := x, sm_prefetched := True\<rparr>"
    using st by (auto simp: prefetch_step_def split: if_splits option.splits)
  have n: "sm_next s = None" using c u(1,2) by (simp add: complete_def next_taken_def)
  obtain y rest where y: "x = Some y" "sm_channel s = y # rest" "u = s\<lparr>sm_channel := rest\<rparr>"
    using complete_recv [OF c _ n u(3)] u(1) by blast
  show ?thesis
    using c u(1,2,4) n y
    by (intro conjI complete_moved [OF c])
      (auto simp: complete_def next_taken_def pacer_ok_def at_barrier_def pipeline_def played_samples_def work_def)
qed

lemma complete_wake:
  assumes c: "complete nx xs e b f ts s" and st: "wake_step s = Some t"
  shows "complete nx xs e b f ts t \<and> work ts t < work ts s"
proof -
  have "sm_pacer s = Pc_join" "t = s\<lparr>sm_wake := None\<rparr>" "sm_wake s \<noteq> None"
    using st by (auto simp: wake_step_def split: option.splits if_splits)
  with c show ?thesis
    by (intro conjI complete_moved [OF c])
      (auto simp: complete_def next_taken_def pacer_ok_def at_barrier_def pipeline_def played_samples_def work_def)
qed

lemma complete_barrier:
  assumes c: "complete nx xs e b f ts s" and st: "barrier_step s = Some t"
  shows "complete nx xs e b f ts t \<and> work ts t < work ts s"
proof -
  obtain x where x: "sm_pacer s = Pc_barrier x" "t = start_slot x s"
    using st by (auto simp: barrier_step_def split: pacer_pc.splits)
  with c show ?thesis
    by (intro conjI complete_moved [OF c])
      (auto simp: complete_def start_slot_def next_taken_def pacer_ok_def at_barrier_def pipeline_def
        played_samples_def work_def)
qed

section \<open>The end is reached\<close>

text \<open>The actions of a run in which nobody stops the streamer and nothing fails.\<close>

fun smooth :: "sm_action \<Rightarrow> bool" where
  "smooth (Read_step stalled) = (\<not> stalled)"
| "smooth (Pace_step r) = (r = Inr ())"
| "smooth Stop = False"
| "smooth (On_end f) = False"
| "smooth _ = True"

text \<open>What the tasks and the clock do of their own.\<close>

fun task_action :: "sm_action \<Rightarrow> bool" where
  "task_action (Read_step stalled) = (\<not> stalled)"
| "task_action (Pace_step r) = (r = Inr ())"
| "task_action Prefetch = True"
| "task_action Wake = True"
| "task_action (Tick n) = True"
| "task_action _ = False"

lemma complete_step:
  assumes c: "complete nx xs e b f ts s" and a: "smooth a" "sm_step nx a s = Some t"
  shows "\<exists>ts'. complete nx xs e b f ts' t"
proof (cases a)
  case (Read_step b)
  with a complete_reader [OF c] show ?thesis by auto
next
  case (Pace_step r)
  with a complete_pacer [OF c] show ?thesis by auto
next
  case Prefetch
  with a complete_prefetch [OF c] show ?thesis by auto
next
  case Wake
  with a complete_wake [OF c] show ?thesis by auto
next
  case Barrier_open
  with a complete_barrier [OF c] show ?thesis by auto
qed (use a complete_frame [OF c, of t ts] c in
    \<open>auto simp: sm_call_defs pipeline_def played_samples_def to_come_def complete_def\<close>)

lemma complete_new:
  assumes "drain n nx r = (xs, Some e)"
  shows "\<exists>ts. complete nx xs e b None ts (sm_new r b t)"
    and "\<exists>ts. complete nx xs e b (Some f) ts (sm_set_on_end f (sm_new r b t))"
  using assms
  by (auto intro!: exI [of _ "map Inr xs @ [Inl e]"]
      simp: complete_def to_come_def reading_def next_taken_def pacer_ok_def at_barrier_def pipeline_def
        played_samples_def sm_set_on_end_def sm_new_def)

text \<open>Some task can always run, if need be after the clock, except at the barrier.\<close>

lemma task_progress:
  assumes c: "complete nx xs e b f ts s" and r: "\<not> sm_paused s" and p: "sm_pacer s \<noteq> Pc_done" "\<not> at_barrier s"
  shows "\<exists>as t ts'. list_all task_action as \<and> sm_run nx as s = Some t \<and> complete nx xs e b f ts' t
    \<and> \<not> sm_paused t \<and> work ts' t < work ts s"
proof -
  have one: "\<exists>as t ts'. list_all task_action as \<and> sm_run nx as s = Some t \<and> complete nx xs e b f ts' t
    \<and> \<not> sm_paused t \<and> work ts' t < work ts s"
    if "task_action a" "sm_step nx a s = Some t" "complete nx xs e b f ts' t" "\<not> sm_paused t" "work ts' t < work ts s"
    for a t ts'
    using that by (intro exI [of _ "[a]"] exI [of _ t] exI [of _ ts']) simp
  have reader: ?thesis if st: "reader_step nx False s = Some t" for t
  proof -
    have "\<not> sm_paused t" using st r
      by (cases "sm_reader_pc s") (auto simp: reader_step_def split: if_splits prod.splits)
    with complete_reader [OF c st] p(1) st one [of "Read_step False" t] show ?thesis by auto
  qed
  have stuck: "sm_reader_pc s = Rd_done \<or> sm_channel s \<noteq> []" if "reader_step nx False s = None"
    using that r c p
    by (cases "sm_reader_pc s") (auto simp: reader_step_def complete_def CHANNEL_SIZE_def split: if_splits prod.splits)
  have pacer: ?thesis if st: "pacer_step (Inr ()) s = Some t" for t
  proof -
    have "\<not> sm_paused t" using st r
      by (cases "sm_pacer s")
        (auto simp: pacer_step_def pacer_loop_def start_slot_def finish_slot_def recv_def Let_def
          split: if_splits option.splits list.splits sum.splits)
    with complete_pacer [OF c st] r st one [of "Pace_step (Inr ())" t] show ?thesis by auto
  qed
  show ?thesis
  proof (cases "\<exists>t. reader_step nx False s = Some t \<or> pacer_step (Inr ()) s = Some t")
    case True
    with reader pacer show ?thesis by blast
  next
    case False
    then have rd: "sm_reader_pc s = Rd_done \<or> sm_channel s \<noteq> []" and pn: "pacer_step (Inr ()) s = None"
      using stuck by (metis not_None_eq)+
    have rv: "recv s \<noteq> None" using rd by (cases "sm_channel s") (auto simp: recv_def)
    then have j: "sm_pacer s = Pc_join" "\<not> (sm_prefetched s \<and> sm_wake s = None)"
      using pn p c by (cases "sm_pacer s"; auto simp: pacer_step_def complete_def pacer_ok_def at_barrier_def split: if_splits sum.splits)+
    show ?thesis
    proof (cases "sm_prefetched s")
      case False
      then obtain t where t: "prefetch_step s = Some t" "\<not> sm_paused t"
        using rv j r by (cases "recv s") (auto simp: prefetch_step_def recv_def split: list.splits if_splits)
      with complete_prefetch [OF c t(1)] one [of Prefetch t] show ?thesis by auto
    next
      case True
      then obtain w where w: "sm_wake s = Some w" using j by auto
      let ?u = "s\<lparr>sm_clock := sm_clock s + w\<rparr>"
      have u: "complete nx xs e b f ts ?u"
        using c by (intro complete_frame [OF c]) (auto simp: complete_def to_come_def pipeline_def played_samples_def)
      have "wake_step ?u = Some (?u\<lparr>sm_wake := None\<rparr>)" using w j by (simp add: wake_step_def)
      with complete_wake [OF u this] r show ?thesis
        by (intro exI [of _ "[Tick w, Wake]"]) (auto simp: work_def)
    qed
  qed
qed

lemma sm_run_append: "sm_run nx (as @ bs) s = (case sm_run nx as s of None \<Rightarrow> None | Some t \<Rightarrow> sm_run nx bs t)"
  by (induction as arbitrary: s) (auto split: option.splits)

text \<open>So the tasks come to the end of the stream, or to the barrier.\<close>

lemma runs_on:
  "complete nx xs e b f ts s \<Longrightarrow> \<not> sm_paused s \<Longrightarrow>
     \<exists>bs t ts'. list_all task_action bs \<and> sm_run nx bs s = Some t \<and> complete nx xs e b f ts' t
       \<and> work ts' t \<le> work ts s \<and> (sm_pacer t = Pc_done \<or> at_barrier t)"
proof (induction "work ts s" arbitrary: ts s rule: less_induct)
  case less
  show ?case
  proof (cases "sm_pacer s = Pc_done \<or> at_barrier s")
    case True
    with less.prems show ?thesis by (intro exI [of _ "[]"]) auto
  next
    case False
    obtain as u ts1 where u: "list_all task_action as" "sm_run nx as s = Some u" "complete nx xs e b f ts1 u"
      "\<not> sm_paused u" "work ts1 u < work ts s"
      using task_progress [OF less.prems] False by blast
    from less.hyps [OF u(5,3,4)] obtain bs t ts' where "list_all task_action bs" "sm_run nx bs u = Some t"
      "complete nx xs e b f ts' t" "work ts' t \<le> work ts1 u" "sm_pacer t = Pc_done \<or> at_barrier t" by blast
    with u(1,2,5) show ?thesis by (intro exI [of _ "as @ bs"] exI [of _ t] exI [of _ ts']) (auto simp: sm_run_append)
  qed
qed

lemma runs_to_end:
  assumes "complete nx xs e False f ts s" "\<not> sm_paused s"
  shows "\<exists>bs t ts'. list_all task_action bs \<and> sm_run nx bs s = Some t \<and> complete nx xs e False f ts' t \<and> sm_pacer t = Pc_done"
proof -
  obtain bs t ts' where t: "list_all task_action bs" "sm_run nx bs s = Some t" "complete nx xs e False f ts' t"
    "sm_pacer t = Pc_done \<or> at_barrier t"
    using runs_on [OF assms] by blast
  moreover from t(3) have "\<not> at_barrier t" unfolding complete_def pacer_ok_def by blast
  ultimately show ?thesis by blast
qed

text \<open>
  C10. A stream that is left alone gets to its end.  From every state that a streamer without a
  barrier reaches, through whatever interleaving of its tasks and however often paused, muted
  and resumed, as long as it is not stopped, no read stalls and no frame fails to be sent, it is
  enough to resume it and let the tasks and the clock run on: a finite schedule exists after
  which exactly the frames of the source have been played and the completion callback has been
  called once, with the error that ended the source.
\<close>

theorem stream_completes:
  assumes "drain n nx r = (xs, Some e)"
    and "sm_run nx as (sm_set_on_end f (sm_new r False t)) = Some s" "list_all smooth as"
  shows "\<exists>bs s'. list_all task_action bs \<and> sm_run nx (Resume # bs) s = Some s'
    \<and> sm_pacer s' = Pc_done \<and> map played_sample (sm_played s') = xs \<and> sm_calls s' = [(f, Some e)]"
proof -
  obtain ts0 where "complete nx xs e False (Some f) ts0 (sm_set_on_end f (sm_new r False t))"
    using complete_new(2) [OF assms(1)] by blast
  then have "\<exists>ts. complete nx xs e False (Some f) ts s"
    using sm_run_invariant [of as "\<lambda>s. \<exists>ts. complete nx xs e False (Some f) ts s" nx _ s] complete_step assms(2,3)
    by (metis list.pred_set)
  then obtain ts where "complete nx xs e False (Some f) ts s" by blast
  then obtain ts1 where "complete nx xs e False (Some f) ts1 (sm_resume s)"
    using complete_step [of nx xs e False "Some f" ts s Resume] by auto
  moreover have "\<not> sm_paused (sm_resume s)" by (simp add: sm_resume_def)
  ultimately obtain bs s' ts' where "list_all task_action bs" "sm_run nx bs (sm_resume s) = Some s'"
    "complete nx xs e False (Some f) ts' s'" "sm_pacer s' = Pc_done"
    using runs_to_end by blast
  then show ?thesis
    by (intro exI [of _ bs] exI [of _ s']) (simp add: complete_def pacer_ok_def at_barrier_def played_samples_def)
qed

lemma stream_completes_witness:
  "\<exists>bs s s'. sm_run two_samples [Pause, Tick 4, Resume, Read_step False, Pause]
       (sm_set_on_end ''cb'' (sm_new 0 False 7)) = Some s
     \<and> sm_run two_samples (Resume # bs) s = Some s'
     \<and> map sm_data (map played_sample (sm_played s')) = [[0], [1]] \<and> sm_calls s' = [(''cb'', Some File)]"
proof -
  have d: "drain 3 two_samples 0 =
    ([\<lparr>sm_data = [0], sm_duration = 20000000\<rparr>, \<lparr>sm_data = [1], sm_duration = 20000000\<rparr>], Some File)"
    by (simp add: two_samples_def numeral_3_eq_3)
  obtain s where s: "sm_run two_samples [Pause, Tick 4, Resume, Read_step False, Pause]
      (sm_set_on_end ''cb'' (sm_new 0 False 7)) = Some s"
    by (simp add: sm_new_def sm_task_defs sm_call_defs)
  from stream_completes [OF d s] obtain bs s' where
    "sm_run two_samples (Resume # bs) s = Some s'" "sm_calls s' = [(''cb'', Some File)]"
    "map played_sample (sm_played s') =
       [\<lparr>sm_data = [0], sm_duration = 20000000\<rparr>, \<lparr>sm_data = [1], sm_duration = 20000000\<rparr>]"
    by auto
  then show ?thesis using s
    by (intro exI [of _ bs] exI [of _ s] exI [of _ s']) simp
qed

end
