(* ===== verification/Streamer_Done.thy ===== *)
theory Streamer_Done
  imports Streamer_Live
begin

text \<open>
  \<open>Streamer::done\<close> (\<open>src/media/streamer.rs\<close>): waiting for the end of a streamer.  A caller reads
  \<open>done_flag\<close>, then creates the future of \<open>done_notify\<close> and waits for it; the pacing task sets
  the flag and then wakes the futures that exist.  The callers are kept beside the streamer.
\<close>

section \<open>The callers\<close>

datatype done_waiter = Dn_enter | Dn_checked | Dn_listening | Dn_returned

record 'r watched =
  wt_streamer :: "'r streamer"
  wt_waiters :: "done_waiter list"

definition done_wake :: "done_waiter \<Rightarrow> done_waiter" where
  "done_wake w = (if w = Dn_listening then Dn_returned else w)"

definition done_step :: "nat \<Rightarrow> 'r watched \<Rightarrow> 'r watched option" where
  "done_step i w =
     (if length (wt_waiters w) \<le> i then None
      else case wt_waiters w ! i of
        Dn_enter \<Rightarrow>
          Some (w\<lparr>wt_waiters := (wt_waiters w)[i := if sm_done (wt_streamer w) then Dn_returned else Dn_checked]\<rparr>)
      | Dn_checked \<Rightarrow> Some (w\<lparr>wt_waiters := (wt_waiters w)[i := Dn_listening]\<rparr>)
      | _ \<Rightarrow> None)"

datatype watched_action = Of_streamer sm_action | Done_call | Done_step nat

text \<open>The step of the streamer that sets the flag also notifies.\<close>

fun watched_step ::
  "('r \<Rightarrow> (error + sample) \<times> 'r) \<Rightarrow> watched_action \<Rightarrow> 'r watched \<Rightarrow> 'r watched option" where
  "watched_step nx (Of_streamer a) w =
     (case sm_step nx a (wt_streamer w) of
        None \<Rightarrow> None
      | Some s \<Rightarrow>
          Some (w\<lparr>wt_streamer := s,
                  wt_waiters := (if \<not> sm_done (wt_streamer w) \<and> sm_done s
                                 then map done_wake (wt_waiters w) else wt_waiters w)\<rparr>))"
| "watched_step nx Done_call w = Some (w\<lparr>wt_waiters := wt_waiters w @ [Dn_enter]\<rparr>)"
| "watched_step nx (Done_step i) w = done_step i w"

fun watched_run ::
  "('r \<Rightarrow> (error + sample) \<times> 'r) \<Rightarrow> watched_action list \<Rightarrow> 'r watched \<Rightarrow> 'r watched option" where
  "watched_run nx [] w = Some w"
| "watched_run nx (a # as) w =
     (case watched_step nx a w of None \<Rightarrow> None | Some w' \<Rightarrow> watched_run nx as w')"

lemma watched_run_invariant:
  assumes "\<And>a w w'. a \<in> set as \<Longrightarrow> P w \<Longrightarrow> watched_step nx a w = Some w' \<Longrightarrow> P w'"
    and "P w" "watched_run nx as w = Some w'"
  shows "P w'"
  using assms
proof (induction as arbitrary: w)
  case (Cons a as)
  then obtain u where "watched_step nx a w = Some u" "watched_run nx as u = Some w'"
    by (auto split: option.splits)
  with Cons show ?case by (meson list.set_intros)
qed simp

section \<open>Who returns and who does not\<close>

lemma done_flag_stays: "sm_done s \<Longrightarrow> sm_step nx a s = Some t \<Longrightarrow> sm_done t"
  by (cases a; cases "sm_pacer s"; cases "sm_reader_pc s")
    (auto simp: sm_task_defs sm_call_defs Let_def
      split: if_splits prod.splits option.splits list.splits sum.splits)

text \<open>
  A caller that listens before the end returns with it; one that read the flag before the end
  and listens after it waits for ever, whatever happens.
\<close>

theorem done_lost_wakeup:
  assumes "i < length (wt_waiters w)" "wt_waiters w ! i = Dn_listening"
  shows "(\<not> sm_done (wt_streamer w) \<longrightarrow> watched_step nx (Of_streamer a) w = Some w' \<longrightarrow>
            sm_done (wt_streamer w') \<longrightarrow> wt_waiters w' ! i = Dn_returned)
    \<and> (sm_done (wt_streamer w) \<longrightarrow> watched_run nx as w = Some w'' \<longrightarrow> wt_waiters w'' ! i = Dn_listening)"
proof (intro conjI impI)
  assume "\<not> sm_done (wt_streamer w)" "watched_step nx (Of_streamer a) w = Some w'" "sm_done (wt_streamer w')"
  with assms show "wt_waiters w' ! i = Dn_returned"
    by (auto simp: done_wake_def split: option.splits)
next
  let ?P = "\<lambda>w. i < length (wt_waiters w) \<and> wt_waiters w ! i = Dn_listening \<and> sm_done (wt_streamer w)"
  assume d: "sm_done (wt_streamer w)" "watched_run nx as w = Some w''"
  have "?P w''"
  proof (rule watched_run_invariant [of as ?P nx w])
    fix b u u'
    assume p: "?P u" and st: "watched_step nx b u = Some u'"
    show "?P u'"
    proof (cases b)
      case (Of_streamer c)
      with p st done_flag_stays [of "wt_streamer u" nx c] show ?thesis by (auto split: option.splits)
    next
      case Done_call
      with p st show ?thesis by (auto simp: nth_append)
    next
      case (Done_step j)
      with p st show ?thesis
        by (cases "j = i"; cases "wt_waiters u ! j") (auto simp: done_step_def split: if_splits)
    qed
  qed (use assms d in simp_all)
  then show "wt_waiters w'' ! i = Dn_listening" by simp
qed

lemma done_lost_wakeup_witness:
  "\<exists>w. watched_run two_samples
        [Of_streamer Stop, Done_call, Done_step 0, Of_streamer (Read_step False), Of_streamer (Pace_step (Inr ())),
         Of_streamer (Pace_step (Inr ())), Of_streamer (Pace_step (Inr ())), Done_step 0]
        \<lparr>wt_streamer = sm_new 0 False 0, wt_waiters = []\<rparr> = Some w
     \<and> sm_done (wt_streamer w) \<and> wt_waiters w ! 0 = Dn_listening
     \<and> (\<forall>as w'. watched_run two_samples as w = Some w' \<longrightarrow> wt_waiters w' ! 0 = Dn_listening)"
proof -
  obtain w where w: "watched_run two_samples
        [Of_streamer Stop, Done_call, Done_step 0, Of_streamer (Read_step False), Of_streamer (Pace_step (Inr ())),
         Of_streamer (Pace_step (Inr ())), Of_streamer (Pace_step (Inr ())), Done_step 0]
        \<lparr>wt_streamer = sm_new 0 False 0, wt_waiters = []\<rparr> = Some w"
     "sm_done (wt_streamer w)" "wt_waiters w = [Dn_listening]"
    by (simp add: sm_new_def sm_task_defs sm_call_defs done_step_def done_wake_def)
  then show ?thesis using done_lost_wakeup [of 0 w] by auto
qed

end
