(* ===== verification/Srtp_Keys.thy ===== *)
theory Srtp_Keys
  imports Models
begin

text \<open>
  \<open>src/wrtc/native/keys.rs\<close>: the protection profiles and the cut of the exported DTLS
  keying material into the SRTP master keys and salts of both sides (RFC 5764, section 4.2).
\<close>

definition DTLS_SRTP_EXPORTER_LABEL :: string where
  "DTLS_SRTP_EXPORTER_LABEL = ''EXTRACTOR-dtls_srtp''"

datatype protection_profile = AeadAes128Gcm | Aes128CmHmacSha1_80

fun key_len :: "protection_profile \<Rightarrow> nat" where
  "key_len _ = 16"

fun salt_len :: "protection_profile \<Rightarrow> nat" where
  "salt_len AeadAes128Gcm = 12"
| "salt_len Aes128CmHmacSha1_80 = 14"

text \<open>\<open>slice off n m\<close> is \<open>&m[off..off + n]\<close>, in range here.\<close>

definition slice_at :: "nat \<Rightarrow> nat \<Rightarrow> bytes \<Rightarrow> bytes" where
  "slice_at off n m = take n (drop off m)"

text \<open>The result is \<open>(server_key, server_salt, client_key, client_salt)\<close>.\<close>

definition derive_srtp_keying_material_both ::
  "bytes \<Rightarrow> protection_profile \<Rightarrow> error + bytes \<times> bytes \<times> bytes \<times> bytes" where
  "derive_srtp_keying_material_both material profile =
     (let kl = key_len profile;
          sl = salt_len profile;
          total_len = 2 * (kl + sl)
      in if length material < total_len
         then Inl (InvalidParams ''keying material buffer too small'')
         else
           let off = 0;
               client_key = slice_at off kl material;
               off1 = off + kl;
               server_key = slice_at off1 kl material;
               off2 = off1 + kl;
               client_salt = slice_at off2 sl material;
               off3 = off2 + sl;
               server_salt = slice_at off3 sl material
           in Inr (server_key, server_salt, client_key, client_salt))"

definition derive_srtp_keying_material ::
  "bytes \<Rightarrow> protection_profile \<Rightarrow> error + bytes \<times> bytes" where
  "derive_srtp_keying_material material profile =
     bind_res (derive_srtp_keying_material_both material profile)
       (\<lambda>(server_key, server_salt, _, _). Inr (server_key, server_salt))"

definition hex_digit :: "nat \<Rightarrow> char" where
  "hex_digit d = ''0123456789abcdef'' ! d"

text \<open>\<open>{:04x}\<close> of a 16 bit value.\<close>

definition hex4 :: "u16 \<Rightarrow> string" where
  "hex4 v = (let n = unat v in
     [hex_digit (n div 4096 mod 16), hex_digit (n div 256 mod 16), hex_digit (n div 16 mod 16),
      hex_digit (n mod 16)])"

definition translate_profile :: "u16 \<Rightarrow> error + protection_profile" where
  "translate_profile iana_val =
     (if iana_val = 0x0007 then Inr AeadAes128Gcm
      else if iana_val = 0x0001 then Inr Aes128CmHmacSha1_80
      else Inl (InvalidParams (''unsupported SRTP profile value 0x'' @ hex4 iana_val)))"

section \<open>The cut is the inverse of the layout\<close>

text \<open>The order of RFC 5764: client key, server key, client salt, server salt.\<close>

definition rfc5764_layout :: "bytes \<Rightarrow> bytes \<Rightarrow> bytes \<Rightarrow> bytes \<Rightarrow> bytes" where
  "rfc5764_layout client_key server_key client_salt server_salt =
     client_key @ server_key @ client_salt @ server_salt"

lemma derive_layout:
  assumes "length ck = key_len p" "length sk = key_len p"
    and "length cs = salt_len p" "length ss = salt_len p"
  shows "derive_srtp_keying_material_both (rfc5764_layout ck sk cs ss @ rest) p = Inr (sk, ss, ck, cs)"
  using assms
  by (cases p) (simp_all add: derive_srtp_keying_material_both_def rfc5764_layout_def slice_at_def Let_def)

lemma derive_cases:
  "derive_srtp_keying_material_both m p =
     (if length m < 2 * (16 + salt_len p) then Inl (InvalidParams ''keying material buffer too small'')
      else Inr (take 16 (drop 16 m), take (salt_len p) (drop (16 + 16 + salt_len p) m),
                take 16 m, take (salt_len p) (drop (16 + 16) m)))"
  by (cases p) (simp_all add: derive_srtp_keying_material_both_def slice_at_def Let_def)

lemma take_cut:
  "take a m @ take b (drop a m) @ take c (drop (a + b) m) @ take d (drop (a + b + c) m) =
     take (a + b + c + d) m"
  by (simp add: take_add)

text \<open>
  Keying material that is laid out as RFC 5764 prescribes is cut into exactly the four
  values it was made of, in both profiles and whatever follows it; the sending half of a
  DTLS server is the server's.  The derivation fails exactly when the material is shorter
  than two keys and two salts, so the 60 bytes the transport exports are always enough, and
  what it returns always fills the 16 byte key arrays.
\<close>

theorem keying_material_roundtrip:
  "(length ck = 16 \<and> length sk = 16 \<and> length cs = salt_len p \<and> length ss = salt_len p \<longrightarrow>
      derive_srtp_keying_material_both (rfc5764_layout ck sk cs ss @ rest) p = Inr (sk, ss, ck, cs)
      \<and> derive_srtp_keying_material (rfc5764_layout ck sk cs ss @ rest) p = Inr (sk, ss))
   \<and> (is_ok (derive_srtp_keying_material_both m p) \<longleftrightarrow> 2 * (16 + salt_len p) \<le> length m)
   \<and> 2 * (16 + salt_len p) \<le> 60
   \<and> (\<forall>a b c d. derive_srtp_keying_material_both m p = Inr (a, b, c, d) \<longrightarrow>
        length a = 16 \<and> length c = 16 \<and> rfc5764_layout c a d b = take (2 * (16 + salt_len p)) m)"
proof (intro conjI impI allI)
  assume "length ck = 16 \<and> length sk = 16 \<and> length cs = salt_len p \<and> length ss = salt_len p"
  then show "derive_srtp_keying_material_both (rfc5764_layout ck sk cs ss @ rest) p = Inr (sk, ss, ck, cs)"
    and "derive_srtp_keying_material (rfc5764_layout ck sk cs ss @ rest) p = Inr (sk, ss)"
    by (simp_all add: derive_layout derive_srtp_keying_material_def)
next
  show "is_ok (derive_srtp_keying_material_both m p) \<longleftrightarrow> 2 * (16 + salt_len p) \<le> length m"
    by (simp add: derive_cases not_less)
  show "2 * (16 + salt_len p) \<le> 60" by (cases p) simp_all
  fix a b c d
  assume "derive_srtp_keying_material_both m p = Inr (a, b, c, d)"
  then have len: "\<not> length m < 2 * (16 + salt_len p)"
    and parts: "a = take 16 (drop 16 m)" "b = take (salt_len p) (drop (16 + 16 + salt_len p) m)"
      "c = take 16 m" "d = take (salt_len p) (drop (16 + 16) m)"
    by (simp_all add: derive_cases split: if_splits)
  show "length a = 16" "length c = 16" using len parts by simp_all
  have "16 + 16 + salt_len p + salt_len p = 2 * (16 + salt_len p)" by simp
  then show "rfc5764_layout c a d b = take (2 * (16 + salt_len p)) m"
    using take_cut [of 16 m 16 "salt_len p" "salt_len p"] by (simp only: rfc5764_layout_def parts)
qed

lemma keying_material_roundtrip_witness:
  "derive_srtp_keying_material
     (rfc5764_layout (replicate 16 1) (replicate 16 2) (replicate 12 3) (replicate 12 4) @ replicate 4 0)
     AeadAes128Gcm = Inr (replicate 16 2, replicate 12 4)"
  using keying_material_roundtrip [where ck = "replicate 16 1" and sk = "replicate 16 2"
      and cs = "replicate 12 3" and ss = "replicate 12 4" and p = AeadAes128Gcm
      and rest = "replicate 4 0" and m = "[]"] by simp

end
