(* ===== verification/Signaling.thy ===== *)
theory Signaling
  imports Models
begin

text \<open>
  \<open>src/wrtc/jsonparams/\<close>, \<open>src/wrtc/native/remote.rs\<close> and \<open>src/wrtc/native/signaling.rs\<close>: the
  two JSON envelopes of Telegram's group-call signaling as records, the checks on the one
  that is received, the construction of the one that is sent, and the translation of a
  candidate to a line of SDP.  JSON reading and printing are third-party code (\<open>simd_json\<close>,
  \<open>serde_json\<close>) and parameters here.
\<close>

section \<open>The envelopes (\<open>types.rs\<close>)\<close>

record fingerprint =
  fp_hash :: string
  fp_setup :: string
  fp_fingerprint :: string

record ssrc_group =
  sg_semantics :: string
  sg_sources :: "u32 list"

record rtcp_fb =
  fb_type :: string
  fb_subtype :: string

record payload_type =
  pt_id :: u8
  pt_name :: string
  pt_clockrate :: u32
  pt_channels :: u16
  pt_parameters :: "(string \<rightharpoonup> string) option"
  pt_rtcp_fbs :: "rtcp_fb list"

record rtp_hdr_ext =
  he_id :: u8
  he_uri :: string

record local_params =
  lp_ufrag :: string
  lp_pwd :: string
  lp_fingerprints :: "fingerprint list"
  lp_ssrc_groups :: "ssrc_group list"
  lp_payload_types :: "payload_type list"
  lp_rtp_hdrexts :: "rtp_hdr_ext list"
  lp_ssrc :: u32

record candidate =
  cd_generation :: string
  cd_component :: string
  cd_protocol :: string
  cd_port :: string
  cd_ip :: string
  cd_foundation :: string
  cd_id :: string
  cd_priority :: string
  cd_type :: string
  cd_network :: string
  cd_rel_addr :: string
  cd_rel_port :: string
  cd_tcp_type :: string

record transport =
  tp_ufrag :: string
  tp_pwd :: string
  tp_fingerprints :: "fingerprint list"
  tp_candidates :: "candidate list"

section \<open>Reading (\<open>decode.rs\<close>, \<open>remote.rs\<close>)\<close>

text \<open>The probe: whether the keys \<open>rtmp\<close> and \<open>stream\<close> are null (absent keys are).\<close>

record probe =
  pr_rtmp_null :: bool
  pr_stream_null :: bool

text \<open>The JSON readers the code calls; the error is its printed form.\<close>

record json_reader =
  jr_probe :: "string \<Rightarrow> probe option"
  jr_simd :: "string \<Rightarrow> string + transport"
  jr_serde :: "string \<Rightarrow> string + transport"

definition parse_remote :: "json_reader \<Rightarrow> string \<Rightarrow> error + transport" where
  "parse_remote jr raw =
     (if (case jr_probe jr raw of
            Some p \<Rightarrow> \<not> pr_rtmp_null p \<or> \<not> pr_stream_null p
          | None \<Rightarrow> False)
      then Inl UnsupportedCallMode
      else
        case (case jr_simd jr raw of Inr tp \<Rightarrow> Inr tp | Inl _ \<Rightarrow> jr_serde jr raw) of
          Inl e \<Rightarrow> Inl (InvalidParams (''decode remote params: '' @ e))
        | Inr tp \<Rightarrow>
            if tp_ufrag tp = [] \<or> tp_pwd tp = []
            then Inl (InvalidParams ''remote params missing ice creds'')
            else if tp_fingerprints tp = []
            then Inl (InvalidParams ''remote params missing fingerprint'')
            else Inr tp)"

record remote_params =
  rp_ufrag :: string
  rp_pwd :: string
  rp_fingerprints :: "fingerprint list"
  rp_candidates :: "candidate list"

definition parse_remote_json :: "json_reader \<Rightarrow> string \<Rightarrow> error + remote_params" where
  "parse_remote_json jr raw =
     bind_res (parse_remote jr raw)
       (\<lambda>tp. Inr \<lparr>rp_ufrag = tp_ufrag tp, rp_pwd = tp_pwd tp,
                  rp_fingerprints = tp_fingerprints tp, rp_candidates = tp_candidates tp\<rparr>)"

text \<open>
  What the parser lets through and how it refuses: accepted parameters have non-empty
  ICE credentials and at least one fingerprint; a response for an RTMP or broadcast call is
  \<open>UnsupportedCallMode\<close> whatever else it holds, and every other refusal is
  \<open>InvalidParams\<close>.
\<close>

theorem parse_remote_checked:
  "(case parse_remote_json jr raw of
      Inr rp \<Rightarrow> rp_ufrag rp \<noteq> [] \<and> rp_pwd rp \<noteq> [] \<and> rp_fingerprints rp \<noteq> []
    | Inl e \<Rightarrow> e = UnsupportedCallMode \<or> (\<exists>m. e = InvalidParams m))
   \<and> (parse_remote_json jr raw = Inl UnsupportedCallMode \<longleftrightarrow>
        (\<exists>p. jr_probe jr raw = Some p \<and> \<not> (pr_rtmp_null p \<and> pr_stream_null p)))"
  by (auto simp: parse_remote_json_def parse_remote_def split: option.splits sum.splits)

section \<open>Candidates (\<open>remote.rs\<close>)\<close>

definition or_else :: "string \<Rightarrow> string \<Rightarrow> string" where
  "or_else s d = (if s = [] then d else s)"

definition build_ice_candidate :: "candidate \<Rightarrow> error + string" where
  "build_ice_candidate c =
     (if cd_ip c = [] \<or> cd_port c = [] then Inl (InvalidParams ''candidate missing ip/port'')
      else
        let foundation = or_else (cd_foundation c) ''1'';
            component = or_else (cd_component c) ''1'';
            protocol = or_else (cd_protocol c) ''UDP'';
            priority = or_else (cd_priority c) ''2130706431'';
            cand_type = or_else (cd_type c) ''host'';
            s = foundation @ '' '' @ component @ '' '' @ protocol @ '' '' @ priority @ '' '' @
                cd_ip c @ '' '' @ cd_port c @ '' typ '' @ cand_type;
            s1 = (if cd_rel_addr c \<noteq> [] \<and> cd_rel_port c \<noteq> []
                  then s @ '' raddr '' @ cd_rel_addr c @ '' rport '' @ cd_rel_port c else s);
            s2 = (if cd_generation c \<noteq> [] then s1 @ '' generation '' @ cd_generation c else s1);
            s3 = (if cd_tcp_type c \<noteq> [] then s2 @ '' tcptype '' @ cd_tcp_type c else s2)
        in Inr s3)"

fun words_from :: "string \<Rightarrow> string \<Rightarrow> string list" where
  "words_from w [] = [w]"
| "words_from w (c # s) = (if c = CHR '' '' then w # words_from [] s else words_from (w @ [c]) s)"

definition split_words :: "string \<Rightarrow> string list" where
  "split_words s = words_from [] s"

definition no_space :: "string \<Rightarrow> bool" where
  "no_space s \<longleftrightarrow> CHR '' '' \<notin> set s"

lemma words_from_word: "no_space a \<Longrightarrow> words_from w (a @ s) = words_from (w @ a) s"
  by (induction a arbitrary: w) (auto simp: no_space_def)

lemma words_from_space: "words_from w (CHR '' '' # s) = w # words_from [] s"
  by simp

lemma no_space_consts [simp]:
  "no_space ''1''" "no_space ''UDP''" "no_space ''2130706431''" "no_space ''host''" "no_space ''typ''"
  "no_space ''raddr''" "no_space ''rport''" "no_space ''generation''" "no_space ''tcptype''"
  by (simp_all add: no_space_def)

lemma no_space_or_else: "no_space s \<Longrightarrow> no_space d \<Longrightarrow> no_space (or_else s d)"
  by (simp add: or_else_def)

lemma words_from_end: "no_space a \<Longrightarrow> words_from w a = [w @ a]"
  using words_from_word [of a w "[]"] by simp

definition candidate_words :: "candidate \<Rightarrow> string list" where
  "candidate_words c =
     [or_else (cd_foundation c) ''1'', or_else (cd_component c) ''1'', or_else (cd_protocol c) ''UDP'',
      or_else (cd_priority c) ''2130706431'', cd_ip c, cd_port c, ''typ'', or_else (cd_type c) ''host''] @
     (if cd_rel_addr c \<noteq> [] \<and> cd_rel_port c \<noteq> []
      then [''raddr'', cd_rel_addr c, ''rport'', cd_rel_port c] else []) @
     (if cd_generation c \<noteq> [] then [''generation'', cd_generation c] else []) @
     (if cd_tcp_type c \<noteq> [] then [''tcptype'', cd_tcp_type c] else [])"

fun unwords :: "string list \<Rightarrow> string" where
  "unwords [] = []"
| "unwords [w] = w"
| "unwords (w # ws) = w @ '' '' @ unwords ws"

lemma split_unwords:
  "ws \<noteq> [] \<Longrightarrow> \<forall>w \<in> set ws. no_space w \<Longrightarrow> split_words (unwords ws) = ws"
  unfolding split_words_def
  by (induction ws rule: unwords.induct) (simp_all add: words_from_word words_from_end)

lemma build_ice_candidate_words:
  "cd_ip c \<noteq> [] \<Longrightarrow> cd_port c \<noteq> [] \<Longrightarrow> build_ice_candidate c = Inr (unwords (candidate_words c))"
  by (simp add: build_ice_candidate_def candidate_words_def Let_def)

text \<open>
  The candidate line can be read back: it is refused exactly without an address or a
  port, and otherwise, when no field holds a space, splitting it at the spaces gives the
  fields in the order of the SDP grammar, with the defaults for the empty ones and the
  optional attributes exactly when they are present.
\<close>

theorem ice_candidate_roundtrip:
  assumes "no_space (cd_foundation c)" "no_space (cd_component c)" "no_space (cd_protocol c)"
    and "no_space (cd_priority c)" "no_space (cd_ip c)" "no_space (cd_port c)" "no_space (cd_type c)"
    and "no_space (cd_rel_addr c)" "no_space (cd_rel_port c)" "no_space (cd_generation c)"
    and "no_space (cd_tcp_type c)"
  shows "case build_ice_candidate c of
      Inl e \<Rightarrow> e = InvalidParams ''candidate missing ip/port'' \<and> (cd_ip c = [] \<or> cd_port c = [])
    | Inr line \<Rightarrow> split_words line = candidate_words c"
proof (cases "cd_ip c = [] \<or> cd_port c = []")
  case False
  have "split_words (unwords (candidate_words c)) = candidate_words c"
    by (rule split_unwords) (use assms in \<open>auto simp: candidate_words_def no_space_or_else\<close>)
  with False show ?thesis by (simp add: build_ice_candidate_words)
qed (auto simp: build_ice_candidate_def)

definition example_candidate :: candidate where
  "example_candidate = \<lparr>cd_generation = ''0'', cd_component = ''1'', cd_protocol = ''udp'',
     cd_port = ''32001'', cd_ip = ''91.108.9.1'', cd_foundation = [], cd_id = ''x'', cd_priority = [],
     cd_type = ''host'', cd_network = ''0'', cd_rel_addr = [], cd_rel_port = [], cd_tcp_type = []\<rparr>"

lemma ice_candidate_roundtrip_witness:
  "case build_ice_candidate example_candidate of
     Inr line \<Rightarrow> split_words line = [''1'', ''1'', ''udp'', ''2130706431'', ''91.108.9.1'', ''32001'',
       ''typ'', ''host'', ''generation'', ''0'']
   | Inl e \<Rightarrow> False"
proof -
  have "\<exists>line. build_ice_candidate example_candidate = Inr line"
    by (simp add: build_ice_candidate_words example_candidate_def)
  then show ?thesis
    using ice_candidate_roundtrip [of example_candidate]
    by (auto simp: example_candidate_def no_space_def candidate_words_def or_else_def)
qed

section \<open>The local envelope (\<open>signaling.rs\<close>)\<close>

definition EXT_AUDIO_LEVEL_ID :: u8 where "EXT_AUDIO_LEVEL_ID = 1"
definition EXT_ABS_SEND_TIME_ID :: u8 where "EXT_ABS_SEND_TIME_ID = 2"
definition EXT_TRANSPORT_CC_ID :: u8 where "EXT_TRANSPORT_CC_ID = 3"
definition EXT_SDES_MID_ID :: u8 where "EXT_SDES_MID_ID = 4"
definition EXT_VIDEO_ORIENTATION_ID :: u8 where "EXT_VIDEO_ORIENTATION_ID = 5"

definition URI_AUDIO_LEVEL :: string where
  "URI_AUDIO_LEVEL = ''urn:ietf:params:rtp-hdrext:ssrc-audio-level''"
definition URI_ABS_SEND_TIME :: string where
  "URI_ABS_SEND_TIME = ''http://www.webrtc.org/experiments/rtp-hdrext/abs-send-time''"
definition URI_TRANSPORT_CC :: string where
  "URI_TRANSPORT_CC =
     ''http://www.ietf.org/id/draft-holmer-rmcat-transport-wide-cc-extensions-01''"
definition URI_SDES_MID :: string where
  "URI_SDES_MID = ''urn:ietf:params:rtp-hdrext:sdes:mid''"
definition URI_VIDEO_ORIENTATION :: string where
  "URI_VIDEO_ORIENTATION = ''urn:3gpp:video-orientation''"

lemmas ext_ids = EXT_AUDIO_LEVEL_ID_def EXT_ABS_SEND_TIME_ID_def EXT_TRANSPORT_CC_ID_def
  EXT_SDES_MID_ID_def EXT_VIDEO_ORIENTATION_ID_def

definition opus_params :: "string \<rightharpoonup> string" where
  "opus_params =
     [''minptime'' \<mapsto> ''10'', ''useinbandfec'' \<mapsto> ''1'', ''stereo'' \<mapsto> ''1'',
      ''sprop-stereo'' \<mapsto> ''1'', ''maxaveragebitrate'' \<mapsto> ''510000'']"

definition local_ssrc_groups :: "u32 \<Rightarrow> ssrc_group list" where
  "local_ssrc_groups video_ssrc =
     (if video_ssrc \<noteq> 0
      then [\<lparr>sg_semantics = ''FID'', sg_sources = [video_ssrc, video_ssrc + 1]\<rparr>] else [])"

definition local_payload_types :: "payload_type list" where
  "local_payload_types =
     [\<lparr>pt_id = OPUS_PAYLOAD_TYPE, pt_name = ''opus'', pt_clockrate = OPUS_SAMPLE_RATE,
       pt_channels = DEFAULT_CHANNEL_COUNT, pt_parameters = Some opus_params,
       pt_rtcp_fbs = [\<lparr>fb_type = ''transport-cc'', fb_subtype = []\<rparr>]\<rparr>,
      \<lparr>pt_id = VP8_PAYLOAD_TYPE, pt_name = ''VP8'', pt_clockrate = 90000, pt_channels = 0,
       pt_parameters = None,
       pt_rtcp_fbs = [\<lparr>fb_type = ''goog-remb'', fb_subtype = []\<rparr>,
                      \<lparr>fb_type = ''transport-cc'', fb_subtype = []\<rparr>,
                      \<lparr>fb_type = ''ccm'', fb_subtype = ''fir''\<rparr>,
                      \<lparr>fb_type = ''nack'', fb_subtype = []\<rparr>,
                      \<lparr>fb_type = ''nack'', fb_subtype = ''pli''\<rparr>]\<rparr>]"

definition local_rtp_hdrexts :: "rtp_hdr_ext list" where
  "local_rtp_hdrexts =
     [\<lparr>he_id = EXT_AUDIO_LEVEL_ID, he_uri = URI_AUDIO_LEVEL\<rparr>,
      \<lparr>he_id = EXT_ABS_SEND_TIME_ID, he_uri = URI_ABS_SEND_TIME\<rparr>,
      \<lparr>he_id = EXT_TRANSPORT_CC_ID, he_uri = URI_TRANSPORT_CC\<rparr>,
      \<lparr>he_id = EXT_SDES_MID_ID, he_uri = URI_SDES_MID\<rparr>,
      \<lparr>he_id = EXT_VIDEO_ORIENTATION_ID, he_uri = URI_VIDEO_ORIENTATION\<rparr>]"

text \<open>The record that is printed, or why there is none.\<close>

definition build_local_params :: "string \<Rightarrow> string \<Rightarrow> string \<Rightarrow> u32 \<Rightarrow> u32 \<Rightarrow> error + local_params" where
  "build_local_params ufrag pwd fingerprint_sha256 audio_ssrc video_ssrc =
     (if ufrag = [] \<or> pwd = [] \<or> fingerprint_sha256 = []
      then Inl (InvalidParams ''empty ufrag, pwd, or fingerprint'')
      else if audio_ssrc = 0 then Inl (InvalidParams ''audio_ssrc cannot be zero'')
      else Inr \<lparr>lp_ufrag = ufrag, lp_pwd = pwd,
                lp_fingerprints = [\<lparr>fp_hash = ''sha-256'', fp_setup = ''passive'',
                                    fp_fingerprint = fingerprint_sha256\<rparr>],
                lp_ssrc_groups = local_ssrc_groups video_ssrc,
                lp_payload_types = local_payload_types,
                lp_rtp_hdrexts = local_rtp_hdrexts, lp_ssrc = audio_ssrc\<rparr>)"

text \<open>The JSON printers, in the order they are tried.\<close>

record json_writer =
  jw_simd :: "local_params \<Rightarrow> string + string"
  jw_serde :: "local_params \<Rightarrow> string + string"

definition build_local_params_json ::
  "json_writer \<Rightarrow> string \<Rightarrow> string \<Rightarrow> string \<Rightarrow> u32 \<Rightarrow> u32 \<Rightarrow> error + string" where
  "build_local_params_json jw ufrag pwd fp audio_ssrc video_ssrc =
     bind_res (build_local_params ufrag pwd fp audio_ssrc video_ssrc)
       (\<lambda>lp. case jw_simd jw lp of
           Inr s \<Rightarrow> Inr s
         | Inl _ \<Rightarrow> (case jw_serde jw lp of Inr s \<Rightarrow> Inr s | Inl e \<Rightarrow> Inl (Internal e)))"

text \<open>
  The envelope that is sent: it is refused exactly for an empty credential or
  fingerprint or a zero audio SSRC.  Otherwise it announces the audio SSRC, two payload
  types and five header extensions with distinct ids, and one group of the video SSRC and
  its retransmission SSRC exactly when there is video; the retransmission SSRC is valid
  (non-zero) except for the one video SSRC \<open>0xFFFFFFFF\<close>.
\<close>

theorem local_params_announce:
  "(is_ok (build_local_params u p f a v) \<longleftrightarrow> u \<noteq> [] \<and> p \<noteq> [] \<and> f \<noteq> [] \<and> a \<noteq> 0)
   \<and> (\<forall>lp. build_local_params u p f a v = Inr lp \<longrightarrow>
        lp_ssrc lp = a \<and> lp_ufrag lp = u \<and> lp_pwd lp = p
        \<and> map pt_id (lp_payload_types lp) = [111, 100]
        \<and> map he_id (lp_rtp_hdrexts lp) = [1, 2, 3, 4, 5]
        \<and> concat (map sg_sources (lp_ssrc_groups lp)) = (if v = 0 then [] else [v, v + 1]))
   \<and> (v + 1 = 0 \<longleftrightarrow> v = 0xFFFFFFFF)"
proof -
  have "(- 1 :: u32) = 0xFFFFFFFF" by simp
  then have "v + 1 = 0 \<longleftrightarrow> v = 0xFFFFFFFF" by (metis eq_neg_iff_add_eq_0)
  then show ?thesis
    by (simp add: build_local_params_def local_ssrc_groups_def local_payload_types_def
        local_rtp_hdrexts_def media_consts ext_ids)
qed

lemma local_params_announce_witness:
  "case build_local_params ''u'' ''p'' ''f'' 7 8 of
     Inr lp \<Rightarrow> concat (map sg_sources (lp_ssrc_groups lp)) = [8, 9] | Inl e \<Rightarrow> False"
proof -
  have "is_ok (build_local_params ''u'' ''p'' ''f'' 7 8)"
    using local_params_announce [of "''u''" "''p''" "''f''" 7 8] by simp
  then show ?thesis
    using local_params_announce [of "''u''" "''p''" "''f''" 7 8]
    by (cases "build_local_params ''u'' ''p'' ''f'' 7 8") simp_all
qed

end
