(* ===== verification/Net_Addr.thy ===== *)
theory Net_Addr
  imports Models
begin

text \<open>
  The two parsers of Rust's standard library that the transport applies to a candidate:
  \<open>str::parse::<IpAddr>()\<close> (\<open>core::net::parser\<close>) and \<open>str::parse::<u16>()\<close>, and
  \<open>eq_ignore_ascii_case\<close>.  A reader takes the text and returns what it read with the rest,
  or \<open>None\<close> with nothing consumed (\<open>read_atomically\<close>).
\<close>

datatype ip_addr = V4 "nat list" | V6 "nat list"

record socket_addr =
  sa_ip :: ip_addr
  sa_port :: nat

fun is_ipv4 :: "ip_addr \<Rightarrow> bool" where
  "is_ipv4 (V4 _) = True"
| "is_ipv4 (V6 _) = False"

section \<open>Numbers\<close>

definition to_digit :: "nat \<Rightarrow> char \<Rightarrow> nat option" where
  "to_digit radix c =
     (let n = (of_char c :: nat);
          d = (if 48 \<le> n \<and> n \<le> 57 then n - 48
               else if 97 \<le> n \<and> n \<le> 122 then n - 87
               else if 65 \<le> n \<and> n \<le> 90 then n - 55
               else radix)
      in if d < radix then Some d else None)"

text \<open>The digits at the front, as a value, with their number.\<close>

fun read_digits :: "nat \<Rightarrow> nat \<Rightarrow> nat \<Rightarrow> string \<Rightarrow> nat \<times> nat \<times> string" where
  "read_digits radix v k [] = (v, k, [])"
| "read_digits radix v k (c # s) =
     (case to_digit radix c of
        Some d \<Rightarrow> read_digits radix (v * radix + d) (k + 1) s
      | None \<Rightarrow> (v, k, c # s))"

definition read_number :: "nat \<Rightarrow> nat \<Rightarrow> nat \<Rightarrow> bool \<Rightarrow> string \<Rightarrow> (nat \<times> string) option" where
  "read_number radix max_digits limit allow_zero_prefix s =
     (case read_digits radix 0 0 s of
        (v, k, rest) \<Rightarrow>
          if k = 0 \<or> max_digits < k \<or> limit \<le> v
             \<or> (\<not> allow_zero_prefix \<and> hd s = CHR ''0'' \<and> 1 < k)
          then None else Some (v, rest))"

text \<open>\<open>read_separator\<close>: the separator before every element but the first.\<close>

definition read_separator ::
  "char \<Rightarrow> nat \<Rightarrow> (string \<Rightarrow> ('a \<times> string) option) \<Rightarrow> string \<Rightarrow> ('a \<times> string) option" where
  "read_separator sep i inner s =
     (if 0 < i then (case s of c # s' \<Rightarrow> if c = sep then inner s' else None | [] \<Rightarrow> None) else inner s)"

section \<open>IPv4\<close>

definition read_octet :: "nat \<Rightarrow> string \<Rightarrow> (nat \<times> string) option" where
  "read_octet i = read_separator (CHR ''.'') i (read_number 10 3 256 False)"

fun read_octets :: "nat \<Rightarrow> nat \<Rightarrow> string \<Rightarrow> (nat list \<times> string) option" where
  "read_octets 0 i s = Some ([], s)"
| "read_octets (Suc n) i s =
     (case read_octet i s of
        None \<Rightarrow> None
      | Some (v, s1) \<Rightarrow>
          (case read_octets n (i + 1) s1 of None \<Rightarrow> None | Some (vs, s2) \<Rightarrow> Some (v # vs, s2)))"

definition read_ipv4 :: "string \<Rightarrow> (nat list \<times> string) option" where
  "read_ipv4 s = read_octets 4 0 s"

section \<open>IPv6\<close>

text \<open>
  \<open>read_groups\<close> on a slice of \<open>limit\<close> slots, from slot \<open>i\<close>: the groups read, whether they
  end in an embedded IPv4 address, and the rest.
\<close>

fun read_groups :: "nat \<Rightarrow> nat \<Rightarrow> nat \<Rightarrow> string \<Rightarrow> nat list \<times> bool \<times> string" where
  "read_groups 0 i limit s = ([], False, s)"
| "read_groups (Suc n) i limit s =
     (case (if i < limit - 1 then read_separator (CHR '':'') i read_ipv4 s else None) of
        Some (v4, s1) \<Rightarrow> ([v4 ! 0 * 256 + v4 ! 1, v4 ! 2 * 256 + v4 ! 3], True, s1)
      | None \<Rightarrow>
          (case read_separator (CHR '':'') i (read_number 16 4 65536 True) s of
             None \<Rightarrow> ([], False, s)
           | Some (g, s1) \<Rightarrow>
               (case read_groups n (i + 1) limit s1 of (gs, b, s2) \<Rightarrow> (g # gs, b, s2))))"

definition read_ipv6 :: "string \<Rightarrow> (nat list \<times> string) option" where
  "read_ipv6 s =
     (case read_groups 8 0 8 s of
        (head, head_ipv4, s1) \<Rightarrow>
          if length head = 8 then Some (head, s1)
          else if head_ipv4 then None
          else case s1 of
            c1 # c2 # s2 \<Rightarrow>
              if c1 = CHR '':'' \<and> c2 = CHR '':'' then
                let limit = 8 - (length head + 1) in
                case read_groups limit 0 limit s2 of
                  (tail, _, s3) \<Rightarrow> Some (head @ replicate (8 - length tail - length head) 0 @ tail, s3)
              else None
          | _ \<Rightarrow> None)"

section \<open>Addresses, ports, protocols\<close>

definition parse_ip :: "string \<Rightarrow> ip_addr option" where
  "parse_ip s =
     (case (case read_ipv4 s of
              Some (v, r) \<Rightarrow> Some (V4 v, r)
            | None \<Rightarrow> (case read_ipv6 s of Some (v, r) \<Rightarrow> Some (V6 v, r) | None \<Rightarrow> None)) of
        Some (ip, []) \<Rightarrow> Some ip
      | _ \<Rightarrow> None)"

text \<open>\<open>u16\<close>: an optional plus sign, at least one digit, nothing else, at most 65535.\<close>

definition parse_u16 :: "string \<Rightarrow> nat option" where
  "parse_u16 s =
     (let body = (if s \<noteq> [] \<and> hd s = CHR ''+'' then tl s else s)
      in case read_digits 10 0 0 body of
           (v, k, rest) \<Rightarrow> if k = 0 \<or> rest \<noteq> [] \<or> 65536 \<le> v then None else Some v)"

definition to_lower :: "char \<Rightarrow> char" where
  "to_lower c = (let n = (of_char c :: nat) in if 65 \<le> n \<and> n \<le> 90 then char_of (n + 32) else c)"

definition eq_ignore_ascii_case :: "string \<Rightarrow> string \<Rightarrow> bool" where
  "eq_ignore_ascii_case a b \<longleftrightarrow> map to_lower a = map to_lower b"

section \<open>Printed addresses and ports are read back\<close>

lemma to_digit_char: "d < 10 \<Longrightarrow> to_digit 10 (digit_char d) = Some d"
  by (simp add: to_digit_def of_char_digit)

lemma read_digits_dec:
  "read_digits 10 v k (dec n @ s) = read_digits 10 (v * 10 ^ length (dec n) + n) (k + length (dec n)) s"
proof (induction n arbitrary: v k s rule: dec.induct)
  case (1 n)
  show ?case
  proof (cases "n < 10")
    case True
    then show ?thesis by (simp add: dec.simps [of n] to_digit_char)
  next
    case False
    have "dec n @ s = dec (n div 10) @ (digit_char (n mod 10) # s)"
      using False by (simp add: dec.simps [of n])
    moreover have "length (dec n) = Suc (length (dec (n div 10)))"
      using False by (simp add: dec.simps [of n])
    moreover have "(v * 10 ^ length (dec (n div 10)) + n div 10) * 10 + n mod 10 =
      v * 10 ^ Suc (length (dec (n div 10))) + n" by simp
    ultimately show ?thesis
      using 1 [OF False, of v k "digit_char (n mod 10) # s"] by (simp add: to_digit_char algebra_simps)
  qed
qed

lemma length_dec: "n < 10 ^ Suc k \<Longrightarrow> length (dec n) \<le> Suc k"
proof (induction k arbitrary: n)
  case 0
  then show ?case by (simp add: dec.simps [of n])
next
  case (Suc k)
  show ?case
  proof (cases "n < 10")
    case False
    have "n div 10 < 10 ^ Suc k" using Suc.prems by simp
    then have "length (dec (n div 10)) \<le> Suc k" by (rule Suc.IH)
    with False show ?thesis by (simp add: dec.simps [of n])
  qed (simp add: dec.simps [of n])
qed

lemma hd_dec: "0 < n \<Longrightarrow> hd (dec n) \<noteq> CHR ''0''"
proof (induction n rule: dec.induct)
  case (1 n)
  show ?case
  proof (cases "n < 10")
    case True
    then have "hd (dec n) = digit_char n" by (simp add: dec.simps [of n])
    moreover have "(of_char (digit_char n) :: nat) \<noteq> of_char (CHR ''0'')"
      using True 1(2) by (simp add: of_char_digit)
    ultimately show ?thesis by metis
  next
    case False
    with 1 have "hd (dec (n div 10)) \<noteq> CHR ''0''" by simp
    with False dec_nonempty [of "n div 10"] show ?thesis by (simp add: dec.simps [of n])
  qed
qed

lemma dec_0: "length (dec 0) = 1"
  by (simp add: dec.simps)

definition stops :: "string \<Rightarrow> bool" where
  "stops s \<longleftrightarrow> (s = [] \<or> to_digit 10 (hd s) = None)"

lemma read_digits_stops: "stops s \<Longrightarrow> read_digits 10 v k s = (v, k, s)"
  by (cases s) (auto simp: stops_def)

lemma read_number_dec:
  assumes "n < 256" "stops s"
  shows "read_number 10 3 256 False (dec n @ s) = Some (n, s)"
proof -
  have "length (dec n) \<le> 3" using assms(1) length_dec [of n 2] by simp
  moreover have "1 < length (dec n) \<Longrightarrow> hd (dec n) \<noteq> CHR ''0''"
    using hd_dec [of n] dec_0 by (cases "n = 0") auto
  ultimately show ?thesis
    using assms dec_nonempty [of n]
    by (auto simp: read_number_def read_digits_dec read_digits_stops)
qed

lemma stops_dot: "stops (CHR ''.'' # s)" "stops []"
  by (simp_all add: stops_def to_digit_def Let_def)

definition show_ipv4 :: "nat \<Rightarrow> nat \<Rightarrow> nat \<Rightarrow> nat \<Rightarrow> string" where
  "show_ipv4 a b c d = dec a @ ''.'' @ dec b @ ''.'' @ dec c @ ''.'' @ dec d"

lemma address_roundtrip_ipv4:
  assumes "a < 256" "b < 256" "c < 256" "d < 256"
  shows "parse_ip (show_ipv4 a b c d) = Some (V4 [a, b, c, d])"
proof -
  have four: "4 = Suc (Suc (Suc (Suc 0)))" by simp
  have "read_ipv4 (show_ipv4 a b c d) = Some ([a, b, c, d], [])"
    using assms read_number_dec [of d "[]"]
    by (simp add: read_ipv4_def show_ipv4_def four read_octet_def read_separator_def
        read_number_dec stops_dot)
  then show ?thesis by (simp add: parse_ip_def)
qed

text \<open>
  Every printed IPv4 address and every printed port is read back, and reading a port is
  bounded: a number from 65536 on, or an empty text, is refused.
\<close>

theorem address_roundtrip:
  "(a < 256 \<and> b < 256 \<and> c < 256 \<and> d < 256 \<longrightarrow> parse_ip (show_ipv4 a b c d) = Some (V4 [a, b, c, d]))
   \<and> parse_u16 (dec n) = (if n < 65536 then Some n else None)
   \<and> parse_u16 [] = None"
proof (intro conjI impI)
  assume "a < 256 \<and> b < 256 \<and> c < 256 \<and> d < 256"
  then show "parse_ip (show_ipv4 a b c d) = Some (V4 [a, b, c, d])"
    by (simp add: address_roundtrip_ipv4)
next
  have "hd (dec n) \<noteq> CHR ''+''"
  proof (induction n rule: dec.induct)
    case (1 n)
    have "digit_char m \<noteq> CHR ''+''" if "m < 10" for m
    proof -
      have "(of_char (digit_char m) :: nat) \<noteq> of_char (CHR ''+'')" using that by (simp add: of_char_digit)
      then show ?thesis by metis
    qed
    with 1 dec_nonempty [of "n div 10"] show ?case by (cases "n < 10") (simp_all add: dec.simps [of n])
  qed
  then show "parse_u16 (dec n) = (if n < 65536 then Some n else None)"
    using read_digits_dec [of 0 0 n "[]"] dec_nonempty [of n]
    by (simp add: parse_u16_def)
qed (simp add: parse_u16_def)

lemma address_roundtrip_witness:
  "parse_ip (show_ipv4 91 108 9 1) = Some (V4 [91, 108, 9, 1]) \<and> parse_u16 (dec 32001) = Some 32001"
  using address_roundtrip [of 91 108 9 1 32001] by simp

end
