(* ===== verification/Direct_Transport.thy ===== *)
theory Direct_Transport
  imports Srtp_Keys Signaling Net_Addr Frame_Reader
begin

unbundle bit_operations_syntax

text \<open>
  \<open>src/wrtc/native/direct_transport.rs\<close>: the transport of one call, from the choice of the
  server's candidate through the STUN, DTLS and SRTP demultiplexing of the worker task to
  the RTP packets of the media and the RTCP reports.  DTLS, SRTP, STUN, RTCP and the VP8
  payloader are third-party code (crate \<open>rtc\<close>): the record \<open>wire_lib\<close> holds the calls made to
  them.  Datagrams handed to a socket are logged in \<open>dt_wire\<close>, with what they were made of.
\<close>

section \<open>Packets and the libraries\<close>

record rtp_header =
  rh_version :: nat
  rh_payload_type :: u8
  rh_sequence_number :: u16
  rh_timestamp :: u32
  rh_ssrc :: u32
  rh_marker :: bool
  rh_extensions :: "(u8 \<times> bytes) list"

record sender_report =
  sn_ssrc :: u32
  sn_ntp_time :: u64
  sn_rtp_time :: u32
  sn_packet_count :: u32
  sn_octet_count :: u32

datatype datagram =
    Rtp rtp_header bytes bytes      \<comment> \<open>header, payload, what is sent\<close>
  | Rtcp sender_report bytes
  | Stun bytes
  | Dtls bytes

text \<open>
  What the code uses of the libraries.  \<open>'s\<close> is an SRTP context, \<open>'v\<close> the VP8 payloader,
  \<open>'d\<close> the DTLS endpoint; a call that mutates its object returns it.  \<open>wl_dtls_read\<close> gives the
  events (whether each is \<open>HandshakeComplete\<close>) or an error; \<open>wl_dtls_state\<close> the negotiated
  profile (whether it is AES-128-GCM) and the exporter for the label and a length;
  \<open>wl_rtcp_feedback\<close> the packets of a compound (whether each is payload-specific feedback).
\<close>

record ('s, 'v, 'd) wire_lib =
  wl_marshal :: "rtp_header \<Rightarrow> bytes \<Rightarrow> string + bytes"
  wl_encrypt_rtp :: "'s \<Rightarrow> bytes \<Rightarrow> rtp_header \<Rightarrow> (string + bytes) \<times> 's"
  wl_encrypt_rtcp :: "'s \<Rightarrow> bytes \<Rightarrow> bytes option \<times> 's"
  wl_decrypt_rtcp :: "'s \<Rightarrow> bytes \<Rightarrow> bytes option \<times> 's"
  wl_rtcp_feedback :: "bytes \<Rightarrow> bool list option"
  wl_report :: "sender_report \<Rightarrow> string \<Rightarrow> bytes option"
  wl_srtp_new :: "bytes \<Rightarrow> bytes \<Rightarrow> protection_profile \<Rightarrow> 's option"
  wl_vp8_new :: 'v
  wl_vp8_payload :: "'v \<Rightarrow> nat \<Rightarrow> bytes \<Rightarrow> (string + bytes list) \<times> 'v"
  wl_dtls_read :: "'d \<Rightarrow> bytes \<Rightarrow> socket_addr \<Rightarrow> bool list option \<times> 'd"
  wl_dtls_timeout :: "'d \<Rightarrow> 'd"
  wl_dtls_poll :: "'d \<Rightarrow> (bytes \<times> socket_addr) list \<times> 'd"
  wl_dtls_state :: "'d \<Rightarrow> socket_addr \<Rightarrow> (bool \<times> (string \<Rightarrow> nat \<Rightarrow> bytes option)) option"
  wl_stun_decode :: "bytes \<Rightarrow> (bool \<times> bytes) option"
  wl_stun_response :: "bytes \<Rightarrow> socket_addr \<Rightarrow> string \<Rightarrow> bytes option"

section \<open>The transport\<close>

record ('s, 'v) direct_transport =
  dt_ufrag :: string
  dt_pwd :: string
  dt_audio_ssrc :: u32
  dt_video_ssrc :: u32
  dt_fingerprint :: string
  dt_state :: i32
  dt_closed :: bool
  dt_socket :: "nat option"
  dt_remote :: "socket_addr option"
  dt_srtp :: "'s option"
  dt_decrypt :: "'s option"
  dt_audio_seq :: u16
  dt_audio_ts :: u32
  dt_video_seq :: u16
  dt_video_ts :: u32
  dt_payloader :: 'v
  dt_first_audio :: bool
  dt_first_video :: bool
  dt_audio_packets :: u32
  dt_audio_octets :: u32
  dt_video_packets :: u32
  dt_video_octets :: u32
  dt_epoch :: "(nat \<times> u64 \<times> u32 \<times> u32) option"
  dt_last_keyframe :: "bytes option"
  dt_pli_requested :: bool
  dt_wire :: "(nat \<times> socket_addr \<times> datagram) list"

definition BASE64URL_CHARSET :: string where
  "BASE64URL_CHARSET = ''ABCDEFGHIJKLMNOPQRSTUVWXYZabcdefghijklmnopqrstuvwxyz0123456789-_''"

text \<open>The random choices of a new transport, each in the range the code draws it from.\<close>

record random_draw =
  rd_ufrag :: "nat list"
  rd_pwd :: "nat list"
  rd_audio_seq :: u16
  rd_video_seq :: u16

definition random_draw_ok :: "random_draw \<Rightarrow> bool" where
  "random_draw_ok r \<longleftrightarrow>
     length (rd_ufrag r) = 16 \<and> length (rd_pwd r) = 32
     \<and> (\<forall>i \<in> set (rd_ufrag r @ rd_pwd r). i < length BASE64URL_CHARSET)
     \<and> 1000 \<le> rd_audio_seq r \<and> rd_audio_seq r < 5000
     \<and> 1000 \<le> rd_video_seq r \<and> rd_video_seq r < 5000"

definition dt_new_with_ssrc ::
  "('s, 'v, 'd) wire_lib \<Rightarrow> random_draw \<Rightarrow> string \<Rightarrow> u32 \<Rightarrow> u32 \<Rightarrow> ('s, 'v) direct_transport" where
  "dt_new_with_ssrc lib r fingerprint audio_ssrc video_ssrc =
     \<lparr>dt_ufrag = map (nth BASE64URL_CHARSET) (rd_ufrag r),
      dt_pwd = map (nth BASE64URL_CHARSET) (rd_pwd r),
      dt_audio_ssrc = audio_ssrc, dt_video_ssrc = video_ssrc, dt_fingerprint = fingerprint,
      dt_state = conn_state_i32 Connecting, dt_closed = False, dt_socket = None, dt_remote = None,
      dt_srtp = None, dt_decrypt = None, dt_audio_seq = rd_audio_seq r, dt_audio_ts = 0,
      dt_video_seq = rd_video_seq r, dt_video_ts = 0, dt_payloader = wl_vp8_new lib,
      dt_first_audio = True, dt_first_video = True, dt_audio_packets = 0, dt_audio_octets = 0,
      dt_video_packets = 0, dt_video_octets = 0, dt_epoch = None, dt_last_keyframe = None,
      dt_pli_requested = False, dt_wire = []\<rparr>"

definition dt_current_state :: "('s, 'v) direct_transport \<Rightarrow> conn_state" where
  "dt_current_state dt = conn_state_of_i32 Failed (dt_state dt)"

definition dt_build_local_params ::
  "json_writer \<Rightarrow> ('s, 'v) direct_transport \<Rightarrow> error + string" where
  "dt_build_local_params jw dt =
     build_local_params_json jw (dt_ufrag dt) (dt_pwd dt) (dt_fingerprint dt)
       (dt_audio_ssrc dt) (dt_video_ssrc dt)"

definition dt_is_closed :: "('s, 'v) direct_transport \<Rightarrow> bool" where
  "dt_is_closed dt = dt_closed dt"

definition dt_close :: "('s, 'v) direct_transport \<Rightarrow> (error + unit) \<times> ('s, 'v) direct_transport" where
  "dt_close dt =
     (if dt_closed dt then (Inr (), dt)
      else (Inr (), dt\<lparr>dt_closed := True, dt_state := conn_state_i32 Closed, dt_srtp := None,
                       dt_decrypt := None, dt_epoch := None, dt_last_keyframe := None,
                       dt_pli_requested := False, dt_socket := None\<rparr>))"

definition dt_put :: "nat \<Rightarrow> socket_addr \<Rightarrow> datagram \<Rightarrow> ('s, 'v) direct_transport \<Rightarrow> ('s, 'v) direct_transport" where
  "dt_put sock addr d dt = dt\<lparr>dt_wire := dt_wire dt @ [(sock, addr, d)]\<rparr>"

section \<open>Connecting\<close>

text \<open>The usable address of a candidate, if it has one.\<close>

definition candidate_addr :: "candidate \<Rightarrow> socket_addr option" where
  "candidate_addr c =
     (if eq_ignore_ascii_case (cd_protocol c) ''udp'' then
        (case parse_ip (cd_ip c) of
           Some ip \<Rightarrow>
             (let port = (case parse_u16 (cd_port c) of Some p \<Rightarrow> p | None \<Rightarrow> 0)
              in if 0 < port then Some \<lparr>sa_ip = ip, sa_port = port\<rparr> else None)
         | None \<Rightarrow> None)
      else None)"

text \<open>The loop over the candidates; \<open>target\<close> is the variable \<open>target_candidate\<close>.\<close>

fun select_candidate :: "socket_addr option \<Rightarrow> candidate list \<Rightarrow> socket_addr option" where
  "select_candidate target [] = target"
| "select_candidate target (c # cs) =
     (case candidate_addr c of
        Some a \<Rightarrow> if is_ipv4 (sa_ip a) then Some a
                  else if target = None then select_candidate (Some a) cs
                  else select_candidate target cs
      | None \<Rightarrow> select_candidate target cs)"

text \<open>What the operating system and the libraries answer while a connection is set up.\<close>

record 'd connect_env =
  ce_bind :: "bool \<Rightarrow> string + nat"              \<comment> \<open>the socket, for IPv4 or IPv6\<close>
  ce_local_addr :: "string + unit"
  ce_dtls_config :: "string + 'd"
  ce_stun_request :: "string \<Rightarrow> string \<Rightarrow> string + bytes"   \<comment> \<open>user name, password\<close>

text \<open>What the worker task owns.\<close>

record 'd worker =
  wk_socket :: nat
  wk_remote :: socket_addr
  wk_dtls :: 'd
  wk_stun_request :: bytes

text \<open>\<open>connect\<close> up to the spawn of the worker.\<close>

definition dt_connect_start ::
  "json_reader \<Rightarrow> 'd connect_env \<Rightarrow> string \<Rightarrow> ('s, 'v) direct_transport \<Rightarrow>
     (error + 'd worker) \<times> ('s, 'v) direct_transport" where
  "dt_connect_start jr ce remote_json dt =
     (if dt_closed dt then (Inl (Internal ''transport is closed''), dt)
      else
        let dt1 = dt\<lparr>dt_state := conn_state_i32 Connecting\<rparr> in
        case parse_remote_json jr remote_json of
          Inl e \<Rightarrow> (Inl e, dt1)
        | Inr rp \<Rightarrow>
            (case rp_fingerprints rp of
               [] \<Rightarrow> (Inl (InvalidParams ''remote transport missing DTLS fingerprint''), dt1)
             | fp # _ \<Rightarrow>
                 if fp_fingerprint fp = [] then (Inl (InvalidParams ''empty remote DTLS fingerprint''), dt1)
                 else
                   case select_candidate None (rp_candidates rp) of
                     None \<Rightarrow> (Inl (InvalidParams ''no valid remote UDP candidate found''), dt1)
                   | Some remote \<Rightarrow>
                       (case ce_bind ce (is_ipv4 (sa_ip remote)) of
                          Inl e \<Rightarrow> (Inl (Internal (''failed to bind UDP socket: '' @ e)), dt1)
                        | Inr sock \<Rightarrow>
                            (case ce_local_addr ce of
                               Inl e \<Rightarrow> (Inl (Internal (''failed to get local addr: '' @ e)), dt1)
                             | Inr _ \<Rightarrow>
                                 let dt2 = dt1\<lparr>dt_socket := Some sock, dt_remote := Some remote\<rparr> in
                                 case ce_dtls_config ce of
                                   Inl e \<Rightarrow> (Inl (Internal (''failed to build DTLS config: '' @ e)), dt2)
                                 | Inr dtls \<Rightarrow>
                                     (case ce_stun_request ce (rp_ufrag rp @ '':'' @ dt_ufrag dt) (rp_pwd rp) of
                                        Inl e \<Rightarrow> (Inl (Internal (''failed to build STUN binding req: '' @ e)), dt2)
                                      | Inr req \<Rightarrow>
                                          (Inr \<lparr>wk_socket = sock, wk_remote = remote, wk_dtls = dtls,
                                                wk_stun_request = req\<rparr>,
                                           dt_put sock remote (Stun req) dt2))))))"

text \<open>
  The wait for the handshake: the state is tested at once, every 5 ms and at the end of the
  10 s; the result is there when it is \<open>Connected\<close> or the time is over.
\<close>

definition dt_connect_poll :: "bool \<Rightarrow> ('s, 'v) direct_transport \<Rightarrow> (error + unit) option" where
  "dt_connect_poll timed_out dt =
     (if dt_state dt = conn_state_i32 Connected then Some (Inr ())
      else if timed_out
      then Some (Inl (Internal ''timeout waiting for DTLS handshake to complete with Telegram SFU''))
      else None)"

section \<open>Time\<close>

text \<open>The 64 bit NTP timestamp of a Unix time in nanoseconds.\<close>

definition ntp_time :: "nat \<Rightarrow> u64" where
  "ntp_time unix_ns =
     (let ntp_secs = ucast (of_nat (unix_ns div 1000000000) + 2208988800 :: u64) :: u32;
          ntp_frac = ucast (of_nat (unix_ns mod 1000000000) * 4294967296 div 1000000000 :: u64) :: u32
      in push_bit 32 (ucast ntp_secs :: u64) OR (ucast ntp_frac :: u64))"

definition abs_send_time :: "u64 \<Rightarrow> u32" where
  "abs_send_time ntp = ucast ((drop_bit 14 ntp) AND 0x00FFFFFF)"

definition abs_time_bytes :: "u32 \<Rightarrow> bytes" where
  "abs_time_bytes n = [ucast (drop_bit 16 n), ucast (drop_bit 8 n), ucast n]"

text \<open>The clock readings of one call, in the order the code takes them.\<close>

record clock =
  ck_instant :: nat
  ck_epoch :: nat
  ck_report :: nat
  ck_send :: nat

section \<open>Reports\<close>

definition report_of :: "u64 \<Rightarrow> bool \<Rightarrow> ('s, 'v) direct_transport \<Rightarrow> sender_report" where
  "report_of ntp audio dt =
     (if audio
      then \<lparr>sn_ssrc = dt_audio_ssrc dt, sn_ntp_time = ntp, sn_rtp_time = dt_audio_ts dt,
            sn_packet_count = dt_audio_packets dt, sn_octet_count = dt_audio_octets dt\<rparr>
      else \<lparr>sn_ssrc = dt_video_ssrc dt, sn_ntp_time = ntp, sn_rtp_time = dt_video_ts dt,
            sn_packet_count = dt_video_packets dt, sn_octet_count = dt_video_octets dt\<rparr>)"

definition build_compound_sender_report ::
  "('s, 'v, 'd) wire_lib \<Rightarrow> sender_report \<Rightarrow> bytes option" where
  "build_compound_sender_report lib r = wl_report lib r ''rusttgcalls''"

text \<open>\<open>report.as_deref().and_then(|b| srtp_ctx.encrypt_rtcp(b).ok())\<close>\<close>

definition encrypt_report ::
  "('s, 'v, 'd) wire_lib \<Rightarrow> sender_report \<Rightarrow> 's \<Rightarrow> bytes option \<times> 's" where
  "encrypt_report lib r ctx =
     (case build_compound_sender_report lib r of
        None \<Rightarrow> (None, ctx)
      | Some b \<Rightarrow> wl_encrypt_rtcp lib ctx b)"

definition put_report ::
  "(nat \<times> socket_addr) option \<Rightarrow> sender_report \<Rightarrow> bytes option \<Rightarrow>
     ('s, 'v) direct_transport \<Rightarrow> ('s, 'v) direct_transport" where
  "put_report dest r enc dt =
     (case (dest, enc) of
        (Some (sock, addr), Some b) \<Rightarrow> dt_put sock addr (Rtcp r b) dt
      | _ \<Rightarrow> dt)"

text \<open>The two reports, sent to \<open>dest\<close>, when the media epoch is set.\<close>

definition send_reports ::
  "('s, 'v, 'd) wire_lib \<Rightarrow> nat \<Rightarrow> (nat \<times> socket_addr) option \<Rightarrow>
     ('s, 'v) direct_transport \<Rightarrow> ('s, 'v) direct_transport" where
  "send_reports lib now dest dt =
     (if dt_epoch dt = None then dt
      else
        case dt_srtp dt of
          None \<Rightarrow> dt
        | Some ctx \<Rightarrow>
            let ra = report_of (ntp_time now) True dt;
                rv = report_of (ntp_time now) False dt;
                (enc_a, ctx1) = encrypt_report lib ra ctx;
                (enc_v, ctx2) = encrypt_report lib rv ctx1
            in put_report dest rv enc_v (put_report dest ra enc_a (dt\<lparr>dt_srtp := Some ctx2\<rparr>)))"

definition own_dest :: "('s, 'v) direct_transport \<Rightarrow> (nat \<times> socket_addr) option" where
  "own_dest dt =
     (case (dt_socket dt, dt_remote dt) of (Some sock, Some addr) \<Rightarrow> Some (sock, addr) | _ \<Rightarrow> None)"

definition emit_rtcp_sender_reports ::
  "('s, 'v, 'd) wire_lib \<Rightarrow> nat \<Rightarrow> ('s, 'v) direct_transport \<Rightarrow> ('s, 'v) direct_transport" where
  "emit_rtcp_sender_reports lib now dt = send_reports lib now (own_dest dt) dt"

section \<open>Media\<close>

definition reset_media_track_state ::
  "('s, 'v, 'd) wire_lib \<Rightarrow> ('s, 'v) direct_transport \<Rightarrow> ('s, 'v) direct_transport" where
  "reset_media_track_state lib dt =
     dt\<lparr>dt_first_audio := True, dt_first_video := True, dt_last_keyframe := None,
        dt_pli_requested := False, dt_epoch := None, dt_payloader := wl_vp8_new lib\<rparr>"

definition establish_epoch :: "clock \<Rightarrow> ('s, 'v) direct_transport \<Rightarrow> bool \<times> ('s, 'v) direct_transport" where
  "establish_epoch ck dt =
     (case dt_epoch dt of
        None \<Rightarrow> (True, dt\<lparr>dt_epoch := Some (ck_instant ck, ntp_time (ck_epoch ck), dt_audio_ts dt, dt_video_ts dt)\<rparr>)
      | Some _ \<Rightarrow> (False, dt))"

definition audio_ts_inc :: "duration_ns \<Rightarrow> u32" where
  "audio_ts_inc nanos = of_nat (nanos * 48000 div 1000000000)"

definition video_ts_inc :: "duration_ns \<Rightarrow> u32" where
  "video_ts_inc nanos = of_nat ((nanos * 90000 + 500000000) div 1000000000)"

definition audio_header :: "bytes \<Rightarrow> u8 \<Rightarrow> ('s, 'v) direct_transport \<Rightarrow> rtp_header" where
  "audio_header abs_time payload_type dt =
     \<lparr>rh_version = 2, rh_payload_type = payload_type, rh_sequence_number = dt_audio_seq dt,
      rh_timestamp = dt_audio_ts dt, rh_ssrc = dt_audio_ssrc dt, rh_marker = dt_first_audio dt,
      rh_extensions = [(1, [0x80]), (2, abs_time), (4, ascii ''0'')]\<rparr>"

definition send_audio ::
  "('s, 'v, 'd) wire_lib \<Rightarrow> bytes \<Rightarrow> u8 \<Rightarrow> bytes \<Rightarrow> duration_ns \<Rightarrow>
     ('s, 'v) direct_transport \<Rightarrow> (error + unit) \<times> ('s, 'v) direct_transport" where
  "send_audio lib abs_time payload_type payload duration dt =
     (let header = audio_header abs_time payload_type dt;
          dt1 = dt\<lparr>dt_audio_seq := dt_audio_seq dt + 1,
                   dt_audio_ts := dt_audio_ts dt + audio_ts_inc duration, dt_first_audio := False\<rparr>
      in case wl_marshal lib header payload of
           Inl e \<Rightarrow> (Inl (Internal e), dt1)
         | Inr raw \<Rightarrow>
             (case dt_srtp dt1 of
                None \<Rightarrow> (Inr (), dt1)
              | Some ctx \<Rightarrow>
                  (case wl_encrypt_rtp lib ctx raw header of
                     (Inl e, ctx') \<Rightarrow> (Inl (Internal e), dt1\<lparr>dt_srtp := Some ctx'\<rparr>)
                   | (Inr enc, ctx') \<Rightarrow>
                       let dt2 = dt1\<lparr>dt_srtp := Some ctx'\<rparr> in
                       case own_dest dt2 of
                         None \<Rightarrow> (Inr (), dt2)
                       | Some (sock, addr) \<Rightarrow>
                           (Inr (),
                            (dt_put sock addr (Rtp header payload enc) dt2)
                              \<lparr>dt_audio_packets := dt_audio_packets dt2 + 1,
                               dt_audio_octets := dt_audio_octets dt2 + of_nat (length payload)\<rparr>))))"

definition MAX_VP8_PAYLOAD :: nat where "MAX_VP8_PAYLOAD = 1180"

definition video_header :: "bytes \<Rightarrow> u32 \<Rightarrow> u32 \<Rightarrow> u16 \<Rightarrow> bool \<Rightarrow> rtp_header" where
  "video_header abs_time ts ssrc seq is_last =
     \<lparr>rh_version = 2, rh_payload_type = VP8_PAYLOAD_TYPE, rh_sequence_number = seq,
      rh_timestamp = ts, rh_ssrc = ssrc, rh_marker = is_last,
      rh_extensions = [(2, abs_time), (4, ascii ''1''), (5, [0x00])]\<rparr>"

text \<open>
  The loop over the chunks of one frame, with \<open>seq\<close> the counter \<open>video_seq\<close>: the encrypted
  packets, or the error that drops them; the context and the counter keep what was used.
\<close>

fun video_packets ::
  "('s, 'v, 'd) wire_lib \<Rightarrow> bytes \<Rightarrow> u32 \<Rightarrow> u32 \<Rightarrow> bytes list \<Rightarrow> 's \<Rightarrow> u16 \<Rightarrow>
     (error + (rtp_header \<times> bytes \<times> bytes) list) \<times> 's \<times> u16" where
  "video_packets lib abs_time ts ssrc [] ctx seq = (Inr [], ctx, seq)"
| "video_packets lib abs_time ts ssrc (chunk # chunks) ctx seq =
     (let header = video_header abs_time ts ssrc seq (chunks = [])
      in case wl_marshal lib header chunk of
           Inl e \<Rightarrow> (Inl (Internal e), ctx, seq + 1)
         | Inr raw \<Rightarrow>
             (case wl_encrypt_rtp lib ctx raw header of
                (Inl e, ctx') \<Rightarrow> (Inl (Internal e), ctx', seq + 1)
              | (Inr enc, ctx') \<Rightarrow>
                  (case video_packets lib abs_time ts ssrc chunks ctx' (seq + 1) of
                     (Inl e, c, s) \<Rightarrow> (Inl e, c, s)
                   | (Inr ps, c, s) \<Rightarrow> (Inr ((header, chunk, enc) # ps), c, s))))"

definition put_video ::
  "nat \<Rightarrow> socket_addr \<Rightarrow> rtp_header \<times> bytes \<times> bytes \<Rightarrow>
     ('s, 'v) direct_transport \<Rightarrow> ('s, 'v) direct_transport" where
  "put_video sock addr hce dt =
     (case hce of (header, chunk, enc) \<Rightarrow>
        (dt_put sock addr (Rtp header chunk enc) dt)
          \<lparr>dt_video_packets := dt_video_packets dt + 1,
           dt_video_octets := dt_video_octets dt + of_nat (length chunk)\<rparr>)"

definition send_video ::
  "('s, 'v, 'd) wire_lib \<Rightarrow> bytes \<Rightarrow> bytes \<Rightarrow> duration_ns \<Rightarrow>
     ('s, 'v) direct_transport \<Rightarrow> (error + unit) \<times> ('s, 'v) direct_transport" where
  "send_video lib abs_time payload duration dt =
     (let ts = dt_video_ts dt;
          dt1 = dt\<lparr>dt_video_ts := ts + video_ts_inc duration, dt_first_video := False\<rparr>
      in case wl_vp8_payload lib (dt_payloader dt1) MAX_VP8_PAYLOAD payload of
           (Inl e, v) \<Rightarrow> (Inl (Internal e), dt1\<lparr>dt_payloader := v\<rparr>)
         | (Inr chunks, v) \<Rightarrow>
             let dt2 = dt1\<lparr>dt_payloader := v\<rparr> in
             if chunks = [] then (Inr (), dt2)
             else
               case own_dest dt2 of
                 None \<Rightarrow> (Inr (), dt2)
               | Some (sock, addr) \<Rightarrow>
                   (case dt_srtp dt2 of
                      None \<Rightarrow> (Inr (), dt2)
                    | Some ctx \<Rightarrow>
                        (case video_packets lib abs_time ts (dt_video_ssrc dt2) chunks ctx (dt_video_seq dt2) of
                           (Inl e, ctx', seq') \<Rightarrow>
                             (Inl e, dt2\<lparr>dt_srtp := Some ctx', dt_video_seq := seq'\<rparr>)
                         | (Inr ps, ctx', seq') \<Rightarrow>
                             (Inr (), fold (put_video sock addr) ps
                                        (dt2\<lparr>dt_srtp := Some ctx', dt_video_seq := seq'\<rparr>)))))"

definition send_rtp_bytes ::
  "('s, 'v, 'd) wire_lib \<Rightarrow> clock \<Rightarrow> u8 \<Rightarrow> bytes \<Rightarrow> duration_ns \<Rightarrow>
     ('s, 'v) direct_transport \<Rightarrow> (error + unit) \<times> ('s, 'v) direct_transport" where
  "send_rtp_bytes lib ck payload_type payload duration dt =
     (if dt_closed dt then (Inl (Internal ''transport is closed''), dt)
      else
        let (just_started, dt1) = establish_epoch ck dt;
            dt2 = (if just_started then emit_rtcp_sender_reports lib (ck_report ck) dt1 else dt1);
            abs_time = abs_time_bytes (abs_send_time (ntp_time (ck_send ck)))
        in if payload_type = OPUS_PAYLOAD_TYPE
           then send_audio lib abs_time payload_type payload duration dt2
           else send_video lib abs_time payload duration dt2)"

section \<open>The worker\<close>

datatype packet_class = Stun_packet | Dtls_packet | Srtp_packet | Ignored

definition classify :: "bytes \<Rightarrow> packet_class" where
  "classify data =
     (if 20 \<le> length data \<and> take 4 (drop 4 data) = [0x21, 0x12, 0xa4, 0x42] then Stun_packet
      else if 20 \<le> data ! 0 \<and> data ! 0 \<le> 23 then Dtls_packet
      else if 128 \<le> data ! 0 then Srtp_packet
      else Ignored)"

text \<open>\<open>handle_stun_packet\<close>: the answer to a binding request; other messages have none.\<close>

definition handle_stun_packet ::
  "('s, 'v, 'd) wire_lib \<Rightarrow> bytes \<Rightarrow> socket_addr \<Rightarrow> string \<Rightarrow> bytes option" where
  "handle_stun_packet lib data peer local_pwd =
     (case wl_stun_decode lib data of
        None \<Rightarrow> None
      | Some (is_request, transaction) \<Rightarrow>
          if \<not> is_request then None else wl_stun_response lib transaction peer local_pwd)"

text \<open>\<open>derive_srtp_from_dtls\<close>: the encrypting and the decrypting context.\<close>

definition derive_srtp_from_dtls ::
  "('s, 'v, 'd) wire_lib \<Rightarrow> 'd \<Rightarrow> socket_addr \<Rightarrow> ('s \<times> 's \<times> protection_profile) option" where
  "derive_srtp_from_dtls lib dtls peer =
     (case wl_dtls_state lib dtls peer of
        None \<Rightarrow> None
      | Some (is_gcm, exporter) \<Rightarrow>
          let prof = (if is_gcm then AeadAes128Gcm else Aes128CmHmacSha1_80) in
          case exporter DTLS_SRTP_EXPORTER_LABEL 60 of
            None \<Rightarrow> None
          | Some material \<Rightarrow>
              (case derive_srtp_keying_material_both material prof of
                 Inl e \<Rightarrow> None
               | Inr (server_key, server_salt, client_key, client_salt) \<Rightarrow>
                   (case wl_srtp_new lib server_key server_salt prof of
                      None \<Rightarrow> None
                    | Some enc_ctx \<Rightarrow>
                        (case wl_srtp_new lib client_key client_salt prof of
                           None \<Rightarrow> None
                         | Some dec_ctx \<Rightarrow> Some (enc_ctx, dec_ctx, prof)))))"

text \<open>One event of the endpoint: \<open>done\<close> is whether it is \<open>HandshakeComplete\<close>.\<close>

definition dtls_event ::
  "('s, 'v, 'd) wire_lib \<Rightarrow> 'd \<Rightarrow> socket_addr \<Rightarrow> bool \<Rightarrow>
     ('s, 'v) direct_transport \<Rightarrow> ('s, 'v) direct_transport" where
  "dtls_event lib dtls peer completed dt =
     (if \<not> completed then dt
      else case derive_srtp_from_dtls lib dtls peer of
             None \<Rightarrow> dt
           | Some (enc_ctx, dec_ctx, _) \<Rightarrow>
               if dt_srtp dt = None
               then dt\<lparr>dt_srtp := Some enc_ctx, dt_decrypt := Some dec_ctx, dt_state := conn_state_i32 Connected\<rparr>
               else dt)"

definition put_all ::
  "nat \<Rightarrow> (bytes \<times> socket_addr) list \<Rightarrow> ('s, 'v) direct_transport \<Rightarrow> ('s, 'v) direct_transport" where
  "put_all sock txs dt = fold (\<lambda>(msg, target). dt_put sock target (Dtls msg)) txs dt"

definition handle_dtls_packet ::
  "('s, 'v, 'd) wire_lib \<Rightarrow> bytes \<Rightarrow> socket_addr \<Rightarrow> 'd \<Rightarrow> ('s, 'v) direct_transport \<Rightarrow>
     (bytes \<times> socket_addr) list \<times> 'd \<times> ('s, 'v) direct_transport" where
  "handle_dtls_packet lib data peer dtls dt =
     (case wl_dtls_read lib dtls data peer of
        (None, dtls1) \<Rightarrow> ([], dtls1, dt)
      | (Some events, dtls1) \<Rightarrow>
          (case wl_dtls_poll lib dtls1 of
             (txs, dtls2) \<Rightarrow> (txs, dtls2, fold (dtls_event lib dtls2 peer) events dt)))"

text \<open>An incoming SRTCP packet: any payload-specific feedback requests a key frame.\<close>

definition handle_srtp_packet ::
  "('s, 'v, 'd) wire_lib \<Rightarrow> bytes \<Rightarrow> ('s, 'v) direct_transport \<Rightarrow> ('s, 'v) direct_transport" where
  "handle_srtp_packet lib data dt =
     (case dt_decrypt dt of
        None \<Rightarrow> dt
      | Some ctx \<Rightarrow>
          (case wl_decrypt_rtcp lib ctx data of
             (None, ctx') \<Rightarrow> dt\<lparr>dt_decrypt := Some ctx'\<rparr>
           | (Some rtcp, ctx') \<Rightarrow>
               (case wl_rtcp_feedback lib rtcp of
                  Some pkts \<Rightarrow> dt\<lparr>dt_decrypt := Some ctx',
                                  dt_pli_requested := (dt_pli_requested dt \<or> True \<in> set pkts)\<rparr>
                | None \<Rightarrow> dt\<lparr>dt_decrypt := Some ctx'\<rparr>)))"

text \<open>What the \<open>select!\<close> of the worker can be woken by.\<close>

datatype worker_event = Dtls_tick | Stun_tick | Rtcp_tick nat | Datagram bytes socket_addr

text \<open>One round of the worker's loop after its test of \<open>closed\<close>.\<close>

definition worker_handle ::
  "('s, 'v, 'd) wire_lib \<Rightarrow> worker_event \<Rightarrow> 'd worker \<times> ('s, 'v) direct_transport \<Rightarrow>
     'd worker \<times> ('s, 'v) direct_transport" where
  "worker_handle lib ev wd =
     (let wk = fst wd; dt = snd wd in
      case ev of
        Dtls_tick \<Rightarrow>
          if dt_state dt \<noteq> conn_state_i32 Connected then
            (case wl_dtls_poll lib (wl_dtls_timeout lib (wk_dtls wk)) of
               (txs, d) \<Rightarrow> (wk\<lparr>wk_dtls := d\<rparr>, put_all (wk_socket wk) txs dt))
          else (wk, dt)
      | Stun_tick \<Rightarrow> (wk, dt_put (wk_socket wk) (wk_remote wk) (Stun (wk_stun_request wk)) dt)
      | Rtcp_tick now \<Rightarrow> (wk, send_reports lib now (Some (wk_socket wk, wk_remote wk)) dt)
      | Datagram data peer \<Rightarrow>
          if data = [] then (wk, dt)
          else
            case classify data of
              Stun_packet \<Rightarrow>
                (case handle_stun_packet lib data peer (dt_pwd dt) of
                   Some resp \<Rightarrow> (wk, dt_put (wk_socket wk) peer (Stun resp) dt)
                 | None \<Rightarrow> (wk, dt))
            | Dtls_packet \<Rightarrow>
                (case handle_dtls_packet lib data peer (wk_dtls wk) dt of
                   (txs, d, dt') \<Rightarrow> (wk\<lparr>wk_dtls := d\<rparr>, put_all (wk_socket wk) txs dt'))
            | Srtp_packet \<Rightarrow> (wk, handle_srtp_packet lib data dt)
            | Ignored \<Rightarrow> (wk, dt))"

text \<open>A whole round: the worker ends when the flag is set.\<close>

definition worker_round ::
  "('s, 'v, 'd) wire_lib \<Rightarrow> worker_event \<Rightarrow> 'd worker \<times> ('s, 'v) direct_transport \<Rightarrow>
     ('d worker \<times> ('s, 'v) direct_transport) option" where
  "worker_round lib ev wd = (if dt_closed (snd wd) then None else Some (worker_handle lib ev wd))"

section \<open>The clock on the wire\<close>

lemma join32: "unat (push_bit 32 (ucast (a :: u32) :: u64) OR (ucast (b :: u32) :: u64)) = unat a * 2 ^ 32 + unat b"
proof -
  have "unat (push_bit 32 (ucast a :: u64)) = take_bit 64 (push_bit 32 (unat (ucast a :: u64)))"
    by (simp only: unsigned_push_bit_eq) simp
  moreover have "push_bit 32 (unat a) < 2 ^ 64"
    using unat_u32_less [of a] by (simp add: push_bit_eq_mult)
  ultimately have "unat (push_bit 32 (ucast a :: u64)) = push_bit 32 (unat a)"
    by (simp only: unat_ucast_u32_u64 take_bit_nat_eq_self)
  moreover have "unat (ucast b :: u64) = unat b" by simp
  moreover have "push_bit 32 (unat a) OR unat b = push_bit 32 (unat a) + unat b"
  proof (rule disjunctive_add_eq_or [symmetric])
    show "push_bit 32 (unat a) AND unat b = 0"
      by (rule bit_eqI) (auto simp: bit_simps dest: bit_imp_le_length)
  qed
  ultimately show ?thesis by (simp only: unsigned_or_eq) (simp add: push_bit_eq_mult)
qed

lemma unat_abs_send_time: "unat (abs_send_time ntp) = unat ntp div 2 ^ 14 mod 2 ^ 24"
proof -
  have m: "(0x00FFFFFF :: u64) = mask 24" by (simp add: mask_eq_exp_minus_1)
  have "drop_bit 14 ntp AND 0x00FFFFFF = take_bit 24 (drop_bit 14 ntp)"
    by (simp only: m take_bit_eq_mask)
  moreover have "unat (take_bit 24 (drop_bit 14 ntp)) = unat ntp div 2 ^ 14 mod 2 ^ 24"
    by (simp only: unsigned_take_bit_eq unat_drop_bit_eq) (simp add: take_bit_eq_mod drop_bit_eq_div)
  moreover have "unat ntp div 2 ^ 14 mod 2 ^ 24 < 2 ^ LENGTH(32)" by (simp add: less_le_trans [OF mod_less_divisor])
  ultimately show ?thesis
    by (simp only: abs_send_time_def unat_ucast_id)
qed

lemma unat_ntp_time:
  "unat (ntp_time t) = (t div 1000000000 + 2208988800) mod 2 ^ 32 * 2 ^ 32
     + (t mod 1000000000) * 2 ^ 32 div 1000000000"
proof -
  let ?n = "t mod 1000000000"
  have "unat (ucast (of_nat k :: u64) :: u32) = k mod 2 ^ 32" for k
    by (simp add: unsigned_ucast_eq unat_of_nat take_bit_eq_mod mod_mod_cancel)
  from this [of "t div 1000000000 + 2208988800"]
  have "unat (ucast (of_nat (t div 1000000000) + 2208988800 :: u64) :: u32) =
    (t div 1000000000 + 2208988800) mod 2 ^ 32"
    by (simp only: of_nat_add of_nat_numeral)
  moreover have "unat (ucast (of_nat ?n * 4294967296 div 1000000000 :: u64) :: u32) =
    ?n * 2 ^ 32 div 1000000000"
  proof -
    have n: "?n < 1000000000" by simp
    have e: "(of_nat ?n * 4294967296 :: u64) = of_nat (?n * 4294967296)" by simp
    have "unat (of_nat (?n * 4294967296) :: u64) = ?n * 4294967296"
      using n by (simp only: unat_of_nat) simp
    then have "unat (of_nat ?n * 4294967296 div 1000000000 :: u64) = ?n * 4294967296 div 1000000000"
      unfolding e by (simp add: unat_div)
    moreover have "?n * 4294967296 div 1000000000 < 4294967296" using n by linarith
    ultimately show ?thesis by (simp add: unat_ucast_id)
  qed
  ultimately show ?thesis by (simp add: ntp_time_def Let_def join32)
qed

lemma div_shift: "(x * 2 ^ 32 + f) div 2 ^ 14 = x * 2 ^ 18 + f div (2 ^ 14 :: nat)"
proof -
  have "x * 2 ^ 32 + f = f + (x * 2 ^ 18) * 2 ^ 14" by simp
  then show ?thesis by (simp only: div_mult_self1) simp
qed

lemma mod_shift: "g < 2 ^ 18 \<Longrightarrow> (x * 2 ^ 18 + g) mod 2 ^ 24 = (x mod 64) * 2 ^ 18 + (g :: nat)"
proof -
  assume g: "g < 2 ^ 18"
  have "x * 2 ^ 18 + g = ((x mod 64) * 2 ^ 18 + g) + (x div 64) * 2 ^ 24"
  proof -
    have "x = x div 64 * 64 + x mod 64" by simp
    moreover have "y = q * 64 + r \<Longrightarrow> y * 2 ^ 18 + g = r * 2 ^ 18 + g + q * 2 ^ 24" for y q r :: nat
      by simp
    ultimately show ?thesis by blast
  qed
  moreover have "(x mod 64) * 2 ^ 18 + g < 2 ^ 24"
  proof -
    have "x mod 64 \<le> 63" by simp
    then have "(x mod 64) * 2 ^ 18 \<le> 63 * 2 ^ 18" by (rule mult_le_mono1)
    with g show ?thesis by simp
  qed
  ultimately show ?thesis by (metis mod_less mod_mult_self1)
qed

lemma abs_send_time_value:
  "unat (abs_send_time (ntp_time t)) = (t mod 64000000000) * 2 ^ 18 div 1000000000"
proof -
  let ?s = "t div 1000000000" and ?n = "t mod 1000000000"
  let ?f = "?n * 2 ^ 32 div 1000000000"
  have g: "?f div 2 ^ 14 = ?n * 2 ^ 18 div 1000000000"
  proof -
    have "?f div 2 ^ 14 = (?n * 2 ^ 18) * 2 ^ 14 div (1000000000 * 2 ^ 14)"
      by (simp add: div_mult2_eq)
    also have "\<dots> = ?n * 2 ^ 18 div 1000000000" by (rule div_mult_mult2) simp
    finally show ?thesis .
  qed
  have gl: "?n * 2 ^ 18 div 1000000000 < 2 ^ 18" by (rule less_mult_imp_div_less) simp
  have s: "(?s + 2208988800) mod 2 ^ 32 mod 64 = ?s mod 64"
  proof -
    have "(?s + 2208988800) mod 2 ^ 32 mod 64 = (?s + 34515450 * 64) mod 64"
      by (simp add: mod_mod_cancel)
    then show ?thesis by (simp only: mod_mult_self1)
  qed
  have "unat (abs_send_time (ntp_time t)) = (?s mod 64) * 2 ^ 18 + ?n * 2 ^ 18 div 1000000000"
    by (simp only: unat_abs_send_time unat_ntp_time div_shift g mod_shift [OF gl] s)
  also have "\<dots> = ((?s mod 64) * 1000000000 + ?n) * 2 ^ 18 div 1000000000"
  proof -
    have "((?s mod 64) * 1000000000 + ?n) * 2 ^ 18 = ?n * 2 ^ 18 + (?s mod 64) * 2 ^ 18 * 1000000000"
      by simp
    then show ?thesis by (simp only: div_mult_self1)
  qed
  also have "(?s mod 64) * 1000000000 + ?n = t mod 64000000000"
    using mod_mult2_eq [of t 1000000000 64] by simp
  finally show ?thesis .
qed

lemma abs_time_bytes_value:
  "map unat (abs_time_bytes w) = [unat w div 65536 mod 256, unat w div 256 mod 256, unat w mod 256]"
proof -
  have b: "unat (ucast (drop_bit k w) :: u8) = unat w div 2 ^ k mod 256" for k
    by (simp only: unsigned_ucast_eq unat_drop_bit_eq) (simp add: take_bit_eq_mod drop_bit_eq_div)
  show ?thesis using b [of 16] b [of 8] b [of 0] by (simp add: abs_time_bytes_def)
qed

text \<open>
  The header extension abs-send-time is exact: it carries the 6.18 fixed-point value of
  the Unix time modulo 64 seconds, rounded down, so it stays below \<open>2^24\<close> and the three
  bytes sent, most significant first, are it.
\<close>

theorem abs_send_time_exact:
  "unat (abs_send_time (ntp_time t)) = (t mod 64000000000) * 2 ^ 18 div 1000000000
   \<and> map unat (abs_time_bytes (abs_send_time (ntp_time t))) =
       (let v = (t mod 64000000000) * 2 ^ 18 div 1000000000
        in [v div 65536, v div 256 mod 256, v mod 256])"
proof -
  let ?v = "(t mod 64000000000) * 2 ^ 18 div 1000000000"
  have lt: "?v < 2 ^ 24"
  proof -
    have "t mod 64000000000 < 64000000000" by simp
    then have "(t mod 64000000000) * 2 ^ 18 < 2 ^ 24 * 1000000000" by simp
    then show ?thesis by (rule less_mult_imp_div_less)
  qed
  then have "?v div 65536 mod 256 = ?v div 65536" by (simp add: less_mult_imp_div_less)
  then show ?thesis
    by (simp only: abs_time_bytes_value abs_send_time_value Let_def simp_thms)
qed

section \<open>Timestamps\<close>

text \<open>The audio clock runs at 48 kHz: the increment is the number of samples of the packet.\<close>

lemma audio_ts_inc_exact:
  "audio_ts_inc (parse_opus_packet_duration (toc # body)) = opus_total_samples (toc # body)"
proof -
  let ?p = "toc # body"
  obtain k where k: "unat (opus_total_samples ?p) = 120 * k" using opus_total_samples_bounds by blast
  then have "parse_opus_packet_duration ?p * 48000 = unat (opus_total_samples ?p) * 1000000000"
    by (simp add: opus_duration_nat)
  then show ?thesis by (simp add: audio_ts_inc_def)
qed

text \<open>
  The audio clock follows the samples: for every Opus packet the RTP timestamp advances
  by exactly the number of 48 kHz samples that the packet announces, although it is computed
  from the duration in nanoseconds that the frame reader derived from them.  The video clock
  is off by at most half a tick of 90 kHz per frame, so 30 frames of 33333333 ns make
  exactly 90000 ticks.
\<close>

theorem rtp_clocks_exact:
  "audio_ts_inc (parse_opus_packet_duration (toc # body)) = opus_total_samples (toc # body)
   \<and> (nanos < 47721858000000 \<longrightarrow>
        \<bar>int (unat (video_ts_inc nanos)) * 1000000000 - int nanos * 90000\<bar> \<le> 500000000)
   \<and> 30 * video_ts_inc 33333333 = 90000"
proof (intro conjI impI)
  show "audio_ts_inc (parse_opus_packet_duration (toc # body)) = opus_total_samples (toc # body)"
    by (rule audio_ts_inc_exact)
  assume n: "nanos < 47721858000000"
  let ?q = "(nanos * 90000 + 500000000) div 1000000000"
  have "?q < 4294967296" using n by (intro less_mult_imp_div_less) simp
  then have "unat (video_ts_inc nanos) = ?q" by (simp add: video_ts_inc_def unat_of_nat)
  moreover have "?q * 1000000000 \<le> nanos * 90000 + 500000000"
    by (metis div_times_less_eq_dividend)
  moreover have "nanos * 90000 + 500000000 < ?q * 1000000000 + 1000000000"
    by (metis add.commute dividend_less_div_times zero_less_numeral)
  ultimately show "\<bar>int (unat (video_ts_inc nanos)) * 1000000000 - int nanos * 90000\<bar> \<le> 500000000"
    by linarith
qed (simp add: video_ts_inc_def)

lemma rtp_clocks_exact_witness:
  "audio_ts_inc (parse_opus_packet_duration [0xFC, 1, 2]) = opus_total_samples [0xFC, 1, 2]
   \<and> \<bar>int (unat (video_ts_inc 16666667)) * 1000000000 - int (16666667 :: nat) * 90000\<bar> \<le> 500000000"
  using rtp_clocks_exact [of "0xFC" "[1, 2]" 16666667] by simp

section \<open>What a sent frame looks like\<close>

text \<open>The RTP packets among the datagrams: header and payload.\<close>

fun rtp_sent :: "(nat \<times> socket_addr \<times> datagram) list \<Rightarrow> (rtp_header \<times> bytes) list" where
  "rtp_sent [] = []"
| "rtp_sent ((_, _, Rtp h p _) # ds) = (h, p) # rtp_sent ds"
| "rtp_sent (_ # ds) = rtp_sent ds"

lemma rtp_sent_append [simp]: "rtp_sent (ds @ es) = rtp_sent ds @ rtp_sent es"
  by (induction ds rule: rtp_sent.induct) simp_all

text \<open>Libraries that never fail, and a transport that can send.\<close>

definition wire_total :: "('s, 'v, 'd) wire_lib \<Rightarrow> bool" where
  "wire_total lib \<longleftrightarrow>
     (\<forall>h p. \<exists>b. wl_marshal lib h p = Inr b)
     \<and> (\<forall>c b h. \<exists>e c'. wl_encrypt_rtp lib c b h = (Inr e, c'))"

definition dt_ready :: "('s, 'v) direct_transport \<Rightarrow> bool" where
  "dt_ready dt \<longleftrightarrow> \<not> dt_closed dt \<and> dt_srtp dt \<noteq> None \<and> own_dest dt \<noteq> None"

lemma send_reports_frame:
  "\<exists>c w. send_reports lib now dest dt = dt\<lparr>dt_srtp := c, dt_wire := w\<rparr>
     \<and> (c = None \<longleftrightarrow> dt_srtp dt = None) \<and> rtp_sent w = rtp_sent (dt_wire dt)"
proof (cases "dt_epoch dt = None \<or> dt_srtp dt = None")
  case True
  then have "send_reports lib now dest dt = dt\<lparr>dt_srtp := dt_srtp dt, dt_wire := dt_wire dt\<rparr>"
    by (auto simp: send_reports_def split: option.splits)
  then show ?thesis by blast
next
  case False
  then obtain ctx ep where c: "dt_srtp dt = Some ctx" and e: "dt_epoch dt = Some ep"
    by (cases "dt_epoch dt"; cases "dt_srtp dt") auto
  obtain a c1 where a: "encrypt_report lib (report_of (ntp_time now) True dt) ctx = (a, c1)" by fastforce
  obtain v c2 where v: "encrypt_report lib (report_of (ntp_time now) False dt) c1 = (v, c2)" by fastforce
  have "\<exists>w. put_report dest r enc (t\<lparr>dt_wire := ws\<rparr>) = t\<lparr>dt_wire := w\<rparr> \<and> rtp_sent w = rtp_sent ws"
    for r enc ws and t :: "('a, 'b) direct_transport"
    by (cases dest; cases enc) (force simp: put_report_def dt_put_def)+
  note put = this
  obtain w1 where w1: "put_report dest (report_of (ntp_time now) True dt) a
      (dt\<lparr>dt_srtp := Some c2, dt_wire := dt_wire dt\<rparr>) = dt\<lparr>dt_srtp := Some c2, dt_wire := w1\<rparr>"
    "rtp_sent w1 = rtp_sent (dt_wire dt)"
    using put [where enc = a and t = "dt\<lparr>dt_srtp := Some c2\<rparr>" and ws = "dt_wire dt"] by auto
  obtain w2 where w2: "put_report dest (report_of (ntp_time now) False dt) v
      (dt\<lparr>dt_srtp := Some c2, dt_wire := w1\<rparr>) = dt\<lparr>dt_srtp := Some c2, dt_wire := w2\<rparr>"
    "rtp_sent w2 = rtp_sent w1"
    using put [where enc = v and t = "dt\<lparr>dt_srtp := Some c2\<rparr>" and ws = w1] by auto
  have "send_reports lib now dest dt = dt\<lparr>dt_srtp := Some c2, dt_wire := w2\<rparr>"
    using c e a v w1(1) w2(1) by (simp add: send_reports_def)
  with w1 w2 c show ?thesis by auto
qed

text \<open>The part of \<open>send_rtp_bytes\<close> before the media: the epoch and the first reports.\<close>

definition prepare ::
  "('s, 'v, 'd) wire_lib \<Rightarrow> clock \<Rightarrow> ('s, 'v) direct_transport \<Rightarrow> ('s, 'v) direct_transport" where
  "prepare lib ck dt =
     (let (just_started, dt1) = establish_epoch ck dt
      in if just_started then emit_rtcp_sender_reports lib (ck_report ck) dt1 else dt1)"

lemma prepare_frame:
  "\<exists>c w e. prepare lib ck dt = dt\<lparr>dt_epoch := e, dt_srtp := c, dt_wire := w\<rparr>
     \<and> (c = None \<longleftrightarrow> dt_srtp dt = None) \<and> rtp_sent w = rtp_sent (dt_wire dt)"
proof (cases "dt_epoch dt")
  case None
  let ?e = "Some (ck_instant ck, ntp_time (ck_epoch ck), dt_audio_ts dt, dt_video_ts dt)"
  let ?dt1 = "dt\<lparr>dt_epoch := ?e\<rparr>"
  have p: "prepare lib ck dt = send_reports lib (ck_report ck) (own_dest ?dt1) ?dt1"
    using None by (simp add: prepare_def establish_epoch_def emit_rtcp_sender_reports_def)
  obtain c w where "send_reports lib (ck_report ck) (own_dest ?dt1) ?dt1 = ?dt1\<lparr>dt_srtp := c, dt_wire := w\<rparr>"
    "c = None \<longleftrightarrow> dt_srtp ?dt1 = None" "rtp_sent w = rtp_sent (dt_wire ?dt1)"
    using send_reports_frame by blast
  with p show ?thesis by (intro exI [of _ c] exI [of _ w] exI [of _ ?e]) simp
next
  case (Some e)
  then have "prepare lib ck dt = dt\<lparr>dt_epoch := dt_epoch dt, dt_srtp := dt_srtp dt, dt_wire := dt_wire dt\<rparr>"
    by (simp add: prepare_def establish_epoch_def)
  then show ?thesis by blast
qed

lemma send_rtp_bytes_prepare:
  "\<not> dt_closed dt \<Longrightarrow> send_rtp_bytes lib ck pt payload dur dt =
     (if pt = OPUS_PAYLOAD_TYPE
      then send_audio lib (abs_time_bytes (abs_send_time (ntp_time (ck_send ck)))) pt payload dur (prepare lib ck dt)
      else send_video lib (abs_time_bytes (abs_send_time (ntp_time (ck_send ck)))) payload dur (prepare lib ck dt))"
  by (simp add: send_rtp_bytes_def prepare_def case_prod_beta Let_def)

text \<open>What the receiver sees of an audio packet.\<close>

definition audio_view :: "rtp_header \<times> bytes \<Rightarrow> u8 \<times> u16 \<times> u32 \<times> u32 \<times> bool \<times> bytes" where
  "audio_view hp = (rh_payload_type (fst hp), rh_sequence_number (fst hp), rh_timestamp (fst hp),
     rh_ssrc (fst hp), rh_marker (fst hp), snd hp)"

lemma send_audio_ok:
  assumes "wire_total lib" "dt_ready dt"
  shows "\<exists>dt'. send_rtp_bytes lib ck OPUS_PAYLOAD_TYPE p d dt = (Inr (), dt') \<and> dt_ready dt'
    \<and> dt_audio_seq dt' = dt_audio_seq dt + 1 \<and> dt_audio_ts dt' = dt_audio_ts dt + audio_ts_inc d
    \<and> dt_audio_ssrc dt' = dt_audio_ssrc dt \<and> \<not> dt_first_audio dt'
    \<and> map audio_view (rtp_sent (dt_wire dt')) = map audio_view (rtp_sent (dt_wire dt)) @
        [(OPUS_PAYLOAD_TYPE, dt_audio_seq dt, dt_audio_ts dt, dt_audio_ssrc dt, dt_first_audio dt, p)]"
proof -
  obtain c w e where pr: "prepare lib ck dt = dt\<lparr>dt_epoch := e, dt_srtp := c, dt_wire := w\<rparr>"
    "c = None \<longleftrightarrow> dt_srtp dt = None" "rtp_sent w = rtp_sent (dt_wire dt)"
    using prepare_frame by blast
  obtain ctx where c: "c = Some ctx" using pr(2) assms(2) by (auto simp: dt_ready_def)
  obtain sock addr where dst: "dt_socket dt = Some sock" "dt_remote dt = Some addr"
    using assms(2) by (auto simp: dt_ready_def own_dest_def split: option.splits)
  let ?t = "abs_time_bytes (abs_send_time (ntp_time (ck_send ck)))"
  let ?h = "audio_header ?t OPUS_PAYLOAD_TYPE dt"
  obtain raw where m: "wl_marshal lib ?h p = Inr raw" using assms(1) unfolding wire_total_def by blast
  obtain enc ctx' where x: "wl_encrypt_rtp lib ctx raw ?h = (Inr enc, ctx')"
    using assms(1) unfolding wire_total_def by blast
  let ?dt1 = "dt\<lparr>dt_epoch := e, dt_srtp := Some ctx, dt_wire := w\<rparr>"
  have h: "audio_header ?t OPUS_PAYLOAD_TYPE ?dt1 = ?h"
    by (simp add: audio_header_def)
  have "send_rtp_bytes lib ck OPUS_PAYLOAD_TYPE p d dt = send_audio lib ?t OPUS_PAYLOAD_TYPE p d ?dt1"
    using assms(2) by (simp add: send_rtp_bytes_prepare dt_ready_def pr(1) c)
  then show ?thesis
    using assms(2) dst m x pr(3)
    by (simp add: dt_ready_def send_audio_def h own_dest_def dt_put_def Let_def)
      (simp add: audio_view_def audio_header_def)
qed

text \<open>A run of audio frames: clock readings, payload and duration of each.\<close>

fun send_audio_frames ::
  "('s, 'v, 'd) wire_lib \<Rightarrow> (clock \<times> bytes \<times> duration_ns) list \<Rightarrow>
     ('s, 'v) direct_transport \<Rightarrow> ('s, 'v) direct_transport" where
  "send_audio_frames lib [] dt = dt"
| "send_audio_frames lib ((ck, p, d) # fs) dt =
     send_audio_frames lib fs (snd (send_rtp_bytes lib ck OPUS_PAYLOAD_TYPE p d dt))"

definition audio_plan ::
  "u16 \<Rightarrow> u32 \<Rightarrow> u32 \<Rightarrow> bool \<Rightarrow> (clock \<times> bytes \<times> duration_ns) list \<Rightarrow>
     (u8 \<times> u16 \<times> u32 \<times> u32 \<times> bool \<times> bytes) list" where
  "audio_plan seq ts ssrc first fs =
     map (\<lambda>k. (OPUS_PAYLOAD_TYPE, seq + of_nat k,
               ts + sum_list (map (\<lambda>f. audio_ts_inc (snd (snd f))) (take k fs)),
               ssrc, first \<and> k = 0, fst (snd (fs ! k)))) [0..<length fs]"

lemma audio_plan_Cons:
  "audio_plan seq ts ssrc first ((ck, p, d) # fs) =
     (OPUS_PAYLOAD_TYPE, seq, ts, ssrc, first, p) # audio_plan (seq + 1) (ts + audio_ts_inc d) ssrc False fs"
  by (simp add: audio_plan_def map_upt_Suc algebra_simps del: upt_Suc)

text \<open>
  An audio stream on the wire.  As long as the transport can send and the libraries do
  not fail, each frame becomes exactly one packet with payload type 111 and the audio SSRC,
  in order and unchanged; sequence numbers go up by one modulo \<open>2^16\<close>, each timestamp is
  the sum of the durations before it, and the marker is on the first packet after a reset
  only.
\<close>

theorem audio_stream_packets:
  assumes "wire_total lib" "dt_ready dt"
  shows "map audio_view (rtp_sent (dt_wire (send_audio_frames lib fs dt))) =
      map audio_view (rtp_sent (dt_wire dt)) @
      audio_plan (dt_audio_seq dt) (dt_audio_ts dt) (dt_audio_ssrc dt) (dt_first_audio dt) fs"
  using assms(2)
proof (induction fs arbitrary: dt)
  case Nil
  then show ?case by (simp add: audio_plan_def)
next
  case (Cons f fs)
  obtain ck p d where f: "f = (ck, p, d)" by (cases f)
  obtain dt' where s: "send_rtp_bytes lib ck OPUS_PAYLOAD_TYPE p d dt = (Inr (), dt')" "dt_ready dt'"
    "dt_audio_seq dt' = dt_audio_seq dt + 1" "dt_audio_ts dt' = dt_audio_ts dt + audio_ts_inc d"
    "dt_audio_ssrc dt' = dt_audio_ssrc dt" "\<not> dt_first_audio dt'"
    "map audio_view (rtp_sent (dt_wire dt')) = map audio_view (rtp_sent (dt_wire dt)) @
        [(OPUS_PAYLOAD_TYPE, dt_audio_seq dt, dt_audio_ts dt, dt_audio_ssrc dt, dt_first_audio dt, p)]"
    using send_audio_ok [OF assms(1) Cons.prems] by blast
  show ?case using Cons.IH [OF s(2)] s by (simp add: f audio_plan_Cons)
qed

text \<open>A library that never fails, for the witnesses: packets and ciphertexts are the payload.\<close>

definition echo_lib :: "(nat, nat, unit) wire_lib" where
  "echo_lib = \<lparr>wl_marshal = (\<lambda>h p. Inr p), wl_encrypt_rtp = (\<lambda>c b h. (Inr b, c + 1)),
     wl_encrypt_rtcp = (\<lambda>c b. (Some b, c)), wl_decrypt_rtcp = (\<lambda>c b. (Some b, c)),
     wl_rtcp_feedback = (\<lambda>b. Some [True]), wl_report = (\<lambda>r cname. None),
     wl_srtp_new = (\<lambda>k s p. Some (length k)), wl_vp8_new = 0,
     wl_vp8_payload = (\<lambda>v n p. (Inr (if length p \<le> n then [p] else [take n p, drop n p]), v + 1)),
     wl_dtls_read = (\<lambda>d b a. (Some [True], d)), wl_dtls_timeout = (\<lambda>d. d), wl_dtls_poll = (\<lambda>d. ([], d)),
     wl_dtls_state = (\<lambda>d a. Some (True, \<lambda>l n. Some (replicate n 0))),
     wl_stun_decode = (\<lambda>b. None), wl_stun_response = (\<lambda>t a p. None)\<rparr>"

definition echo_draw :: random_draw where
  "echo_draw = \<lparr>rd_ufrag = replicate 16 0, rd_pwd = replicate 32 0, rd_audio_seq = 1000,
     rd_video_seq = 2000\<rparr>"

definition echo_addr :: socket_addr where
  "echo_addr = \<lparr>sa_ip = V4 [91, 108, 9, 1], sa_port = 32001\<rparr>"

definition echo_transport :: "(nat, nat) direct_transport" where
  "echo_transport = (dt_new_with_ssrc echo_lib echo_draw ''AB'' 7 9)
     \<lparr>dt_socket := Some 3, dt_remote := Some echo_addr, dt_srtp := Some 0,
      dt_state := conn_state_i32 Connected\<rparr>"

lemma echo_total: "wire_total echo_lib"
  by (simp add: wire_total_def echo_lib_def)

lemma echo_ready: "dt_ready echo_transport"
  by (simp add: dt_ready_def echo_transport_def own_dest_def dt_new_with_ssrc_def)

definition echo_clock :: clock where
  "echo_clock = \<lparr>ck_instant = 0, ck_epoch = 0, ck_report = 0, ck_send = 0\<rparr>"

lemma audio_stream_packets_witness:
  "map audio_view (rtp_sent (dt_wire (send_audio_frames echo_lib
      [(echo_clock, [1], 20000000), (echo_clock, [2], 20000000)] echo_transport))) =
     [(111, 1000, 0, 7, True, [1]), (111, 1001, 960, 7, False, [2])]"
  using audio_stream_packets [OF echo_total echo_ready,
      of "[(echo_clock, [1], 20000000), (echo_clock, [2], 20000000)]"]
  by (simp add: audio_plan_Cons) (simp add: audio_plan_def echo_transport_def dt_new_with_ssrc_def
      echo_draw_def media_consts audio_ts_inc_def)

lemma video_packets_ok:
  assumes "wire_total lib"
  shows "\<exists>ps ctx'. video_packets lib t ts ssrc chunks ctx seq = (Inr ps, ctx', seq + of_nat (length chunks))
    \<and> map (\<lambda>(h, p, e). (h, p)) ps =
        map (\<lambda>k. (video_header t ts ssrc (seq + of_nat k) (Suc k = length chunks), chunks ! k)) [0..<length chunks]"
proof (induction chunks arbitrary: ctx seq)
  case (Cons c cs)
  let ?h = "video_header t ts ssrc seq (cs = [])"
  obtain raw where m: "wl_marshal lib ?h c = Inr raw" using assms unfolding wire_total_def by blast
  obtain enc ctx1 where x: "wl_encrypt_rtp lib ctx raw ?h = (Inr enc, ctx1)"
    using assms unfolding wire_total_def by blast
  obtain ps ctx' where i: "video_packets lib t ts ssrc cs ctx1 (seq + 1) = (Inr ps, ctx', seq + 1 + of_nat (length cs))"
    "map (\<lambda>(h, p, e). (h, p)) ps =
        map (\<lambda>k. (video_header t ts ssrc (seq + 1 + of_nat k) (Suc k = length cs), cs ! k)) [0..<length cs]"
    using Cons.IH by blast
  have "video_packets lib t ts ssrc (c # cs) ctx seq =
      (Inr ((?h, c, enc) # ps), ctx', seq + of_nat (length (c # cs)))"
    using m x i(1) by (simp add: Let_def algebra_simps)
  moreover have "map (\<lambda>(h, p, e). (h, p)) ((?h, c, enc) # ps) =
      map (\<lambda>k. (video_header t ts ssrc (seq + of_nat k) (Suc k = length (c # cs)), (c # cs) ! k)) [0..<length (c # cs)]"
    using i(2) by (simp add: map_upt_Suc algebra_simps del: upt_Suc)
  ultimately show ?case by blast
qed simp

lemma put_video_fold:
  "rtp_sent (dt_wire (fold (put_video sock addr) ps dt)) = rtp_sent (dt_wire dt) @ map (\<lambda>(h, p, e). (h, p)) ps
   \<and> dt_video_seq (fold (put_video sock addr) ps dt) = dt_video_seq dt
   \<and> dt_video_ts (fold (put_video sock addr) ps dt) = dt_video_ts dt
   \<and> dt_video_packets (fold (put_video sock addr) ps dt) = dt_video_packets dt + of_nat (length ps)
   \<and> dt_closed (fold (put_video sock addr) ps dt) = dt_closed dt
   \<and> dt_srtp (fold (put_video sock addr) ps dt) = dt_srtp dt
   \<and> dt_socket (fold (put_video sock addr) ps dt) = dt_socket dt
   \<and> dt_remote (fold (put_video sock addr) ps dt) = dt_remote dt
   \<and> dt_payloader (fold (put_video sock addr) ps dt) = dt_payloader dt
   \<and> dt_video_ssrc (fold (put_video sock addr) ps dt) = dt_video_ssrc dt"
proof (induction ps arbitrary: dt)
  case (Cons hpe ps)
  obtain h p e where "hpe = (h, p, e)" by (cases hpe)
  with Cons [of "put_video sock addr hpe dt"] show ?case
    by (simp add: put_video_def dt_put_def algebra_simps)
qed simp

lemma put_video_fold_fields:
  "dt_ready (fold (put_video sock addr) ps dt) = dt_ready dt
   \<and> dt_audio_seq (fold (put_video sock addr) ps dt) = dt_audio_seq dt
   \<and> dt_audio_ts (fold (put_video sock addr) ps dt) = dt_audio_ts dt
   \<and> dt_audio_ssrc (fold (put_video sock addr) ps dt) = dt_audio_ssrc dt
   \<and> dt_first_audio (fold (put_video sock addr) ps dt) = dt_first_audio dt"
proof (induction ps arbitrary: dt)
  case (Cons hpe ps)
  obtain h p e where "hpe = (h, p, e)" by (cases hpe)
  with Cons [of "put_video sock addr hpe dt"] show ?case
    by (simp add: put_video_def dt_put_def dt_ready_def own_dest_def)
qed simp

lemma send_video_ok:
  assumes "wire_total lib" "dt_ready dt"
    and "wl_vp8_payload lib (dt_payloader dt) 1180 payload = (Inr chunks, v)" "pt \<noteq> OPUS_PAYLOAD_TYPE"
  shows "\<exists>dt'. send_rtp_bytes lib ck pt payload d dt = (Inr (), dt')
    \<and> rtp_sent (dt_wire dt') = rtp_sent (dt_wire dt) @
        map (\<lambda>k. (video_header (abs_time_bytes (abs_send_time (ntp_time (ck_send ck)))) (dt_video_ts dt)
                    (dt_video_ssrc dt) (dt_video_seq dt + of_nat k) (Suc k = length chunks), chunks ! k))
          [0..<length chunks]
    \<and> dt_video_seq dt' = dt_video_seq dt + of_nat (length chunks)
    \<and> dt_video_ts dt' = dt_video_ts dt + video_ts_inc d
    \<and> dt_video_packets dt' = dt_video_packets dt + of_nat (length chunks)
    \<and> dt_ready dt' \<and> dt_payloader dt' = v \<and> dt_video_ssrc dt' = dt_video_ssrc dt"
proof -
  obtain c w e where pr: "prepare lib ck dt = dt\<lparr>dt_epoch := e, dt_srtp := c, dt_wire := w\<rparr>"
    "c = None \<longleftrightarrow> dt_srtp dt = None" "rtp_sent w = rtp_sent (dt_wire dt)"
    using prepare_frame by blast
  obtain ctx where c: "c = Some ctx" using pr(2) assms(2) by (auto simp: dt_ready_def)
  obtain sock addr where dst: "dt_socket dt = Some sock" "dt_remote dt = Some addr"
    using assms(2) by (auto simp: dt_ready_def own_dest_def split: option.splits)
  let ?t = "abs_time_bytes (abs_send_time (ntp_time (ck_send ck)))"
  let ?dt1 = "dt\<lparr>dt_epoch := e, dt_srtp := Some ctx, dt_wire := w\<rparr>"
  have s: "send_rtp_bytes lib ck pt payload d dt = send_video lib ?t payload d ?dt1"
    using assms(2,4) by (simp add: send_rtp_bytes_prepare dt_ready_def pr(1) c)
  obtain ps ctx' where v: "video_packets lib ?t (dt_video_ts dt) (dt_video_ssrc dt) chunks ctx (dt_video_seq dt) =
      (Inr ps, ctx', dt_video_seq dt + of_nat (length chunks))"
    "map (\<lambda>(h, p, e). (h, p)) ps = map (\<lambda>k. (video_header ?t (dt_video_ts dt) (dt_video_ssrc dt)
        (dt_video_seq dt + of_nat k) (Suc k = length chunks), chunks ! k)) [0..<length chunks]"
    using video_packets_ok [OF assms(1)] by blast
  have len: "length ps = length chunks" using arg_cong [OF v(2), of length] by simp
  let ?dt2 = "?dt1\<lparr>dt_video_ts := dt_video_ts dt + video_ts_inc d, dt_first_video := False, dt_payloader := v\<rparr>"
  show ?thesis
  proof (cases "chunks = []")
    case True
    then have "send_rtp_bytes lib ck pt payload d dt = (Inr (), ?dt2)"
      using assms(3) by (simp add: s send_video_def MAX_VP8_PAYLOAD_def Let_def)
    with True pr(3) assms(2) dst show ?thesis by (simp add: dt_ready_def own_dest_def)
  next
    case False
    have "send_rtp_bytes lib ck pt payload d dt = (Inr (), fold (put_video sock addr) ps
        (?dt2\<lparr>dt_srtp := Some ctx', dt_video_seq := dt_video_seq dt + of_nat (length chunks)\<rparr>))"
      using False assms(3) dst v(1)
      by (simp add: s send_video_def MAX_VP8_PAYLOAD_def own_dest_def Let_def)
    then show ?thesis
      using pr(3) assms(2) dst by (simp add: put_video_fold v(2) len dt_ready_def own_dest_def)
  qed
qed

text \<open>
  A video frame on the wire.  The chunks that the VP8 payloader cuts a frame into become
  one packet each, in order and unchanged, all with the frame's timestamp, with consecutive
  sequence numbers modulo \<open>2^16\<close>, payload type 100 and the marker on the last one only; the
  packet counter goes up by their number and the next frame starts one duration later.
\<close>

theorem video_frame_packets:
  assumes "wire_total lib" "dt_ready dt"
    and "wl_vp8_payload lib (dt_payloader dt) 1180 payload = (Inr chunks, v)" "pt \<noteq> OPUS_PAYLOAD_TYPE"
  shows "\<exists>dt'. send_rtp_bytes lib ck pt payload d dt = (Inr (), dt')
    \<and> rtp_sent (dt_wire dt') = rtp_sent (dt_wire dt) @
        map (\<lambda>k. (video_header (abs_time_bytes (abs_send_time (ntp_time (ck_send ck)))) (dt_video_ts dt)
                    (dt_video_ssrc dt) (dt_video_seq dt + of_nat k) (Suc k = length chunks), chunks ! k))
          [0..<length chunks]
    \<and> dt_video_seq dt' = dt_video_seq dt + of_nat (length chunks)
    \<and> dt_video_ts dt' = dt_video_ts dt + video_ts_inc d
    \<and> dt_video_packets dt' = dt_video_packets dt + of_nat (length chunks)"
  using send_video_ok [OF assms] by blast

lemma video_frame_packets_witness:
  "\<exists>dt'. send_rtp_bytes echo_lib echo_clock VP8_PAYLOAD_TYPE [5, 6] 33333333 echo_transport = (Inr (), dt')
     \<and> dt_video_ts dt' = 3000 \<and> dt_video_seq dt' = 2001"
proof -
  have "wl_vp8_payload echo_lib (dt_payloader echo_transport) 1180 [5, 6] = (Inr [[5, 6]], 1)"
    by (simp add: echo_lib_def echo_transport_def dt_new_with_ssrc_def)
  from video_frame_packets [OF echo_total echo_ready this, of VP8_PAYLOAD_TYPE echo_clock 33333333]
  show ?thesis
    by (auto simp: media_consts video_ts_inc_def echo_transport_def dt_new_with_ssrc_def echo_draw_def)
qed

text \<open>
  The header extensions of every packet that is sent, audio or video, are announced:
  their ids are among those of the local parameters, under the URI of what they carry
  (audio level, send time, media id, orientation), and no id is used twice in a packet.
\<close>

theorem extensions_announced:
  "(\<forall>e \<in> set (rh_extensions (audio_header t pt dt)).
      \<lparr>he_id = fst e,
       he_uri = (if fst e = 1 then URI_AUDIO_LEVEL else if fst e = 2 then URI_ABS_SEND_TIME else URI_SDES_MID)\<rparr>
        \<in> set local_rtp_hdrexts)
   \<and> (\<forall>e \<in> set (rh_extensions (video_header t ts ssrc seq m)).
      \<lparr>he_id = fst e,
       he_uri = (if fst e = 2 then URI_ABS_SEND_TIME else if fst e = 4 then URI_SDES_MID else URI_VIDEO_ORIENTATION)\<rparr>
        \<in> set local_rtp_hdrexts)
   \<and> distinct (map fst (rh_extensions (audio_header t pt dt)))
   \<and> distinct (map fst (rh_extensions (video_header t ts ssrc seq m)))"
  by (simp add: audio_header_def video_header_def local_rtp_hdrexts_def ext_ids)

lemma extensions_announced_witness:
  "\<lparr>he_id = 5, he_uri = URI_VIDEO_ORIENTATION\<rparr> \<in> set local_rtp_hdrexts"
  using extensions_announced [where t = "[]" and m = True and dt = echo_transport and pt = 100]
  by (simp add: video_header_def)

section \<open>Choosing the server's address\<close>

definition usable :: "candidate list \<Rightarrow> socket_addr list" where
  "usable cs = concat (map (\<lambda>c. case candidate_addr c of Some a \<Rightarrow> [a] | None \<Rightarrow> []) cs)"

lemma select_candidate_usable:
  "select_candidate target cs =
     (case filter (\<lambda>a. is_ipv4 (sa_ip a)) (usable cs) of
        a # _ \<Rightarrow> Some a
      | [] \<Rightarrow> (case target of Some t \<Rightarrow> Some t
               | None \<Rightarrow> (case usable cs of a # _ \<Rightarrow> Some a | [] \<Rightarrow> None)))"
  by (induction target cs rule: select_candidate.induct)
    (auto simp: usable_def split: option.splits list.splits)

text \<open>
  C19. The remote address: of the candidates over UDP with a valid address and a port from 1
  to 65535, the first IPv4 one is taken, wherever it stands; without one the first IPv6 one;
  and connecting is refused exactly when there is no such candidate.
\<close>

theorem candidate_choice:
  "select_candidate None cs =
     (case filter (\<lambda>a. is_ipv4 (sa_ip a)) (usable cs) of
        a # _ \<Rightarrow> Some a
      | [] \<Rightarrow> (case usable cs of a # _ \<Rightarrow> Some a | [] \<Rightarrow> None))
   \<and> (\<forall>a \<in> set (usable cs). 0 < sa_port a \<and> sa_port a < 65536)"
proof -
  have "0 < sa_port a \<and> sa_port a < 65536" if "candidate_addr c = Some a" for a c
    using that by (auto simp: candidate_addr_def parse_u16_def Let_def
        split: if_splits option.splits prod.splits)
  then show ?thesis
    by (auto simp: select_candidate_usable usable_def split: option.splits)
qed

lemma example_candidate_addr:
  "candidate_addr (example_candidate\<lparr>cd_ip := ''1.2.3.4''\<rparr>) =
     Some \<lparr>sa_ip = V4 [1, 2, 3, 4], sa_port = 32001\<rparr>"
proof -
  have "parse_ip ''1.2.3.4'' = Some (V4 [1, 2, 3, 4])"
    using address_roundtrip_ipv4 [of 1 2 3 4] by (simp add: show_ipv4_def dec.simps digit_char_def)
  moreover have "parse_u16 ''32001'' = Some 32001"
    by (simp add: parse_u16_def to_digit_def)
  moreover have "eq_ignore_ascii_case ''udp'' ''udp''" by (simp add: eq_ignore_ascii_case_def)
  ultimately show ?thesis by (simp add: candidate_addr_def example_candidate_def Let_def)
qed

lemma candidate_choice_witness:
  "\<exists>a. select_candidate None [example_candidate\<lparr>cd_ip := ''1.2.3.4''\<rparr>] = Some a \<and> sa_port a < 65536"
proof -
  have "usable [example_candidate\<lparr>cd_ip := ''1.2.3.4''\<rparr>] = [\<lparr>sa_ip = V4 [1, 2, 3, 4], sa_port = 32001\<rparr>]"
    by (simp add: usable_def example_candidate_addr)
  with candidate_choice [of "[example_candidate\<lparr>cd_ip := ''1.2.3.4''\<rparr>]"] show ?thesis by simp
qed

section \<open>Handshake, reconnecting and closing\<close>

text \<open>
  C35. Which keys go where: with the keying material laid out as RFC 5764 prescribes, the
  transport, which is the DTLS server, encrypts with the server's key and salt and decrypts
  with the client's, under the negotiated profile; the first completed handshake installs
  both contexts and makes the state \<open>Connected\<close>.
\<close>

theorem srtp_key_direction:
  assumes "wl_dtls_state lib dtls peer = Some (is_gcm, exporter)"
    and "prof = (if is_gcm then AeadAes128Gcm else Aes128CmHmacSha1_80)"
    and "length ck = 16" "length sk = 16" "length cs = salt_len prof" "length ss = salt_len prof"
    and "exporter ''EXTRACTOR-dtls_srtp'' 60 = Some (rfc5764_layout ck sk cs ss @ rest)"
    and "wl_srtp_new lib sk ss prof = Some enc" "wl_srtp_new lib ck cs prof = Some dec_ctx"
    and "dt_srtp dt = None"
  shows "dtls_event lib dtls peer True dt =
    dt\<lparr>dt_srtp := Some enc, dt_decrypt := Some dec_ctx, dt_state := conn_state_i32 Connected\<rparr>"
proof -
  have "derive_srtp_keying_material_both (rfc5764_layout ck sk cs ss @ rest) prof = Inr (sk, ss, ck, cs)"
    using assms(3-6) by (intro derive_layout) simp_all
  with assms show ?thesis
    by (simp add: dtls_event_def derive_srtp_from_dtls_def DTLS_SRTP_EXPORTER_LABEL_def Let_def)
qed

definition echo_keys_lib :: "(bytes, nat, unit) wire_lib" where
  "echo_keys_lib = \<lparr>wl_marshal = (\<lambda>h p. Inr p), wl_encrypt_rtp = (\<lambda>c b h. (Inr b, c)),
     wl_encrypt_rtcp = (\<lambda>c b. (Some b, c)), wl_decrypt_rtcp = (\<lambda>c b. (Some b, c)),
     wl_rtcp_feedback = (\<lambda>b. Some [True]), wl_report = (\<lambda>r cname. None),
     wl_srtp_new = (\<lambda>k s p. Some k), wl_vp8_new = 0,
     wl_vp8_payload = (\<lambda>v n p. (Inr [p], v)),
     wl_dtls_read = (\<lambda>d b a. (Some [True], d)), wl_dtls_timeout = (\<lambda>d. d), wl_dtls_poll = (\<lambda>d. ([], d)),
     wl_dtls_state = (\<lambda>d a. Some (True, \<lambda>l n. Some (rfc5764_layout (replicate 16 1) (replicate 16 2)
        (replicate 12 3) (replicate 12 4) @ replicate 4 0))),
     wl_stun_decode = (\<lambda>b. None), wl_stun_response = (\<lambda>t a p. None)\<rparr>"

lemma srtp_key_direction_witness:
  "dt_srtp (dtls_event echo_keys_lib () echo_addr True (dt_new_with_ssrc echo_keys_lib echo_draw ''F'' 1 2)) =
     Some (replicate 16 2)"
  using srtp_key_direction [where lib = echo_keys_lib and dtls = "()" and peer = echo_addr and is_gcm = True
      and exporter = "\<lambda>l n. Some (rfc5764_layout (replicate 16 1) (replicate 16 2)
        (replicate 12 3) (replicate 12 4) @ replicate 4 0)"
      and prof = AeadAes128Gcm and ck = "replicate 16 1" and sk = "replicate 16 2"
      and cs = "replicate 12 3" and ss = "replicate 12 4" and rest = "replicate 4 0"
      and enc = "replicate 16 2" and dec_ctx = "replicate 16 1"
      and dt = "dt_new_with_ssrc echo_keys_lib echo_draw ''F'' 1 2"]
  by (simp add: echo_keys_lib_def dt_new_with_ssrc_def)

text \<open>What can happen to an open transport: rounds of the worker and media frames.\<close>

datatype dt_action = Worker worker_event | Send clock u8 bytes duration_ns

fun dt_act ::
  "('s, 'v, 'd) wire_lib \<Rightarrow> dt_action \<Rightarrow> 'd worker \<times> ('s, 'v) direct_transport \<Rightarrow>
     'd worker \<times> ('s, 'v) direct_transport" where
  "dt_act lib (Worker ev) wd = worker_handle lib ev wd"
| "dt_act lib (Send ck pt p d) wd = (fst wd, snd (send_rtp_bytes lib ck pt p d (snd wd)))"

definition keyed_as :: "i32 \<Rightarrow> ('s, 'v) direct_transport \<Rightarrow> bool" where
  "keyed_as n dt \<longleftrightarrow> dt_srtp dt \<noteq> None \<and> dt_state dt = n"

lemma keyed_put [simp]: "keyed_as n (dt_put s a d dt) = keyed_as n dt"
  by (simp add: keyed_as_def dt_put_def)

lemma keyed_put_all [simp]: "keyed_as n (put_all s txs dt) = keyed_as n dt"
  unfolding put_all_def by (induction txs arbitrary: dt) (simp_all add: case_prod_beta)

lemma keyed_dtls_event: "keyed_as n dt \<Longrightarrow> keyed_as n (dtls_event lib d a b dt)"
  by (auto simp: dtls_event_def keyed_as_def split: option.splits)

lemma keyed_dtls_events: "keyed_as n dt \<Longrightarrow> keyed_as n (fold (dtls_event lib d a) evs dt)"
  by (induction evs arbitrary: dt) (simp_all add: keyed_dtls_event)

lemma keyed_send_reports: "keyed_as n dt \<Longrightarrow> keyed_as n (send_reports lib now dest dt)"
proof -
  assume k: "keyed_as n dt"
  obtain c w where "send_reports lib now dest dt = dt\<lparr>dt_srtp := c, dt_wire := w\<rparr>"
    "c = None \<longleftrightarrow> dt_srtp dt = None" using send_reports_frame by blast
  with k show ?thesis by (simp add: keyed_as_def)
qed

lemma keyed_worker: "keyed_as n (snd wd) \<Longrightarrow> keyed_as n (snd (worker_handle lib ev wd))"
proof (cases ev)
  case (Datagram data peer)
  assume k: "keyed_as n (snd wd)"
  have "keyed_as n (handle_srtp_packet lib data (snd wd))"
    using k by (auto simp: handle_srtp_packet_def keyed_as_def split: option.splits prod.splits)
  moreover have "keyed_as n (snd (snd (handle_dtls_packet lib data peer (wk_dtls (fst wd)) (snd wd))))"
    using k by (auto simp: handle_dtls_packet_def keyed_dtls_events split: option.splits prod.splits)
  ultimately show ?thesis
    using k by (auto simp: worker_handle_def Datagram Let_def split: packet_class.splits option.splits prod.splits)
qed (auto simp: worker_handle_def Let_def keyed_send_reports split: prod.splits)

lemma keyed_video_fold: "keyed_as n (fold (put_video s a) ps dt) = keyed_as n dt"
  by (induction ps arbitrary: dt) (auto simp: put_video_def keyed_as_def dt_put_def split: prod.splits)

lemma keyed_send: "keyed_as n dt \<Longrightarrow> keyed_as n (snd (send_rtp_bytes lib ck pt p d dt))"
proof (cases "dt_closed dt")
  case False
  assume k: "keyed_as n dt"
  obtain c w e where pr: "prepare lib ck dt = dt\<lparr>dt_epoch := e, dt_srtp := c, dt_wire := w\<rparr>"
    "c = None \<longleftrightarrow> dt_srtp dt = None" using prepare_frame by blast
  then have k1: "keyed_as n (prepare lib ck dt)" using k by (simp add: keyed_as_def)
  have "keyed_as n (snd (send_audio lib t pt p d dt1))" if "keyed_as n dt1" for t and dt1 :: "('a, 'b) direct_transport"
    using that by (auto simp: send_audio_def keyed_as_def dt_put_def Let_def
        split: sum.splits option.splits prod.splits)
  moreover have "keyed_as n (snd (send_video lib t p d dt1))" if "keyed_as n dt1" for t and dt1 :: "('a, 'b) direct_transport"
    using that by (auto simp: send_video_def keyed_video_fold Let_def
        split: sum.splits option.splits prod.splits) (auto simp: keyed_as_def)
  ultimately show ?thesis using k1 False by (auto simp: send_rtp_bytes_prepare)
qed (simp add: send_rtp_bytes_def)

text \<open>
  C34. A second \<open>connect\<close> cannot succeed.  The keys of the first handshake stay installed and
  a completed handshake is only acted on when there are none, so after the state has been
  set back to \<open>Connecting\<close> nothing the worker receives and nothing that is sent makes it
  \<open>Connected\<close> again: the wait never ends before its timeout and then fails.
\<close>

theorem reconnect_never_connects:
  assumes "dt_srtp dt \<noteq> None" "dt_connect_start jr ce remote dt = (Inr wk, dt1)"
    and "snd (fold (dt_act lib) acts (wk, dt1)) = dt2"
  shows "dt_connect_poll False dt2 = None
    \<and> dt_connect_poll True dt2 =
       Some (Inl (Internal ''timeout waiting for DTLS handshake to complete with Telegram SFU''))"
proof -
  have "keyed_as 0 dt1"
    using assms(1,2)
    by (auto simp: dt_connect_start_def keyed_as_def dt_put_def Let_def
        split: if_splits sum.splits list.splits option.splits)
  then have "keyed_as 0 (snd (fold (dt_act lib) acts (wk, dt1)))"
  proof (induction acts arbitrary: wk dt1)
    case (Cons a acts)
    have "keyed_as 0 (snd (dt_act lib a (wk, dt1)))"
      using Cons.prems by (cases a) (simp_all add: keyed_worker keyed_send)
    then show ?case using Cons.IH [of "snd (dt_act lib a (wk, dt1))" "fst (dt_act lib a (wk, dt1))"] by simp
  qed simp
  with assms(3) show ?thesis by (simp add: keyed_as_def dt_connect_poll_def)
qed

definition example_remote :: transport where
  "example_remote = \<lparr>tp_ufrag = ''u'', tp_pwd = ''p'',
     tp_fingerprints = [\<lparr>fp_hash = ''sha-256'', fp_setup = [], fp_fingerprint = ''AB''\<rparr>],
     tp_candidates = [example_candidate\<lparr>cd_ip := ''1.2.3.4''\<rparr>]\<rparr>"

definition example_json :: json_reader where
  "example_json = \<lparr>jr_probe = (\<lambda>s. None), jr_simd = (\<lambda>s. Inr example_remote), jr_serde = (\<lambda>s. Inl ''e'')\<rparr>"

definition example_env :: "unit connect_env" where
  "example_env = \<lparr>ce_bind = (\<lambda>v4. Inr 5), ce_local_addr = Inr (), ce_dtls_config = Inr (),
     ce_stun_request = (\<lambda>u p. Inr [])\<rparr>"

lemma reconnect_never_connects_witness:
  "\<exists>wk dt1. dt_connect_start example_json example_env ''json'' echo_transport = (Inr wk, dt1) \<and>
     dt_connect_poll False (snd (fold (dt_act echo_lib) [Worker (Datagram [22] echo_addr)] (wk, dt1))) = None"
proof -
  obtain wk dt1 where c: "dt_connect_start example_json example_env ''json'' echo_transport = (Inr wk, dt1)"
    by (simp add: dt_connect_start_def example_json_def example_env_def example_remote_def
        parse_remote_json_def parse_remote_def example_candidate_addr
        echo_transport_def dt_new_with_ssrc_def Let_def)
  moreover have "dt_srtp echo_transport \<noteq> None" by (simp add: echo_transport_def)
  ultimately show ?thesis using reconnect_never_connects [OF _ c refl] by blast
qed

text \<open>
  Closing: the first \<open>close\<close> sets the state to \<open>Closed\<close> and drops keys, socket and epoch,
  a second one changes nothing; afterwards every frame is refused with an error, nothing is
  put on the wire for it, connecting is refused, and the worker ends at its next test.
\<close>

theorem close_final:
  "dt_close (snd (dt_close dt)) = dt_close dt
   \<and> dt_is_closed (snd (dt_close dt))
   \<and> (\<not> dt_closed dt \<longrightarrow> dt_current_state (snd (dt_close dt)) = Closed)
   \<and> send_rtp_bytes lib ck pt p d (snd (dt_close dt)) =
       (Inl (Internal ''transport is closed''), snd (dt_close dt))
   \<and> dt_connect_start jr ce remote (snd (dt_close dt)) =
       (Inl (Internal ''transport is closed''), snd (dt_close dt))
   \<and> worker_round lib ev (wk, snd (dt_close dt)) = None"
  by (simp add: dt_close_def dt_is_closed_def dt_current_state_def send_rtp_bytes_def
      dt_connect_start_def worker_round_def conn_state_of_i32_def)

lemma close_final_witness:
  "dt_current_state (snd (dt_close echo_transport)) = Closed"
  using close_final [of echo_transport echo_lib echo_clock 111 "[]" 0 example_json example_env "[]"
      Stun_tick "\<lparr>wk_socket = 0, wk_remote = echo_addr, wk_dtls = (), wk_stun_request = []\<rparr>"]
  by (simp add: echo_transport_def dt_new_with_ssrc_def)

lemma put_all_fields [simp]:
  "dt_closed (put_all s txs t) = dt_closed t" "dt_state (put_all s txs t) = dt_state t"
  unfolding put_all_def by (induction txs arbitrary: t) (simp_all add: dt_put_def case_prod_beta)

text \<open>
  Where closing is not final.  A worker that passed its test of the flag before \<open>close\<close>
  and then receives the datagram that completes the handshake installs the keys and sets the
  state of the closed transport to \<open>Connected\<close>.
\<close>

theorem close_race_reopens:
  assumes "classify data = Dtls_packet" "data \<noteq> []"
    and "wl_dtls_read lib (wk_dtls wk) data peer = (Some [True], d1)" "wl_dtls_poll lib d1 = (txs, d2)"
    and "derive_srtp_from_dtls lib d2 peer = Some (enc, dec_ctx, prof)" "\<not> dt_closed dt"
  shows "dt_is_closed (snd (worker_handle lib (Datagram data peer) (wk, snd (dt_close dt))))
    \<and> dt_current_state (snd (worker_handle lib (Datagram data peer) (wk, snd (dt_close dt)))) = Connected"
proof -
  let ?c = "snd (dt_close dt)"
  have h: "handle_dtls_packet lib data peer (wk_dtls wk) ?c =
      (txs, d2, ?c\<lparr>dt_srtp := Some enc, dt_decrypt := Some dec_ctx, dt_state := 1\<rparr>)"
    using assms by (simp add: handle_dtls_packet_def dtls_event_def dt_close_def)
  have "snd (worker_handle lib (Datagram data peer) (wk, ?c)) = put_all (wk_socket wk) txs
      (?c\<lparr>dt_srtp := Some enc, dt_decrypt := Some dec_ctx, dt_state := 1\<rparr>)"
    using assms(1,2) by (simp add: worker_handle_def h Let_def)
  moreover have "dt_closed ?c" using assms(6) by (simp add: dt_close_def)
  ultimately show ?thesis
    by (simp add: dt_is_closed_def dt_current_state_def conn_state_of_i32_def)
qed

lemma close_race_reopens_witness:
  "dt_current_state (snd (worker_handle echo_lib (Datagram [22] echo_addr)
     (\<lparr>wk_socket = 0, wk_remote = echo_addr, wk_dtls = (), wk_stun_request = []\<rparr>,
      snd (dt_close echo_transport)))) = Connected"
proof -
  let ?wk = "\<lparr>wk_socket = 0, wk_remote = echo_addr, wk_dtls = (), wk_stun_request = []\<rparr>"
  have "derive_srtp_from_dtls echo_lib () echo_addr = Some (16, 16, AeadAes128Gcm)"
    by (simp add: derive_srtp_from_dtls_def echo_lib_def derive_cases Let_def)
  then show ?thesis
    using close_race_reopens [of "[22]" echo_lib ?wk echo_addr "()" "[]" "()" 16 16 AeadAes128Gcm echo_transport]
    by (simp add: classify_def echo_lib_def echo_transport_def dt_new_with_ssrc_def)
qed

end
