(* ===== verification/Peer_Factory.thy ===== *)
theory Peer_Factory
  imports Models
begin

text \<open>
  \<open>src/wrtc/native/certpool.rs\<close>, \<open>src/wrtc/peer_factory.rs\<close> and
  \<open>src/wrtc/native/factory.rs\<close>: the pool of DTLS certificates that a background task keeps
  filled, and the two factories that draw from it, one of them with the SSRC counter.
  Key generation and the X.509 code are third-party (\<open>rcgen\<close>, \<open>rtc\<close>) and parameters.
\<close>

section \<open>Certificates\<close>

record 'c generated_cert =
  gc_certificate :: 'c
  gc_fingerprint_sha256 :: string

definition to_upper :: "char \<Rightarrow> char" where
  "to_upper c =
     (let n = (of_char c :: nat) in if 97 \<le> n \<and> n \<le> 122 then char_of (n - 32) else c)"

text \<open>
  \<open>generate_cert\<close>: the key pair, the certificate made from it and its fingerprints come from
  the libraries; the first fingerprint in upper case (or the empty text) is stored.
\<close>

definition generate_cert ::
  "string + 'k \<Rightarrow> ('k \<Rightarrow> string + 'c) \<Rightarrow> ('c \<Rightarrow> string list) \<Rightarrow> string + 'c generated_cert" where
  "generate_cert key_pair from_key_pair fingerprints =
     bind_res key_pair (\<lambda>kp. bind_res (from_key_pair kp) (\<lambda>c.
       Inr \<lparr>gc_certificate = c,
            gc_fingerprint_sha256 =
              (case fingerprints c of [] \<Rightarrow> [] | f # _ \<Rightarrow> map to_upper f)\<rparr>))"

section \<open>The pool\<close>

text \<open>
  The worker's program counter: about to test the flag, generating, blocked in \<open>send\<close> with a
  certificate, sleeping after a failure, finished.
\<close>

datatype 'c pool_worker = PW_check | PW_generate | PW_send 'c | PW_sleep | PW_done

record 'c cert_pool =
  cp_ch :: "'c list option"
  cp_size :: nat
  cp_closed :: bool
  cp_worker :: "'c pool_worker"

definition pool_new :: "nat \<Rightarrow> 'c cert_pool" where
  "pool_new n =
     (if n = 0
      then \<lparr>cp_ch = None, cp_size = 0, cp_closed = False, cp_worker = PW_done\<rparr>
      else \<lparr>cp_ch = Some [], cp_size = n, cp_closed = False, cp_worker = PW_check\<rparr>)"

text \<open>A step of the background task; \<open>g\<close> is the outcome of a generation in it.\<close>

definition pool_work :: "'c option \<Rightarrow> 'c cert_pool \<Rightarrow> 'c cert_pool" where
  "pool_work g p =
     (case cp_worker p of
        PW_check \<Rightarrow> if cp_closed p then p\<lparr>cp_worker := PW_done\<rparr> else p\<lparr>cp_worker := PW_generate\<rparr>
      | PW_generate \<Rightarrow>
          (case g of Some c \<Rightarrow> p\<lparr>cp_worker := PW_send c\<rparr> | None \<Rightarrow> p\<lparr>cp_worker := PW_sleep\<rparr>)
      | PW_send c \<Rightarrow>
          (case cp_ch p of
             Some q \<Rightarrow> if length q < cp_size p
                       then p\<lparr>cp_ch := Some (q @ [c]), cp_worker := PW_check\<rparr> else p
           | None \<Rightarrow> p\<lparr>cp_worker := PW_done\<rparr>)
      | PW_sleep \<Rightarrow> p\<lparr>cp_worker := PW_check\<rparr>
      | PW_done \<Rightarrow> p)"

definition pool_try_take :: "'c cert_pool \<Rightarrow> 'c option \<times> 'c cert_pool" where
  "pool_try_take p =
     (if cp_closed p then (None, p)
      else case cp_ch p of
             Some (c # q) \<Rightarrow> (Some c, p\<lparr>cp_ch := Some q\<rparr>)
           | _ \<Rightarrow> (None, p))"

text \<open>\<open>take\<close>: a pooled certificate, or the outcome \<open>gen\<close> of generating one on the spot.\<close>

definition pool_take :: "string + 'c \<Rightarrow> 'c cert_pool \<Rightarrow> (string + 'c) \<times> 'c cert_pool" where
  "pool_take gen p =
     (case pool_try_take p of
        (Some c, p') \<Rightarrow> (Inr c, p')
      | (None, p') \<Rightarrow> (gen, p'))"

definition pool_close :: "'c cert_pool \<Rightarrow> 'c cert_pool" where
  "pool_close p = p\<lparr>cp_closed := True\<rparr>"

datatype 'c pool_event = Work "'c option" | Try_take | Pool_close

fun pool_step :: "'c pool_event \<Rightarrow> 'c cert_pool \<Rightarrow> 'c option \<times> 'c cert_pool" where
  "pool_step (Work g) p = (None, pool_work g p)"
| "pool_step Try_take p = pool_try_take p"
| "pool_step Pool_close p = (None, pool_close p)"

text \<open>A history: the certificates handed out, in order, and the pool.\<close>

fun pool_run :: "'c pool_event list \<Rightarrow> 'c cert_pool \<Rightarrow> 'c list \<times> 'c cert_pool" where
  "pool_run [] p = ([], p)"
| "pool_run (e # es) p =
     (let (got, p1) = pool_step e p; (rest, p2) = pool_run es p1
      in ((case got of Some c \<Rightarrow> [c] | None \<Rightarrow> []) @ rest, p2))"

text \<open>The certificates generated by the task in a history, in order.\<close>

fun generated :: "'c pool_event list \<Rightarrow> 'c cert_pool \<Rightarrow> 'c list" where
  "generated [] p = []"
| "generated (e # es) p =
     (case e of Work (Some c) \<Rightarrow> if cp_worker p = PW_generate then [c] else [] | _ \<Rightarrow> []) @
     generated es (snd (pool_step e p))"

fun worker_holds :: "'c pool_worker \<Rightarrow> 'c list" where
  "worker_holds (PW_send c) = [c]"
| "worker_holds _ = []"

definition pool_stock :: "'c cert_pool \<Rightarrow> 'c list" where
  "pool_stock p = (case cp_ch p of Some q \<Rightarrow> q | None \<Rightarrow> []) @ worker_holds (cp_worker p)"

definition pool_inv :: "'c cert_pool \<Rightarrow> bool" where
  "pool_inv p \<longleftrightarrow>
     (case cp_ch p of Some q \<Rightarrow> length q \<le> cp_size p | None \<Rightarrow> cp_worker p = PW_done)"

lemma pool_inv_new: "pool_inv (pool_new n)"
  by (simp add: pool_inv_def pool_new_def)

lemma pool_work_inv: "pool_inv p \<Longrightarrow> pool_inv (pool_work g p)"
  by (auto simp: pool_inv_def pool_work_def split: option.splits pool_worker.splits)

lemma pool_work_stock:
  "pool_inv p \<Longrightarrow> pool_stock (pool_work g p) =
     pool_stock p @ (case g of Some c \<Rightarrow> if cp_worker p = PW_generate then [c] else [] | None \<Rightarrow> [])"
  by (auto simp: pool_inv_def pool_work_def pool_stock_def split: option.splits pool_worker.splits)

lemma pool_try_take_stock:
  "pool_try_take p = (got, p') \<Longrightarrow>
     pool_stock p = (case got of Some c \<Rightarrow> [c] | None \<Rightarrow> []) @ pool_stock p' \<and> (pool_inv p \<longrightarrow> pool_inv p')"
  by (auto simp: pool_try_take_def pool_stock_def pool_inv_def split: if_splits option.splits list.splits)

lemma pool_step_stock:
  assumes "pool_inv p" "pool_step e p = (got, p')"
  shows "pool_inv p' \<and>
     pool_stock p @ (case e of Work (Some c) \<Rightarrow> if cp_worker p = PW_generate then [c] else [] | _ \<Rightarrow> []) =
       (case got of Some c \<Rightarrow> [c] | None \<Rightarrow> []) @ pool_stock p'"
proof (cases e)
  case (Work g)
  with assms show ?thesis
    using pool_work_inv [of p g] pool_work_stock [of p g] by (cases g) auto
next
  case Try_take
  with assms show ?thesis using pool_try_take_stock [of p got p'] by simp
next
  case Pool_close
  with assms show ?thesis by (auto simp: pool_close_def pool_stock_def pool_inv_def split: option.splits)
qed

lemma pool_run_stock:
  "pool_inv p \<Longrightarrow> pool_run es p = (taken, p') \<Longrightarrow>
     pool_inv p' \<and> pool_stock p @ generated es p = taken @ pool_stock p'"
proof (induction es arbitrary: p taken p')
  case (Cons e es)
  obtain got p1 where s: "pool_step e p = (got, p1)" by fastforce
  obtain rest p2 where r: "pool_run es p1 = (rest, p2)" by fastforce
  with Cons.prems s have t: "taken = (case got of Some c \<Rightarrow> [c] | None \<Rightarrow> []) @ rest" "p' = p2" by simp_all
  from pool_step_stock [OF Cons.prems(1) s]
  have 1: "pool_inv p1" "pool_stock p @ (case e of Work (Some c) \<Rightarrow>
      if cp_worker p = PW_generate then [c] else [] | _ \<Rightarrow> []) =
    (case got of Some c \<Rightarrow> [c] | None \<Rightarrow> []) @ pool_stock p1" by blast+
  from Cons.IH [OF 1(1) r] have 2: "pool_inv p2" "pool_stock p1 @ generated es p1 = rest @ pool_stock p2"
    by blast+
  have "pool_stock p @ generated (e # es) p =
    (pool_stock p @ (case e of Work (Some c) \<Rightarrow> if cp_worker p = PW_generate then [c] else [] | _ \<Rightarrow> []))
      @ generated es p1" using s by simp
  also have "\<dots> = taken @ pool_stock p2" using 1 2 t by simp
  finally show ?case using 2 t by simp
qed simp

text \<open>
  C20. No certificate is lost, reordered or handed out twice: in every history of the pool the
  certificates handed out, then those in the channel, then the one the task is blocked on
  are exactly those it generated, in order; the channel never holds more than the pool's
  size.  Distinct generated certificates are so given to distinct calls.
\<close>

theorem cert_pool_fifo:
  assumes "pool_run es (pool_new n) = (taken, p)"
  shows "taken @ pool_stock p = generated es (pool_new n)
    \<and> (case cp_ch p of Some q \<Rightarrow> length q \<le> cp_size p | None \<Rightarrow> True)
    \<and> (distinct (generated es (pool_new n)) \<longrightarrow> distinct taken)"
proof -
  have "pool_stock (pool_new n :: 'a cert_pool) = []" by (simp add: pool_new_def pool_stock_def)
  with pool_run_stock [OF pool_inv_new assms]
  have "pool_inv p" and eq: "generated es (pool_new n) = taken @ pool_stock p" by simp_all
  then show ?thesis by (simp add: pool_inv_def split: option.splits)
qed

lemma cert_pool_fifo_witness:
  "fst (pool_run [Work None, Work (Some 5), Work None, Try_take] (pool_new 2)) = [5 :: nat]
   \<and> distinct [5 :: nat]"
proof -
  obtain t p where r: "pool_run [Work None, Work (Some 5), Work None, Try_take] (pool_new 2) = (t :: nat list, p)"
    by fastforce
  moreover from r have "pool_stock p = []"
    by (auto simp: pool_new_def pool_work_def pool_try_take_def pool_stock_def)
  moreover have "generated [Work None, Work (Some 5), Work None, Try_take] (pool_new 2) = [5 :: nat]"
    by (simp add: pool_new_def pool_work_def)
  ultimately show ?thesis using cert_pool_fifo [OF r] by simp
qed

section \<open>The process-wide factory (\<open>peer_factory.rs\<close>)\<close>

datatype network_type = UDP4 | UDP6 | TCP4 | TCP6

record factory_options =
  fo_network_types :: "network_type list"
  fo_cert_pool_size :: nat
  fo_shared_udp_mux :: bool

definition factory_options_default :: factory_options where
  "factory_options_default =
     \<lparr>fo_network_types = [], fo_cert_pool_size = 0, fo_shared_udp_mux = False\<rparr>"

record 'c peer_factory =
  pf_options :: factory_options
  pf_cert_pool :: "'c cert_pool"

definition peer_factory_new_with_options :: "factory_options \<Rightarrow> error + 'c peer_factory" where
  "peer_factory_new_with_options options =
     (let pool_size = (if fo_cert_pool_size options = 0 then 8 else fo_cert_pool_size options)
      in Inr \<lparr>pf_options = options, pf_cert_pool = pool_new pool_size\<rparr>)"

definition peer_factory_new :: "error + 'c peer_factory" where
  "peer_factory_new = peer_factory_new_with_options factory_options_default"

definition take_cert :: "string + 'c \<Rightarrow> 'c peer_factory \<Rightarrow> (error + 'c) \<times> 'c peer_factory" where
  "take_cert gen f =
     (case pool_try_take (pf_cert_pool f) of
        (Some c, p) \<Rightarrow> (Inr c, f\<lparr>pf_cert_pool := p\<rparr>)
      | (None, p) \<Rightarrow>
          (case gen of Inr c \<Rightarrow> Inr c | Inl e \<Rightarrow> Inl (Internal e), f\<lparr>pf_cert_pool := p\<rparr>))"

section \<open>The factory with SSRCs (\<open>factory.rs\<close>)\<close>

record 'c native_factory =
  nf_cert_pool :: "'c cert_pool"
  nf_ssrc_counter :: u32
  nf_closed :: bool

record native_options =
  no_cert_pool_size :: nat
  no_use_direct_transport :: bool

definition native_options_default :: native_options where
  "native_options_default = \<lparr>no_cert_pool_size = 8, no_use_direct_transport = False\<rparr>"

text \<open>\<open>new\<close>: the counter starts at \<open>seed | 1\<close>.\<close>

definition native_factory_new :: "native_options \<Rightarrow> u32 \<Rightarrow> error + 'c native_factory" where
  "native_factory_new opts seed =
     (let n = (if no_cert_pool_size opts = 0 then 8 else no_cert_pool_size opts)
      in Inr \<lparr>nf_cert_pool = pool_new n, nf_ssrc_counter = or seed 1, nf_closed = False\<rparr>)"

text \<open>The loop of \<open>allocate_ssrc\<close> on the counter.\<close>

function allocate_ssrc_loop :: "u32 \<Rightarrow> u32 \<times> u32" where
  "allocate_ssrc_loop counter =
     (if counter \<noteq> 0 then (counter, counter + 1) else allocate_ssrc_loop (counter + 1))"
  by pat_completeness auto
termination
  by (relation "measure (\<lambda>c. if c = 0 then 1 else 0)") simp_all

declare allocate_ssrc_loop.simps [simp del]

definition allocate_ssrc :: "'c native_factory \<Rightarrow> u32 \<times> 'c native_factory" where
  "allocate_ssrc f =
     (let (v, c) = allocate_ssrc_loop (nf_ssrc_counter f) in (v, f\<lparr>nf_ssrc_counter := c\<rparr>))"

text \<open>\<open>new_stack\<close> up to the transport: its certificate and SSRCs (video 0 when there is none).\<close>

definition new_stack ::
  "string + 'c \<Rightarrow> bool \<Rightarrow> 'c native_factory \<Rightarrow> (error + 'c \<times> u32 \<times> u32) \<times> 'c native_factory" where
  "new_stack gen with_video f =
     (if nf_closed f then (Inl ClosedE, f)
      else
        case pool_take gen (nf_cert_pool f) of
          (Inl e, p) \<Rightarrow> (Inl (Internal e), f\<lparr>nf_cert_pool := p\<rparr>)
        | (Inr cert, p) \<Rightarrow>
            let (a, f1) = allocate_ssrc (f\<lparr>nf_cert_pool := p\<rparr>)
            in if with_video
               then let (v, f2) = allocate_ssrc f1; (_, f3) = allocate_ssrc f2
                    in (Inr (cert, a, v), f3)
               else (Inr (cert, a, 0), f1))"

definition native_factory_close :: "'c native_factory \<Rightarrow> 'c native_factory" where
  "native_factory_close f = f\<lparr>nf_closed := True\<rparr>"

section \<open>SSRCs are unique\<close>

fun allocations :: "nat \<Rightarrow> u32 \<Rightarrow> u32 list" where
  "allocations 0 c = []"
| "allocations (Suc n) c = (let (v, c') = allocate_ssrc_loop c in v # allocations n c')"

text \<open>The position of the next value among the non-zero ones.\<close>

definition ssrc_rank :: "u32 \<Rightarrow> nat" where
  "ssrc_rank c = (if c = 0 then 0 else unat c - 1)"

definition ssrc_at :: "nat \<Rightarrow> u32" where
  "ssrc_at k = of_nat (k mod 4294967295 + 1)"

lemma allocate_loop_value: "allocate_ssrc_loop c = (if c = 0 then 1 else c, if c = 0 then 2 else c + 1)"
  by (simp add: allocate_ssrc_loop.simps [of c] allocate_ssrc_loop.simps [of 1])

lemma ssrc_rank_less: "ssrc_rank c < 4294967295"
  using unat_u32_less [of c] by (auto simp: ssrc_rank_def)

lemma ssrc_at_rank: "ssrc_at (ssrc_rank c) = (if c = 0 then 1 else c)"
proof (cases "c = 0")
  case False
  then have "0 < unat c" by (simp add: unat_gt_0)
  then have "ssrc_rank c mod 4294967295 + 1 = unat c"
    using False ssrc_rank_less [of c] by (simp add: ssrc_rank_def)
  with False show ?thesis by (simp add: ssrc_at_def)
qed (simp add: ssrc_at_def ssrc_rank_def)

lemma ssrc_at_next: "ssrc_at (ssrc_rank (snd (allocate_ssrc_loop c)) + k) = ssrc_at (ssrc_rank c + Suc k)"
proof -
  have "ssrc_rank (if c = 0 then 2 else c + 1) mod 4294967295 = (ssrc_rank c + 1) mod 4294967295"
  proof (cases "unat c + 1 < 4294967296")
    case True
    then have "unat (c + 1) = unat c + 1" by (simp add: unat_word_ariths)
    then show ?thesis by (auto simp: ssrc_rank_def unat_gt_0)
  next
    case False
    then have u: "unat c = 4294967295" using unat_u32_less [of c] by simp
    then have "unat (c + 1) = 0" by (simp add: unat_word_ariths)
    then have "c + 1 = 0" by (simp add: unat_eq_0)
    with u show ?thesis by (auto simp: ssrc_rank_def)
  qed
  then have "(ssrc_rank (if c = 0 then 2 else c + 1) + k) mod 4294967295 = (ssrc_rank c + 1 + k) mod 4294967295"
    by (metis mod_add_left_eq)
  then show ?thesis by (simp add: allocate_loop_value ssrc_at_def)
qed

lemma allocations_at: "allocations n c = map (\<lambda>k. ssrc_at (ssrc_rank c + k)) [0..<n]"
proof (induction n arbitrary: c)
  case (Suc n)
  have "allocations (Suc n) c = fst (allocate_ssrc_loop c) # allocations n (snd (allocate_ssrc_loop c))"
    by (simp add: case_prod_beta Let_def)
  also have "\<dots> = ssrc_at (ssrc_rank c) # map (\<lambda>k. ssrc_at (ssrc_rank c + Suc k)) [0..<n]"
    by (simp add: Suc ssrc_at_next ssrc_at_rank) (simp add: allocate_loop_value)
  also have "\<dots> = map (\<lambda>k. ssrc_at (ssrc_rank c + k)) [0..<Suc n]"
    by (simp add: map_upt_Suc del: upt_Suc)
  finally show ?case .
qed simp

lemma unat_ssrc_at: "unat (ssrc_at k) = k mod 4294967295 + 1"
proof -
  have "k mod 4294967295 < 4294967295" by simp
  then have "(k mod 4294967295 + 1) mod 4294967296 = k mod 4294967295 + 1" by simp
  then show ?thesis by (simp only: ssrc_at_def unat_of_nat) simp
qed

lemma ssrc_at_inj:
  assumes "i < j" "j < i + 4294967295"
  shows "ssrc_at i \<noteq> ssrc_at j"
proof
  assume "ssrc_at i = ssrc_at j"
  then have "unat (ssrc_at i) = unat (ssrc_at j)" by simp
  then have "i mod 4294967295 = j mod 4294967295" by (simp add: unat_ssrc_at)
  then have "4294967295 dvd j - i" using assms(1) by (metis less_imp_le mod_eq_dvd_iff_nat)
  with assms show False by (auto dest: dvd_imp_le)
qed

lemma ssrc_at_nonzero: "ssrc_at k \<noteq> 0"
  using unat_ssrc_at [of k] by auto

text \<open>
  C39. The SSRC counter: the allocation loop ends after at most two rounds, never gives 0, and
  any \<open>2^32 - 1\<close> consecutive allocations are pairwise distinct, across the wrap as well.
\<close>

theorem ssrc_allocations_unique:
  assumes "n \<le> 4294967295"
  shows "distinct (allocations n c) \<and> 0 \<notin> set (allocations n c) \<and> length (allocations n c) = n"
proof -
  have "inj_on (\<lambda>k. ssrc_at (ssrc_rank c + k)) (set [0..<n])"
  proof (rule inj_onI)
    fix i j assume b: "i \<in> set [0..<n]" "j \<in> set [0..<n]"
      and eq: "ssrc_at (ssrc_rank c + i) = ssrc_at (ssrc_rank c + j)"
    show "i = j"
    proof (rule ccontr)
      assume "i \<noteq> j"
      then consider "i < j" | "j < i" by linarith
      then show False
        using eq b assms ssrc_at_inj [of "ssrc_rank c + i" "ssrc_rank c + j"]
          ssrc_at_inj [of "ssrc_rank c + j" "ssrc_rank c + i"] by cases auto
    qed
  qed
  then show ?thesis
    by (auto simp: allocations_at distinct_map ssrc_at_nonzero dest: sym)
qed

lemma ssrc_allocations_unique_witness:
  "distinct (allocations 3 0xFFFFFFFE) \<and> 0 \<notin> set (allocations 3 0xFFFFFFFE)"
  using ssrc_allocations_unique [of 3 "0xFFFFFFFE"] by simp

text \<open>
  The SSRCs of one stack: both non-zero and different, with the number after the video
  SSRC reserved for its retransmissions, except that after \<open>0xFFFFFFFF\<close> the reserved one is
  1, which is not the \<open>video_ssrc + 1 = 0\<close> that the signalling announces.  A closed factory
  allocates nothing.
\<close>

theorem new_stack_ssrcs:
  "(nf_closed f \<longrightarrow> new_stack gen w f = (Inl ClosedE, f))
   \<and> (\<forall>cert a v f'. new_stack gen True f = (Inr (cert, a, v), f') \<longrightarrow>
        a \<noteq> 0 \<and> v \<noteq> 0 \<and> a \<noteq> v
        \<and> nf_ssrc_counter f' = (if v = 0xFFFFFFFF then 2 else v + 2))"
proof (intro conjI impI allI)
  fix cert a v f'
  assume "new_stack gen True f = (Inr (cert, a, v), f')"
  then have al: "allocations 2 (nf_ssrc_counter f) = [a, v]"
    and f': "nf_ssrc_counter f' = snd (allocate_ssrc_loop (snd (allocate_ssrc_loop
          (snd (allocate_ssrc_loop (nf_ssrc_counter f))))))"
    and v: "v = fst (allocate_ssrc_loop (snd (allocate_ssrc_loop (nf_ssrc_counter f))))"
    by (auto simp: new_stack_def allocate_ssrc_def numeral_2_eq_2 Let_def
        split: if_splits prod.splits sum.splits)
  have "distinct [a, v] \<and> 0 \<notin> set [a, v]"
  proof -
    have "ssrc_at (ssrc_rank c) \<noteq> ssrc_at (ssrc_rank c + 1)" for c by (rule ssrc_at_inj) simp_all
    with al show ?thesis by (auto simp: allocations_at ssrc_at_nonzero numeral_2_eq_2)
  qed
  then show "a \<noteq> 0" "v \<noteq> 0" "a \<noteq> v" by auto
  have m1: "v + 1 = 0 \<longleftrightarrow> v = 0xFFFFFFFF"
  proof -
    have "(- 1 :: u32) = 0xFFFFFFFF" by simp
    then show ?thesis by (metis eq_neg_iff_add_eq_0)
  qed
  have "snd (allocate_ssrc_loop (snd (allocate_ssrc_loop (nf_ssrc_counter f)))) = v + 1"
    using v by (simp add: allocate_loop_value)
  with f' m1 show "nf_ssrc_counter f' = (if v = 0xFFFFFFFF then 2 else v + 2)"
    by (simp add: allocate_loop_value)
qed (simp add: new_stack_def)

lemma new_stack_ssrcs_witness:
  "\<exists>f. native_factory_new native_options_default 6 = Inr f
     \<and> new_stack (Inr ()) True (native_factory_close f) = (Inl ClosedE, native_factory_close f)"
  using new_stack_ssrcs [of "native_factory_close _" "Inr ()" True]
  by (simp add: native_factory_close_def native_factory_new_def Let_def)

end
