(* ===== verification/Wrtc_Stack.thy ===== *)
theory Wrtc_Stack
  imports Direct_Transport Peer_Factory
begin

text \<open>
  \<open>src/wrtc/native/stack.rs\<close>, \<open>src/wrtc/native/track.rs\<close> and \<open>src/wrtc/peer_connection.rs\<close>:
  the stack, which owns one direct transport and one state callback, the description of an
  RTP track, and the peer connection, which wraps a stack and forwards its callback through
  spawned tasks.  A callback is a value of a type parameter; an operation returns the calls
  it made as a list of callback and state, so that the owner of the callback can act on them.
\<close>

section \<open>The stack (\<open>stack.rs\<close>)\<close>

record ('s, 'v, 'k) stack =
  sk_direct :: "('s, 'v) direct_transport"
  sk_on_state_change :: "'k option"

definition stack_from_direct :: "('s, 'v) direct_transport \<Rightarrow> ('s, 'v, 'k) stack" where
  "stack_from_direct direct = \<lparr>sk_direct = direct, sk_on_state_change = None\<rparr>"

text \<open>\<open>DirectTransport::new\<close>: both SSRCs are drawn from \<open>0x1000_0000..=0x7FFF_FFFF\<close>.\<close>

definition ssrc_draw_ok :: "u32 \<Rightarrow> bool" where
  "ssrc_draw_ok v \<longleftrightarrow> 0x10000000 \<le> v \<and> v \<le> 0x7FFFFFFF"

definition dt_new ::
  "('s, 'v, 'd) wire_lib \<Rightarrow> random_draw \<Rightarrow> u32 \<times> u32 \<Rightarrow> string \<Rightarrow> ('s, 'v) direct_transport" where
  "dt_new lib r ssrcs fingerprint = dt_new_with_ssrc lib r fingerprint (fst ssrcs) (snd ssrcs)"

text \<open>\<open>new\<close>: a certificate from the factory, then the transport.\<close>

definition stack_new ::
  "('s, 'v, 'd) wire_lib \<Rightarrow> random_draw \<Rightarrow> u32 \<times> u32 \<Rightarrow> string + 'c generated_cert \<Rightarrow>
     'c generated_cert peer_factory \<Rightarrow>
     (error + ('s, 'v, 'k) stack) \<times> 'c generated_cert peer_factory" where
  "stack_new lib r ssrcs gen f =
     (case take_cert gen f of
        (Inl e, f') \<Rightarrow> (Inl e, f')
      | (Inr cert, f') \<Rightarrow>
          (Inr \<lparr>sk_direct = dt_new lib r ssrcs (gc_fingerprint_sha256 cert), sk_on_state_change = None\<rparr>, f'))"

definition stack_audio_ssrc :: "('s, 'v, 'k) stack \<Rightarrow> u32" where
  "stack_audio_ssrc st = dt_audio_ssrc (sk_direct st)"

definition stack_video_ssrc :: "('s, 'v, 'k) stack \<Rightarrow> u32" where
  "stack_video_ssrc st = dt_video_ssrc (sk_direct st)"

definition set_on_state_change :: "'k \<Rightarrow> ('s, 'v, 'k) stack \<Rightarrow> ('s, 'v, 'k) stack" where
  "set_on_state_change cb st = st\<lparr>sk_on_state_change := Some cb\<rparr>"

definition get_local_params_json :: "json_writer \<Rightarrow> ('s, 'v, 'k) stack \<Rightarrow> error + string" where
  "get_local_params_json jw st = dt_build_local_params jw (sk_direct st)"

text \<open>The calls that \<open>if let Some(cb) = on_state_change\<close> makes.\<close>

definition notify_state :: "conn_state \<Rightarrow> ('s, 'v, 'k) stack \<Rightarrow> ('k \<times> conn_state) list" where
  "notify_state s st = (case sk_on_state_change st of Some cb \<Rightarrow> [(cb, s)] | None \<Rightarrow> [])"

text \<open>\<open>connect\<close> up to the spawn of the worker, and its end once the wait is over.\<close>

definition stack_connect_start ::
  "json_reader \<Rightarrow> 'd connect_env \<Rightarrow> string \<Rightarrow> ('s, 'v, 'k) stack \<Rightarrow>
     (error + 'd worker) \<times> ('s, 'v, 'k) stack" where
  "stack_connect_start jr ce remote_json st =
     (case dt_connect_start jr ce remote_json (sk_direct st) of
        (r, dt) \<Rightarrow> (r, st\<lparr>sk_direct := dt\<rparr>))"

definition stack_connect_poll ::
  "bool \<Rightarrow> ('s, 'v, 'k) stack \<Rightarrow> ((error + unit) \<times> ('k \<times> conn_state) list) option" where
  "stack_connect_poll timed_out st =
     (case dt_connect_poll timed_out (sk_direct st) of
        None \<Rightarrow> None
      | Some (Inl e) \<Rightarrow> Some (Inl e, [])
      | Some (Inr _) \<Rightarrow> Some (Inr (), notify_state Connected st))"

definition stack_send_rtp_bytes ::
  "('s, 'v, 'd) wire_lib \<Rightarrow> clock \<Rightarrow> u8 \<Rightarrow> bytes \<Rightarrow> duration_ns \<Rightarrow> ('s, 'v, 'k) stack \<Rightarrow>
     (error + unit) \<times> ('s, 'v, 'k) stack" where
  "stack_send_rtp_bytes lib ck payload_type data duration st =
     (case send_rtp_bytes lib ck payload_type data duration (sk_direct st) of
        (r, dt) \<Rightarrow> (r, st\<lparr>sk_direct := dt\<rparr>))"

text \<open>\<open>write_rtp_frame\<close> ignores the increment it is given and sends 20 ms.\<close>

definition write_rtp_frame ::
  "('s, 'v, 'd) wire_lib \<Rightarrow> clock \<Rightarrow> u8 \<Rightarrow> bytes \<Rightarrow> u32 \<Rightarrow> ('s, 'v, 'k) stack \<Rightarrow>
     (error + unit) \<times> ('s, 'v, 'k) stack" where
  "write_rtp_frame lib ck payload_type data timestamp_increment st =
     stack_send_rtp_bytes lib ck payload_type data 20000000 st"

definition stack_reset_media :: "('s, 'v, 'd) wire_lib \<Rightarrow> ('s, 'v, 'k) stack \<Rightarrow> ('s, 'v, 'k) stack" where
  "stack_reset_media lib st = st\<lparr>sk_direct := reset_media_track_state lib (sk_direct st)\<rparr>"

definition stack_state :: "('s, 'v, 'k) stack \<Rightarrow> conn_state" where
  "stack_state st = dt_current_state (sk_direct st)"

definition stack_close ::
  "('s, 'v, 'k) stack \<Rightarrow> (error + unit) \<times> ('k \<times> conn_state) list \<times> ('s, 'v, 'k) stack" where
  "stack_close st =
     (case dt_close (sk_direct st) of
        (Inl e, dt) \<Rightarrow> (Inl e, [], st\<lparr>sk_direct := dt\<rparr>)
      | (Inr _, dt) \<Rightarrow> (Inr (), notify_state Closed st, st\<lparr>sk_direct := dt\<rparr>))"

text \<open>
  The two constructors of \<open>factory.rs\<close>, which share its certificates and differ in where the
  SSRCs come from: \<open>new_stack\<close> allocates them, \<open>new_direct_transport\<close> draws them.
\<close>

definition factory_new_stack ::
  "('s, 'v, 'd) wire_lib \<Rightarrow> random_draw \<Rightarrow> string + 'c generated_cert \<Rightarrow> bool \<Rightarrow>
     'c generated_cert native_factory \<Rightarrow>
     (error + ('s, 'v, 'k) stack) \<times> 'c generated_cert native_factory" where
  "factory_new_stack lib r gen with_video f =
     (case new_stack gen with_video f of
        (Inl e, f') \<Rightarrow> (Inl e, f')
      | (Inr (cert, audio_ssrc, video_ssrc), f') \<Rightarrow>
          (Inr (stack_from_direct (dt_new_with_ssrc lib r (gc_fingerprint_sha256 cert) audio_ssrc video_ssrc)), f'))"

definition new_direct_transport ::
  "('s, 'v, 'd) wire_lib \<Rightarrow> random_draw \<Rightarrow> u32 \<times> u32 \<Rightarrow> string + 'c generated_cert \<Rightarrow>
     'c generated_cert native_factory \<Rightarrow>
     (error + ('s, 'v) direct_transport) \<times> 'c generated_cert native_factory" where
  "new_direct_transport lib r ssrcs gen f =
     (if nf_closed f then (Inl ClosedE, f)
      else
        case pool_take gen (nf_cert_pool f) of
          (Inl e, p) \<Rightarrow> (Inl (Internal e), f\<lparr>nf_cert_pool := p\<rparr>)
        | (Inr cert, p) \<Rightarrow> (Inr (dt_new lib r ssrcs (gc_fingerprint_sha256 cert)), f\<lparr>nf_cert_pool := p\<rparr>))"

section \<open>Tracks (\<open>track.rs\<close>)\<close>

datatype kind = Audio_kind | Video_kind

record rtp_track =
  tk_kind :: kind
  tk_ssrc :: u32
  tk_clock_rate :: u32
  tk_pt :: u8

definition track_new :: "kind \<Rightarrow> u32 \<Rightarrow> rtp_track" where
  "track_new kind ssrc =
     (let (pt, clock_rate) = (case kind of Audio_kind \<Rightarrow> (111, 48000) | Video_kind \<Rightarrow> (100, 90000))
      in \<lparr>tk_kind = kind, tk_ssrc = ssrc, tk_clock_rate = clock_rate, tk_pt = pt\<rparr>)"

lemma track_new_announced:
  "tk_pt (track_new Audio_kind s) = OPUS_PAYLOAD_TYPE" "tk_clock_rate (track_new Audio_kind s) = OPUS_SAMPLE_RATE"
  "tk_pt (track_new Video_kind s) = VP8_PAYLOAD_TYPE"
  by (simp_all add: track_new_def media_consts)

section \<open>The peer connection (\<open>peer_connection.rs\<close>)\<close>

text \<open>
  The stack's callback spawns a task that reads the registered callback and calls it;
  registering spawns a task that writes it.  \<open>pc_tasks\<close> are the spawned tasks that have not
  run; the scheduler may run any of them next.
\<close>

datatype 'k pc_task = Forward conn_state | Register 'k

record ('s, 'v, 'k) peer_connection =
  pc_stack :: "('s, 'v, unit) stack"
  pc_on_state_change :: "'k option"
  pc_tasks :: "'k pc_task list"

definition pc_new ::
  "('s, 'v, 'd) wire_lib \<Rightarrow> random_draw \<Rightarrow> u32 \<times> u32 \<Rightarrow> string + 'c generated_cert \<Rightarrow>
     'c generated_cert peer_factory \<Rightarrow>
     (error + ('s, 'v, 'k) peer_connection) \<times> 'c generated_cert peer_factory" where
  "pc_new lib r ssrcs gen f =
     (case stack_new lib r ssrcs gen f of
        (Inl e, f') \<Rightarrow> (Inl e, f')
      | (Inr st, f') \<Rightarrow>
          (Inr \<lparr>pc_stack = set_on_state_change () st, pc_on_state_change = None, pc_tasks = []\<rparr>, f'))"

definition pc_forward :: "(unit \<times> conn_state) list \<Rightarrow> ('s, 'v, 'k) peer_connection \<Rightarrow> ('s, 'v, 'k) peer_connection" where
  "pc_forward calls pc = pc\<lparr>pc_tasks := pc_tasks pc @ map (\<lambda>(_, s). Forward s) calls\<rparr>"

definition pc_local_params :: "json_writer \<Rightarrow> ('s, 'v, 'k) peer_connection \<Rightarrow> error + string" where
  "pc_local_params jw pc = get_local_params_json jw (pc_stack pc)"

definition pc_connect_start ::
  "json_reader \<Rightarrow> 'd connect_env \<Rightarrow> string \<Rightarrow> ('s, 'v, 'k) peer_connection \<Rightarrow>
     (error + 'd worker) \<times> ('s, 'v, 'k) peer_connection" where
  "pc_connect_start jr ce remote_json pc =
     (case stack_connect_start jr ce remote_json (pc_stack pc) of (r, st) \<Rightarrow> (r, pc\<lparr>pc_stack := st\<rparr>))"

definition pc_audio_ssrc :: "('s, 'v, 'k) peer_connection \<Rightarrow> u32" where
  "pc_audio_ssrc pc = stack_audio_ssrc (pc_stack pc)"

definition pc_video_ssrc :: "('s, 'v, 'k) peer_connection \<Rightarrow> u32" where
  "pc_video_ssrc pc = stack_video_ssrc (pc_stack pc)"

definition pc_state :: "('s, 'v, 'k) peer_connection \<Rightarrow> conn_state" where
  "pc_state pc = stack_state (pc_stack pc)"

definition pc_connect_poll ::
  "bool \<Rightarrow> ('s, 'v, 'k) peer_connection \<Rightarrow> ((error + unit) \<times> ('s, 'v, 'k) peer_connection) option" where
  "pc_connect_poll timed_out pc =
     (case stack_connect_poll timed_out (pc_stack pc) of
        None \<Rightarrow> None
      | Some (r, calls) \<Rightarrow> Some (r, pc_forward calls pc))"

definition pc_on_connection_state_change :: "'k \<Rightarrow> ('s, 'v, 'k) peer_connection \<Rightarrow> ('s, 'v, 'k) peer_connection" where
  "pc_on_connection_state_change cb pc = pc\<lparr>pc_tasks := pc_tasks pc @ [Register cb]\<rparr>"

definition pc_close :: "('s, 'v, 'k) peer_connection \<Rightarrow> (error + unit) \<times> ('s, 'v, 'k) peer_connection" where
  "pc_close pc =
     (case stack_close (pc_stack pc) of
        (r, calls, st) \<Rightarrow> (r, pc_forward calls (pc\<lparr>pc_stack := st\<rparr>)))"

text \<open>Running the \<open>i\<close>th pending task, with the call it makes.\<close>

definition pc_run_task ::
  "nat \<Rightarrow> ('s, 'v, 'k) peer_connection \<Rightarrow> ('k \<times> conn_state) list \<times> ('s, 'v, 'k) peer_connection" where
  "pc_run_task i pc =
     (if length (pc_tasks pc) \<le> i then ([], pc)
      else
        let rest = take i (pc_tasks pc) @ drop (Suc i) (pc_tasks pc) in
        case pc_tasks pc ! i of
          Forward s \<Rightarrow>
            (case pc_on_state_change pc of Some cb \<Rightarrow> [(cb, s)] | None \<Rightarrow> [], pc\<lparr>pc_tasks := rest\<rparr>)
        | Register cb \<Rightarrow> ([], pc\<lparr>pc_on_state_change := Some cb, pc_tasks := rest\<rparr>))"

section \<open>What the stack adds to the transport\<close>

lemma stack_close_fields [simp]:
  "fst (stack_close st) = Inr ()"
  "sk_direct (snd (snd (stack_close st))) = snd (dt_close (sk_direct st))"
  "sk_on_state_change (snd (snd (stack_close st))) = sk_on_state_change st"
  by (simp_all add: stack_close_def dt_close_def)

lemma notify_state_cong: "sk_on_state_change st = sk_on_state_change st' \<Longrightarrow> notify_state s st = notify_state s st'"
  by (simp add: notify_state_def)

lemma stack_close_calls [simp]: "fst (snd (stack_close st)) = notify_state Closed st"
  by (simp add: stack_close_def dt_close_def)

fun close_times :: "nat \<Rightarrow> ('s, 'v, 'k) stack \<Rightarrow> ('k \<times> conn_state) list \<times> ('s, 'v, 'k) stack" where
  "close_times 0 st = ([], st)"
| "close_times (Suc n) st =
     (let (_, calls, st1) = stack_close st; (more, st2) = close_times n st1 in (calls @ more, st2))"

lemma stack_close_idem:
  "snd (snd (stack_close (snd (snd (stack_close st))))) = snd (snd (stack_close st))"
  by (simp add: stack_close_def dt_close_def)

lemma close_times_closed:
  "snd (snd (stack_close st)) = st \<Longrightarrow>
     close_times n st = (concat (replicate n (notify_state Closed st)), st)"
proof (induction n)
  case (Suc n)
  then show ?case by (simp add: case_prod_beta)
qed simp

text \<open>
  Closing a stack is idempotent for the transport and not for its owner: \<open>n\<close> closes leave
  the state that one leaves, with the transport in state \<open>Closed\<close> (unless the transport had
  been closed behind the stack), and call the registered callback \<open>n\<close> times with \<open>Closed\<close>.
\<close>

theorem stack_close_notifies_again:
  "close_times (Suc n) st =
     (concat (replicate (Suc n) (notify_state Closed st)), snd (snd (stack_close st)))
   \<and> dt_is_closed (sk_direct (snd (snd (stack_close st))))
   \<and> (\<not> dt_is_closed (sk_direct st) \<longrightarrow> stack_state (snd (snd (stack_close st))) = Closed)"
proof -
  let ?s1 = "snd (snd (stack_close st))"
  have "close_times n ?s1 = (concat (replicate n (notify_state Closed ?s1)), ?s1)"
    by (rule close_times_closed) (rule stack_close_idem)
  moreover have "notify_state Closed ?s1 = notify_state Closed st"
    by (rule notify_state_cong) simp
  ultimately have 1: "close_times (Suc n) st =
      (concat (replicate (Suc n) (notify_state Closed st)), ?s1)"
    by (simp add: case_prod_beta)
  have "dt_is_closed (sk_direct ?s1)" by (simp add: dt_close_def dt_is_closed_def)
  moreover have "\<not> dt_is_closed (sk_direct st) \<Longrightarrow> stack_state ?s1 = Closed"
    by (simp add: stack_state_def dt_close_def dt_is_closed_def dt_current_state_def conn_state_of_i32_def)
  ultimately show ?thesis using 1 by blast
qed

lemma stack_close_notifies_again_witness:
  "fst (close_times 2 (set_on_state_change ''cb'' (stack_from_direct echo_transport))) =
     [(''cb'', Closed), (''cb'', Closed)]
   \<and> stack_state (snd (snd (stack_close (set_on_state_change ''cb'' (stack_from_direct echo_transport))))) = Closed"
  using stack_close_notifies_again [of 1 "set_on_state_change ''cb'' (stack_from_direct echo_transport)"]
  by (simp add: numeral_2_eq_2 set_on_state_change_def stack_from_direct_def notify_state_def
      dt_is_closed_def echo_transport_def dt_new_with_ssrc_def)

text \<open>
  A peer connection can lose a state change: the state is forwarded by one spawned task
  and the callback registered by another, so for a callback that was registered before the
  connection was closed the scheduler decides whether it hears of \<open>Closed\<close>: run in the order
  they were spawned it is called once, the other way round never.
\<close>

theorem pc_notification_race:
  assumes "pc_tasks pc = []" "pc_on_state_change pc = None" "sk_on_state_change (pc_stack pc) = Some ()"
    and "pc1 = snd (pc_close (pc_on_connection_state_change cb pc))"
  shows "fst (pc_run_task 0 (snd (pc_run_task 0 pc1))) = [(cb, Closed)]
    \<and> fst (pc_run_task 1 pc1) = [] \<and> fst (pc_run_task 0 (snd (pc_run_task 1 pc1))) = []
    \<and> pc_tasks (snd (pc_run_task 0 (snd (pc_run_task 1 pc1)))) = []"
proof -
  have "pc_tasks pc1 = [Register cb, Forward Closed]" "pc_on_state_change pc1 = None"
    using assms by (simp_all add: pc_close_def pc_on_connection_state_change_def pc_forward_def
        stack_close_def dt_close_def notify_state_def)
  then show ?thesis by (simp add: pc_run_task_def)
qed

lemma pc_notification_race_witness:
  "let pc = \<lparr>pc_stack = set_on_state_change () (stack_from_direct echo_transport),
             pc_on_state_change = None, pc_tasks = []\<rparr>
   in fst (pc_run_task 1 (snd (pc_close (pc_on_connection_state_change ''cb'' pc)))) = []"
  unfolding Let_def
  by (rule pc_notification_race [THEN conjunct2, THEN conjunct1, OF _ _ _ refl])
    (simp_all add: set_on_state_change_def)

end
