(* ===== verification/Keepalive.thy ===== *)
theory Keepalive
  imports Wrtc_Stack
begin

text \<open>
  \<open>src/wrtc/keepalive.rs\<close>: the monitor of a factory's stacks.  \<open>pm_tick\<close> is the check of one
  stack; the stack's state, its video SSRC and the wall clock are arguments, the tasks that it
  spawns (closing the stack, sending a padding packet) are returned.  The monitor keeps the
  entries by the address of their stack and one watch channel for its cancellation.
\<close>

section \<open>One stack\<close>

definition KEEPALIVE_TICK_INTERVAL :: duration_ns where "KEEPALIVE_TICK_INTERVAL = 2 * 1000000000"
definition MONITOR_POLL_INTERVAL :: duration_ns where "MONITOR_POLL_INTERVAL = 1000000000"
definition ICE_CHECKING_TIMEOUT :: duration_ns where "ICE_CHECKING_TIMEOUT = 35 * 1000000000"

record pc_monitor_entry =
  pm_checking_ns :: int
  pm_ever_connected :: bool

definition pm_new :: pc_monitor_entry where
  "pm_new = \<lparr>pm_checking_ns = 0, pm_ever_connected = False\<rparr>"

datatype pm_task = Close_stack | Send_padding u8 bytes duration_ns

definition padding_task :: pm_task where
  "padding_task = Send_padding VP8_PAYLOAD_TYPE [0x90, 0x80, 0xe0, 0x00, 0x00] 66000000"

definition pm_tick ::
  "conn_state \<Rightarrow> u32 \<Rightarrow> nat \<Rightarrow> bool \<Rightarrow> pc_monitor_entry \<Rightarrow> pm_task list \<times> pc_monitor_entry" where
  "pm_tick state video_ssrc unix_ns do_keepalive e =
     (if state \<noteq> Connected then
        (if pm_ever_connected e then ([], e)
         else
           let now = as_i64 (int unix_ns); start = pm_checking_ns e in
           if start = 0 then ([], e\<lparr>pm_checking_ns := now\<rparr>)
           else if ICE_CHECKING_TIMEOUT < nat \<bar>as_i64 (now - start)\<bar> then ([Close_stack], e)
           else ([], e))
      else
        (if do_keepalive \<and> video_ssrc \<noteq> 0 then [padding_task] else [],
         e\<lparr>pm_ever_connected := True, pm_checking_ns := 0\<rparr>))"

section \<open>The monitor\<close>

text \<open>
  \<open>fm_cancel\<close>: a cancellation the task has not seen.  A receiver that subscribes has seen
  every value sent before, and \<open>send\<close> without a receiver fails.
\<close>

record factory_monitor =
  fm_entries :: "nat \<rightharpoonup> pc_monitor_entry"
  fm_started :: bool
  fm_stopped :: bool
  fm_cancel :: bool
  fm_running :: bool
  fm_tick_count :: u64

definition fm_new :: factory_monitor where
  "fm_new = \<lparr>fm_entries = Map.empty, fm_started = False, fm_stopped = False, fm_cancel = False,
             fm_running = False, fm_tick_count = 0\<rparr>"

definition fm_start :: "factory_monitor \<Rightarrow> factory_monitor" where
  "fm_start m =
     (if fm_started m then m
      else m\<lparr>fm_started := True, fm_running := True, fm_cancel := False, fm_tick_count := 0\<rparr>)"

definition fm_stop :: "factory_monitor \<Rightarrow> factory_monitor" where
  "fm_stop m =
     (if fm_stopped m then m
      else m\<lparr>fm_stopped := True, fm_cancel := fm_running m\<rparr>)"

definition fm_register :: "nat \<Rightarrow> factory_monitor \<Rightarrow> factory_monitor" where
  "fm_register key m = m\<lparr>fm_entries := (fm_entries m)(key \<mapsto> pm_new)\<rparr>"

definition fm_unregister :: "nat \<Rightarrow> factory_monitor \<Rightarrow> factory_monitor" where
  "fm_unregister key m = m\<lparr>fm_entries := (fm_entries m)(key := None)\<rparr>"

definition keepalive_every :: u64 where
  "keepalive_every =
     of_nat ((KEEPALIVE_TICK_INTERVAL div 1000000) div (MONITOR_POLL_INTERVAL div 1000000))"

text \<open>
  The branch of the timer: every entry is checked; \<open>world\<close> gives state and video SSRC of a
  stack.  The result is the tasks spawned for each stack.
\<close>

definition fm_tick ::
  "(nat \<Rightarrow> conn_state \<times> u32) \<Rightarrow> nat \<Rightarrow> factory_monitor \<Rightarrow> (nat \<Rightarrow> pm_task list) \<times> factory_monitor" where
  "fm_tick world unix_ns m =
     (let count = fm_tick_count m + 1;
          do_keepalive = (count mod keepalive_every = 0);
          check = (\<lambda>k. map_option
                     (\<lambda>e. pm_tick (fst (world k)) (snd (world k)) unix_ns do_keepalive e) (fm_entries m k))
      in (\<lambda>k. case check k of None \<Rightarrow> [] | Some (ts, _) \<Rightarrow> ts,
          m\<lparr>fm_tick_count := count, fm_entries := (\<lambda>k. map_option snd (check k))\<rparr>))"

text \<open>A step of the monitor task: the timer, or the change of the cancellation.\<close>

datatype fm_event = Timer "nat \<Rightarrow> conn_state \<times> u32" nat | Cancelled

definition fm_task_step ::
  "fm_event \<Rightarrow> factory_monitor \<Rightarrow> ((nat \<Rightarrow> pm_task list) \<times> factory_monitor) option" where
  "fm_task_step ev m =
     (if \<not> fm_running m then None
      else case ev of
             Timer world now \<Rightarrow> Some (fm_tick world now m)
           | Cancelled \<Rightarrow>
               if fm_cancel m then Some (\<lambda>_. [], m\<lparr>fm_cancel := False, fm_running := False\<rparr>) else None)"

datatype fm_action = Task fm_event | Start | Stop_monitor | Register_stack nat | Unregister_stack nat

fun fm_act :: "fm_action \<Rightarrow> factory_monitor \<Rightarrow> ((nat \<Rightarrow> pm_task list) \<times> factory_monitor) option" where
  "fm_act (Task ev) m = fm_task_step ev m"
| "fm_act Start m = Some (\<lambda>_. [], fm_start m)"
| "fm_act Stop_monitor m = Some (\<lambda>_. [], fm_stop m)"
| "fm_act (Register_stack k) m = Some (\<lambda>_. [], fm_register k m)"
| "fm_act (Unregister_stack k) m = Some (\<lambda>_. [], fm_unregister k m)"

fun fm_run :: "fm_action list \<Rightarrow> factory_monitor \<Rightarrow> ((nat \<Rightarrow> pm_task list) list \<times> factory_monitor) option" where
  "fm_run [] m = Some ([], m)"
| "fm_run (a # as) m =
     (case fm_act a m of
        None \<Rightarrow> None
      | Some (ts, m1) \<Rightarrow> (case fm_run as m1 of None \<Rightarrow> None | Some (tss, m2) \<Rightarrow> Some (ts # tss, m2)))"

section \<open>A stack that never connects\<close>

fun pm_ticks ::
  "(conn_state \<times> u32 \<times> nat \<times> bool) list \<Rightarrow> pc_monitor_entry \<Rightarrow> pm_task list list \<times> pc_monitor_entry" where
  "pm_ticks [] e = ([], e)"
| "pm_ticks ((s, v, t, k) # ts) e =
     (let (r, e1) = pm_tick s v t k e; (rs, e2) = pm_ticks ts e1 in (r # rs, e2))"

lemma pm_tick_waiting:
  assumes "pm_checking_ns e = int t0" "0 < t0" "\<not> pm_ever_connected e" "t0 \<le> t" "t < 2 ^ 63" "s \<noteq> Connected"
  shows "pm_tick s v t k e = (if 35000000000 < t - t0 then [Close_stack] else [], e)"
proof -
  have "as_i64 (int t) = int t" "as_i64 (int t - int t0) = int t - int t0"
    using assms by (auto intro!: as_i64_id)
  moreover have "nat \<bar>int t - int t0\<bar> = t - t0" using assms(4) by simp
  ultimately show ?thesis using assms by (simp add: pm_tick_def Let_def ICE_CHECKING_TIMEOUT_def)
qed

lemma pm_ticks_waiting:
  assumes "pm_checking_ns e = int t0" "0 < t0" "\<not> pm_ever_connected e"
    and "\<forall>(s, v, t, k) \<in> set ticks. s \<noteq> Connected \<and> t0 \<le> t \<and> t < 2 ^ 63"
  shows "pm_ticks ticks e =
     (map (\<lambda>(s, v, t, k). if 35000000000 < t - t0 then [Close_stack] else []) ticks, e)"
  using assms(4)
proof (induction ticks)
  case (Cons x ticks)
  obtain s v t k where x: "x = (s, v, t, k)" by (cases x)
  have "pm_tick s v t k e = (if 35000000000 < t - t0 then [Close_stack] else [], e)"
    using assms(1-3) Cons.prems x by (intro pm_tick_waiting) auto
  with Cons x show ?case by simp
qed simp

text \<open>
  A stack that does not connect: the first check starts its clock and closes nothing, and
  every check more than 35 s after the first one, and no other, orders it closed; as long as
  the entry is not unregistered each of these checks orders it again, although the stack has
  been closed.
\<close>

theorem never_connected_closed_again:
  assumes "0 < t0" "t0 < 2 ^ 63" "s0 \<noteq> Connected"
    and "\<forall>(s, v, t, k) \<in> set ticks. s \<noteq> Connected \<and> t0 \<le> t \<and> t < 2 ^ 63"
  shows "fst (pm_ticks ((s0, v0, t0, k0) # ticks) pm_new) =
    [] # map (\<lambda>(s, v, t, k). if 35000000000 < t - t0 then [Close_stack] else []) ticks"
proof -
  have "as_i64 (int t0) = int t0" using assms(1,2) by (auto intro!: as_i64_id)
  then have "pm_tick s0 v0 t0 k0 pm_new = ([], pm_new\<lparr>pm_checking_ns := int t0\<rparr>)"
    using assms(3) by (simp add: pm_tick_def pm_new_def)
  moreover have "pm_ticks ticks (pm_new\<lparr>pm_checking_ns := int t0\<rparr>) =
      (map (\<lambda>(s, v, t, k). if 35000000000 < t - t0 then [Close_stack] else []) ticks,
       pm_new\<lparr>pm_checking_ns := int t0\<rparr>)"
    by (rule pm_ticks_waiting [OF _ assms(1) _ assms(4)]) (simp_all add: pm_new_def)
  ultimately show ?thesis by simp
qed

lemma never_connected_closed_again_witness:
  "fst (pm_ticks [(Connecting, 5, 1, False), (Connecting, 5, 35000000001, True),
       (Connecting, 5, 35000000002, False), (Closed, 5, 36000000002, True)] pm_new) =
     [[], [], [Close_stack], [Close_stack]]"
  using never_connected_closed_again [of 1 Connecting "[(Connecting, 5, 35000000001, True),
      (Connecting, 5, 35000000002, False), (Closed, 5, 36000000002, True)]" 5 False]
  by simp

text \<open>
  A stack that was connected once is never closed by the monitor again, however long it is
  down; it gets its padding packet exactly at the keepalive checks of the time it is connected.
\<close>

lemma pm_tick_connected_once:
  assumes "pm_ever_connected e"
  shows "pm_ever_connected (snd (pm_tick s v t k e))
    \<and> fst (pm_tick s v t k e) = (if s = Connected \<and> k \<and> v \<noteq> 0 then [padding_task] else [])"
  using assms by (simp add: pm_tick_def)

lemma pm_ticks_connected_once:
  "pm_ever_connected e \<Longrightarrow>
     fst (pm_ticks ticks e) =
       map (\<lambda>(s, v, t, k). if s = Connected \<and> k \<and> v \<noteq> 0 then [padding_task] else []) ticks"
proof (induction ticks arbitrary: e)
  case (Cons x ticks)
  obtain s v t k where x: "x = (s, v, t, k)" by (cases x)
  have p: "pm_ever_connected (snd (pm_tick s v t k e))"
    "fst (pm_tick s v t k e) = (if s = Connected \<and> k \<and> v \<noteq> 0 then [padding_task] else [])"
    using pm_tick_connected_once [OF Cons.prems] by blast+
  with Cons.IH [OF p(1)] x show ?case by (simp add: case_prod_beta)
qed simp

text \<open>
  After the first check that finds a stack connected the monitor never closes it, however
  long it is disconnected or failed, and sends one padding packet at exactly those keepalive
  checks that find it connected with a video SSRC; the check itself follows the same rule.
\<close>

theorem connected_once_kept_alive:
  "fst (pm_ticks ((Connected, v, t, k) # ticks) e) =
     map (\<lambda>(s, v, t, k). if s = Connected \<and> k \<and> v \<noteq> 0 then [padding_task] else [])
       ((Connected, v, t, k) # ticks)"
proof -
  have "pm_tick Connected v t k e =
      (if k \<and> v \<noteq> 0 then [padding_task] else [], e\<lparr>pm_ever_connected := True, pm_checking_ns := 0\<rparr>)"
    by (simp add: pm_tick_def)
  moreover have "pm_ever_connected (e\<lparr>pm_ever_connected := True, pm_checking_ns := 0\<rparr>)" by simp
  ultimately show ?thesis
    using pm_ticks_connected_once [of "e\<lparr>pm_ever_connected := True, pm_checking_ns := 0\<rparr>" ticks]
    by (simp add: case_prod_beta)
qed

section \<open>The task\<close>

lemma fm_tick_fields [simp]:
  "fm_started (snd (fm_tick w t m)) = fm_started m" "fm_stopped (snd (fm_tick w t m)) = fm_stopped m"
  "fm_cancel (snd (fm_tick w t m)) = fm_cancel m" "fm_running (snd (fm_tick w t m)) = fm_running m"
  "fm_tick_count (snd (fm_tick w t m)) = fm_tick_count m + 1"
  by (simp_all add: fm_tick_def Let_def)

definition fm_unstoppable :: "factory_monitor \<Rightarrow> bool" where
  "fm_unstoppable m \<longleftrightarrow> fm_started m \<and> fm_stopped m \<and> fm_running m \<and> \<not> fm_cancel m"

lemma fm_unstoppable_act:
  "fm_unstoppable m \<Longrightarrow> fm_act a m = Some (ts, m') \<Longrightarrow> fm_unstoppable m'"
proof (cases a)
  case (Task ev)
  then show "fm_unstoppable m \<Longrightarrow> fm_act a m = Some (ts, m') \<Longrightarrow> ?thesis"
    by (cases ev) (auto simp: fm_task_step_def fm_unstoppable_def dest!: arg_cong [of "fm_tick _ _ _" _ snd] split: if_splits)
qed (auto simp: fm_unstoppable_def fm_start_def fm_stop_def fm_register_def fm_unregister_def)

lemma fm_unstoppable_run:
  "fm_run as m = Some (tss, m') \<Longrightarrow> fm_unstoppable m \<Longrightarrow> fm_unstoppable m'"
proof (induction as arbitrary: tss m)
  case (Cons a as)
  then obtain ts m1 tss1 where s: "fm_act a m = Some (ts, m1)" "fm_run as m1 = Some (tss1, m')"
    by (auto split: option.splits)
  from fm_unstoppable_act [OF Cons.prems(2) s(1)] show ?case by (rule Cons.IH [OF s(2)])
qed simp

text \<open>
  Stopping before starting is lost: the cancellation is sent when no task listens, so a
  monitor that is stopped and then started runs for ever; no later sequence of calls, stops
  included, ends it, and its next check is always possible.
\<close>

theorem stop_before_start_lost:
  assumes "\<not> fm_started m" "\<not> fm_running m" "fm_run as (fm_start (fm_stop m)) = Some (tss, m')"
  shows "fm_running m' \<and> fm_task_step Cancelled m' = None
    \<and> fm_task_step (Timer w t) m' = Some (fm_tick w t m')"
proof -
  have "fm_unstoppable (fm_start (fm_stop m))"
    using assms(1,2) by (simp add: fm_unstoppable_def fm_start_def fm_stop_def)
  with assms(3) have "fm_unstoppable m'" by (rule fm_unstoppable_run)
  then show ?thesis by (simp add: fm_unstoppable_def fm_task_step_def)
qed

lemma stop_before_start_lost_witness:
  "fm_running (snd (the (fm_run [Stop_monitor, Register_stack 4] (fm_start (fm_stop fm_new)))))"
proof -
  have "fm_run [Stop_monitor, Register_stack 4] (fm_start (fm_stop fm_new)) =
      Some ([\<lambda>_. [], \<lambda>_. []], fm_register 4 (fm_stop (fm_start (fm_stop fm_new))))" by simp
  from stop_before_start_lost [OF _ _ this] show ?thesis by (simp add: fm_new_def)
qed

end
