(* ===== verification/Call_Contract.thy ===== *)
theory Call_Contract
  imports Models
begin

text \<open>
  \<open>src/instances/call.rs\<close>: the interface through which the client drives a call.  The trait's
  state-changing operations without arguments are \<open>call_op\<close> and \<open>stop\<close>; what they promise is
  stated on an abstract call of three flags, \<open>spec_op\<close> and \<open>spec_stop\<close>.  The locale
  \<open>call_contract\<close> says that an implementation refines it under an abstraction \<open>view\<close>;
  \<open>resume\<close> may fail to start a process, but then the flag has changed nevertheless.
  \<open>reliable_call\<close> is the contract of an implementation whose \<open>resume\<close> cannot fail.
\<close>

section \<open>The abstract call\<close>

datatype call_op = Op_pause | Op_resume | Op_mute | Op_unmute

record call_view =
  cv_closed :: bool
  cv_paused :: bool
  cv_muted :: bool

definition set_flag :: "call_op \<Rightarrow> call_view \<Rightarrow> call_view" where
  "set_flag a v =
     (case a of Op_pause \<Rightarrow> v\<lparr>cv_paused := True\<rparr> | Op_resume \<Rightarrow> v\<lparr>cv_paused := False\<rparr>
      | Op_mute \<Rightarrow> v\<lparr>cv_muted := True\<rparr> | Op_unmute \<Rightarrow> v\<lparr>cv_muted := False\<rparr>)"

text \<open>An operation on an open call sets its flag and says whether that changed anything.\<close>

definition spec_op :: "call_op \<Rightarrow> call_view \<Rightarrow> (error + bool) \<times> call_view" where
  "spec_op a v = (if cv_closed v then (Inl ClosedE, v) else (Inr (set_flag a v \<noteq> v), set_flag a v))"

definition spec_stop :: "call_view \<Rightarrow> call_view" where
  "spec_stop v =
     (if cv_closed v then v else \<lparr>cv_closed = True, cv_paused = False, cv_muted = False\<rparr>)"

text \<open>What \<open>state()\<close> reports of it; whether video is stopped is up to the implementation.\<close>

definition spec_state :: "bool \<Rightarrow> call_view \<Rightarrow> media_state" where
  "spec_state video_stopped v =
     \<lparr>ms_muted = cv_muted v, ms_paused = cv_muted v \<or> cv_paused v, ms_video_stopped = video_stopped,
      ms_presentation_paused = cv_muted v \<or> cv_paused v\<rparr>"

text \<open>A sequence of operations, each with the environment it meets.\<close>

fun run_ops :: "('i \<Rightarrow> call_op \<Rightarrow> 'c \<Rightarrow> (error + bool) \<times> 'c) \<Rightarrow> ('i \<times> call_op) list \<Rightarrow> 'c \<Rightarrow>
    (error + bool) list \<times> 'c" where
  "run_ops f [] c = ([], c)"
| "run_ops f ((i, a) # xs) c =
     (let (r, c1) = f i a c; (rs, c2) = run_ops f xs c1 in (r # rs, c2))"

abbreviation spec_ops :: "('i \<times> call_op) list \<Rightarrow> call_view \<Rightarrow> (error + bool) list \<times> call_view" where
  "spec_ops \<equiv> run_ops (\<lambda>_. spec_op)"

lemma set_flag_twice [simp]: "set_flag a (set_flag a v) = set_flag a v"
  by (cases a) (simp_all add: set_flag_def)

lemma set_flag_closed [simp]: "cv_closed (set_flag a v) = cv_closed v"
  by (cases a) (simp_all add: set_flag_def)

lemma spec_ops_closed: "cv_closed v \<Longrightarrow> spec_ops xs v = (map (\<lambda>_. Inl ClosedE) xs, v)"
  by (induction xs) (simp_all add: spec_op_def split_paired_all)

lemma spec_ops_open [simp]: "cv_closed (snd (spec_ops xs v)) = cv_closed v"
proof (induction xs arbitrary: v)
  case (Cons x xs)
  then show ?case by (cases x) (simp add: spec_op_def case_prod_beta)
qed simp

lemma flag_update_eq_iff:
  "v\<lparr>cv_paused := b\<rparr> = v \<longleftrightarrow> cv_paused v = b" "v\<lparr>cv_muted := b\<rparr> = v \<longleftrightarrow> cv_muted v = b"
proof -
  show "v\<lparr>cv_paused := b\<rparr> = v \<longleftrightarrow> cv_paused v = b"
  proof
    assume "v\<lparr>cv_paused := b\<rparr> = v"
    then have "cv_paused (v\<lparr>cv_paused := b\<rparr>) = cv_paused v" by (rule arg_cong)
    then show "cv_paused v = b" by simp
  qed auto
  show "v\<lparr>cv_muted := b\<rparr> = v \<longleftrightarrow> cv_muted v = b"
  proof
    assume "v\<lparr>cv_muted := b\<rparr> = v"
    then have "cv_muted (v\<lparr>cv_muted := b\<rparr>) = cv_muted v" by (rule arg_cong)
    then show "cv_muted v = b" by simp
  qed auto
qed

lemma set_flag_eq_iff:
  "set_flag Op_pause v = v \<longleftrightarrow> cv_paused v" "set_flag Op_resume v = v \<longleftrightarrow> \<not> cv_paused v"
  "set_flag Op_mute v = v \<longleftrightarrow> cv_muted v" "set_flag Op_unmute v = v \<longleftrightarrow> \<not> cv_muted v"
  by (simp_all add: set_flag_def flag_update_eq_iff)

lemma spec_op_cases:
  "\<not> cv_closed v \<Longrightarrow> spec_op Op_pause v = (Inr (\<not> cv_paused v), v\<lparr>cv_paused := True\<rparr>)"
  "\<not> cv_closed v \<Longrightarrow> spec_op Op_resume v = (Inr (cv_paused v), v\<lparr>cv_paused := False\<rparr>)"
  "\<not> cv_closed v \<Longrightarrow> spec_op Op_mute v = (Inr (\<not> cv_muted v), v\<lparr>cv_muted := True\<rparr>)"
  "\<not> cv_closed v \<Longrightarrow> spec_op Op_unmute v = (Inr (cv_muted v), v\<lparr>cv_muted := False\<rparr>)"
  by (simp_all add: spec_op_def set_flag_eq_iff) (simp_all add: set_flag_def)

section \<open>Changes alternate\<close>

text \<open>
  The reports of change for one flag: \<open>True\<close> for an operation that switched it on, \<open>False\<close>
  for one that switched it off.
\<close>

fun changes :: "call_op \<Rightarrow> call_op \<Rightarrow> (('i \<times> call_op) \<times> (error + bool)) list \<Rightarrow> bool list" where
  "changes on off [] = []"
| "changes on off (((i, a), r) # xs) =
     (if r = Inr True \<and> a = on then True # changes on off xs
      else if r = Inr True \<and> a = off then False # changes on off xs
      else changes on off xs)"

text \<open>\<open>alternates b xs\<close>: \<open>xs\<close> is \<open>\<not> b, b, \<not> b, \<dots>\<close>\<close>

fun alternates :: "bool \<Rightarrow> bool list \<Rightarrow> bool" where
  "alternates b [] = True"
| "alternates b (x # xs) = (x \<noteq> b \<and> alternates x xs)"

lemma pause_changes_alternate:
  "alternates (cv_paused v) (changes Op_pause Op_resume (zip xs (fst (spec_ops xs v))))"
proof (induction xs arbitrary: v)
  case (Cons x xs)
  obtain i a where x: "x = (i, a)" by (cases x)
  show ?case
  proof (cases "cv_closed v")
    case True
    with Cons x show ?thesis by (simp add: spec_op_def case_prod_beta)
  next
    case False
    with Cons [of "snd (spec_op a v)"] x show ?thesis
      by (cases a; cases "cv_paused v") (simp_all add: spec_op_cases case_prod_beta)
  qed
qed simp

lemma mute_changes_alternate:
  "alternates (cv_muted v) (changes Op_mute Op_unmute (zip xs (fst (spec_ops xs v))))"
proof (induction xs arbitrary: v)
  case (Cons x xs)
  obtain i a where x: "x = (i, a)" by (cases x)
  show ?case
  proof (cases "cv_closed v")
    case True
    with Cons x show ?thesis by (simp add: spec_op_def case_prod_beta)
  next
    case False
    with Cons [of "snd (spec_op a v)"] x show ?thesis
      by (cases a; cases "cv_muted v") (simp_all add: spec_op_cases case_prod_beta)
  qed
qed simp

section \<open>The contract\<close>

locale call_contract =
  fixes perform :: "'i \<Rightarrow> call_op \<Rightarrow> 'c \<Rightarrow> (error + bool) \<times> 'c"
    and stop :: "'c \<Rightarrow> 'c"
    and view :: "'c \<Rightarrow> call_view"
    and state :: "'c \<Rightarrow> media_state"
    and video_stopped :: "'c \<Rightarrow> bool"
  assumes view_perform: "view (snd (perform i a c)) = snd (spec_op a (view c))"
    and result_perform:
      "fst (perform i a c) = fst (spec_op a (view c)) \<or>
       (a = Op_resume \<and> fst (spec_op a (view c)) = Inr True \<and> (\<exists>m. fst (perform i a c) = Inl (FFmpegSpawn m)))"
    and view_stop: "view (stop c) = spec_stop (view c)"
    and state_view: "state c = spec_state (video_stopped c) (view c)"
begin

lemma run_view: "view (snd (run_ops perform xs c)) = snd (spec_ops xs (view c))"
proof (induction xs arbitrary: c)
  case (Cons x xs)
  then show ?case by (cases x) (simp add: case_prod_beta view_perform)
qed simp

lemma run_results:
  "(\<And>m. Inl (FFmpegSpawn m) \<notin> set (fst (run_ops perform xs c))) \<Longrightarrow>
     fst (run_ops perform xs c) = fst (spec_ops xs (view c))"
proof (induction xs arbitrary: c)
  case (Cons x xs)
  obtain i a where x: "x = (i, a)" by (cases x)
  have "fst (perform i a c) \<noteq> Inl (FFmpegSpawn m)" for m
    using Cons.prems [of m] x by (auto simp: case_prod_beta)
  then have "fst (perform i a c) = fst (spec_op a (view c))" using result_perform by blast
  moreover have "Inl (FFmpegSpawn m) \<notin> set (fst (run_ops perform xs (snd (perform i a c))))" for m
    using Cons.prems [of m] x by (auto simp: case_prod_beta)
  ultimately show ?case using Cons.IH [of "snd (perform i a c)"] x
    by (simp add: case_prod_beta view_perform)
qed simp

lemma closed_absorbs:
  assumes "cv_closed (view c)"
  shows "fst (run_ops perform xs c) = map (\<lambda>_. Inl ClosedE) xs"
  using assms
proof (induction xs arbitrary: c)
  case (Cons x xs)
  obtain i a where x: "x = (i, a)" by (cases x)
  have s: "spec_op a (view c) = (Inl ClosedE, view c)" using Cons.prems by (simp add: spec_op_def)
  then have "fst (perform i a c) = Inl ClosedE" using result_perform [of i a c] by auto
  moreover have "view (snd (perform i a c)) = view c" by (simp add: view_perform s)
  ultimately show ?case using Cons x by (simp add: case_prod_beta)
qed simp

lemma stop_absorbs: "fst (run_ops perform xs (stop c)) = map (\<lambda>_. Inl ClosedE) xs"
  by (rule closed_absorbs) (simp add: view_stop spec_stop_def)

lemma stop_state:
  "\<not> cv_closed (view c) \<Longrightarrow> ms_muted (state (stop c)) = False \<and> ms_paused (state (stop c)) = False"
  by (simp add: state_view view_stop spec_stop_def spec_state_def)

text \<open>What the client passes to \<open>on_upgrade\<close> after an operation that changed something.\<close>

lemma state_after_change:
  assumes "fst (perform i a c) = Inr True"
  shows "state (snd (perform i a c)) =
    spec_state (video_stopped (snd (perform i a c))) (set_flag a (view c)) \<and> set_flag a (view c) \<noteq> view c"
  using assms result_perform [of i a c]
  by (simp add: state_view view_perform spec_op_def split: if_splits)

end

locale reliable_call = call_contract +
  assumes no_failure: "fst (perform i a c) = fst (spec_op a (view c))"
begin

lemma run_refines:
  "fst (run_ops perform xs c) = fst (spec_ops xs (view c))"
proof (induction xs arbitrary: c)
  case (Cons x xs)
  then show ?case by (cases x) (simp add: case_prod_beta view_perform no_failure)
qed simp

end

end
