(* ===== verification/Group_Call.thy ===== *)
theory Group_Call
  imports Call_Contract Wrtc_Stack Streamer Media_Source Dispatcher
begin

text \<open>
  \<open>src/instances/group_call.rs\<close>: the WebRTC call of one chat.  The state holds the stack,
  the two streamers, the flags and what has been reported: a callback is an event, delivered
  inline (\<open>gp_calls\<close>) or submitted to the dispatcher, of which the state holds this call's
  view.  \<open>gp_step\<close> composes the tasks of the two streamers, which share the transport and,
  when both tracks are there, a barrier, with the calls of the client.
\<close>

section \<open>State\<close>

datatype gp_event =
    Stream_end stream_type device "error option"
  | Connection_change network_info
  | Upgrade media_state

text \<open>\<open>GroupCallEvents\<close>: which callbacks are set.\<close>

record group_call_events =
  ge_on_stream_end :: bool
  ge_on_connection_change :: bool
  ge_on_upgrade :: bool

definition group_call_events_default :: group_call_events where
  "group_call_events_default =
     \<lparr>ge_on_stream_end = False, ge_on_connection_change = False, ge_on_upgrade = False\<rparr>"

record ('s, 'v) group_call =
  gp_chat_id :: int
  gp_stack :: "('s, 'v, unit) stack"
  gp_events :: group_call_events
  gp_dispatcher :: "gp_event list dispatcher option"
  gp_connect_timeout :: duration_ns
  gp_audio :: "opus_reader streamer option"
  gp_video :: "vp8_reader streamer option"
  gp_net_state :: i32
  gp_closed :: bool
  gp_switching :: bool
  gp_connect_called :: bool
  gp_paused :: bool
  gp_muted :: bool
  gp_ended_once :: bool
  gp_had_audio :: bool
  gp_had_video :: bool
  gp_resume_ms :: u64
  gp_calls :: "gp_event list"
  gp_closing :: nat      \<comment> \<open>spawned closes of the stack that have not run\<close>

definition gp_new ::
  "('s, 'v, 'd) wire_lib \<Rightarrow> random_draw \<Rightarrow> u32 \<times> u32 \<Rightarrow> string + 'c generated_cert \<Rightarrow>
     int \<Rightarrow> 'c generated_cert peer_factory \<Rightarrow> gp_event list dispatcher option \<Rightarrow> duration_ns \<Rightarrow>
     group_call_events \<Rightarrow>
     (error + ('s, 'v) group_call) \<times> 'c generated_cert peer_factory" where
  "gp_new lib r ssrcs gen chat_id f disp timeout events =
     (case stack_new lib r ssrcs gen f of
        (Inl e, f') \<Rightarrow> (Inl e, f')
      | (Inr st, f') \<Rightarrow>
          (Inr \<lparr>gp_chat_id = chat_id, gp_stack = set_on_state_change () st, gp_events = events,
                gp_dispatcher = disp,
                gp_connect_timeout = (if timeout = 0 then 10000000000 else timeout),
                gp_audio = None, gp_video = None, gp_net_state = conn_state_i32 Connecting,
                gp_closed = False, gp_switching = False, gp_connect_called = False,
                gp_paused = False, gp_muted = False, gp_ended_once = False, gp_had_audio = False,
                gp_had_video = False, gp_resume_ms = 0, gp_calls = [], gp_closing = 0\<rparr>, f'))"

section \<open>Reporting\<close>

text \<open>Events leave through the dispatcher, as one task, or inline.\<close>

definition gp_submit :: "gp_event list \<Rightarrow> ('s, 'v) group_call \<Rightarrow> ('s, 'v) group_call" where
  "gp_submit evs g =
     (case gp_dispatcher g of
        Some d \<Rightarrow> g\<lparr>gp_dispatcher := Some (disp_submit evs d)\<rparr>
      | None \<Rightarrow> g\<lparr>gp_calls := gp_calls g @ evs\<rparr>)"

text \<open>The callback that \<open>new_with_events\<close> registers with the stack.\<close>

definition gp_on_state :: "conn_state \<Rightarrow> ('s, 'v) group_call \<Rightarrow> ('s, 'v) group_call" where
  "gp_on_state s g =
     (let g1 = g\<lparr>gp_net_state := conn_state_i32 s\<rparr>
      in if ge_on_connection_change (gp_events g)
         then gp_submit [Connection_change \<lparr>ni_state = s\<rparr>] g1 else g1)"

definition gp_on_states :: "(unit \<times> conn_state) list \<Rightarrow> ('s, 'v) group_call \<Rightarrow> ('s, 'v) group_call" where
  "gp_on_states calls g = fold (\<lambda>(_, s). gp_on_state s) calls g"

definition gp_current_state :: "('s, 'v) group_call \<Rightarrow> media_state" where
  "gp_current_state g =
     (let silent = gp_muted g \<or> gp_paused g
      in \<lparr>ms_muted = gp_muted g, ms_paused = silent, ms_video_stopped = (gp_video g = None),
          ms_presentation_paused = silent\<rparr>)"

definition gp_fire_upgrade_if_changed :: "media_state \<Rightarrow> ('s, 'v) group_call \<Rightarrow> ('s, 'v) group_call" where
  "gp_fire_upgrade_if_changed prev g =
     (let cur = gp_current_state g
      in if prev = cur then g
         else if ge_on_upgrade (gp_events g) then gp_submit [Upgrade cur] g else g)"

definition gp_handle_streamer_end :: "error option \<Rightarrow> ('s, 'v) group_call \<Rightarrow> ('s, 'v) group_call" where
  "gp_handle_streamer_end err g =
     (if gp_closed g \<or> gp_switching g then g
      else if gp_ended_once g then g
      else
        let g1 = g\<lparr>gp_ended_once := True, gp_audio := map_option sm_stop (gp_audio g),
                   gp_video := map_option sm_stop (gp_video g)\<rparr>
        in if ge_on_stream_end (gp_events g)
           then gp_submit ((if gp_had_video g then [Stream_end Video Camera err] else []) @
                           (if gp_had_audio g then [Stream_end Audio Microphone err] else [])) g1
           else g1)"

section \<open>Connecting\<close>

definition gp_create_local_params :: "json_writer \<Rightarrow> ('s, 'v) group_call \<Rightarrow> error + string" where
  "gp_create_local_params jw g =
     (if gp_closed g then Inl ClosedE else get_local_params_json jw (gp_stack g))"

definition gp_connect_start ::
  "json_reader \<Rightarrow> 'd connect_env \<Rightarrow> string \<Rightarrow> ('s, 'v) group_call \<Rightarrow>
     (error + 'd worker) \<times> ('s, 'v) group_call" where
  "gp_connect_start jr ce remote_json g =
     (if gp_closed g then (Inl ClosedE, g)
      else
        case stack_connect_start jr ce remote_json (gp_stack g) of
          (r, st) \<Rightarrow> (r, g\<lparr>gp_connect_called := True, gp_stack := st\<rparr>))"

definition gp_connect_poll ::
  "bool \<Rightarrow> ('s, 'v) group_call \<Rightarrow> ((error + unit) \<times> ('s, 'v) group_call) option" where
  "gp_connect_poll timed_out g =
     (case stack_connect_poll timed_out (gp_stack g) of
        None \<Rightarrow> None
      | Some (Inl e, calls) \<Rightarrow> Some (Inl e, gp_on_states calls g)
      | Some (Inr _, calls) \<Rightarrow>
          Some (Inr (), (gp_on_states calls g)\<lparr>gp_net_state := conn_state_i32 Connected\<rparr>))"

section \<open>Sources\<close>

text \<open>What a streamer's completion callback reports.\<close>

definition audio_tag :: string where "audio_tag = ''audio''"
definition video_tag :: string where "video_tag = ''video''"

definition end_event :: "string \<times> error option \<Rightarrow> gp_event" where
  "end_event c = (if fst c = audio_tag then Stream_end Audio Microphone (snd c)
                  else Stream_end Video Camera (snd c))"

definition gp_start_audio :: "nat \<Rightarrow> bytes \<Rightarrow> bool \<Rightarrow> ('s, 'v) group_call \<Rightarrow> opus_reader streamer" where
  "gp_start_audio now src barrier g =
     (let streamer = sm_new (opus_new src) barrier now;
          streamer1 = (if gp_muted g \<or> gp_paused g then sm_pause streamer else streamer)
      in sm_set_on_end audio_tag streamer1)"

definition gp_start_video :: "nat \<Rightarrow> bytes \<Rightarrow> bool \<Rightarrow> bool \<Rightarrow> ('s, 'v) group_call \<Rightarrow> vp8_reader streamer" where
  "gp_start_video now src barrier has_audio g =
     (let streamer = sm_new (vp8_new src) barrier now;
          streamer1 = (if gp_paused g then sm_pause streamer else streamer)
      in if has_audio then streamer1 else sm_set_on_end video_tag streamer1)"

text \<open>
  The part of \<open>set_source\<close> behind its gate.  The old streamers are stopped and dropped; their
  tasks run to their end without a callback.
\<close>

definition gp_install ::
  "('s, 'v, 'd) wire_lib \<Rightarrow> nat \<Rightarrow> bytes streams \<Rightarrow> ('s, 'v) group_call \<Rightarrow> ('s, 'v) group_call" where
  "gp_install lib now streams g =
     (let prev = gp_current_state g;
          has_audio = (st_audio streams \<noteq> None);
          has_video = (st_video streams \<noteq> None);
          barrier = (has_audio \<and> has_video);
          g1 = g\<lparr>gp_stack := stack_reset_media lib (gp_stack g), gp_had_audio := has_audio,
                 gp_had_video := has_video, gp_ended_once := False,
                 gp_audio := map_option (\<lambda>src. gp_start_audio now src barrier g) (st_audio streams),
                 gp_video := map_option (\<lambda>src. gp_start_video now src barrier has_audio g) (st_video streams),
                 gp_switching := False\<rparr>
      in gp_fire_upgrade_if_changed prev g1)"

definition gp_not_ready :: "('s, 'v) group_call \<Rightarrow> bool" where
  "gp_not_ready g \<longleftrightarrow>
     stack_state (gp_stack g) \<noteq> Connected \<and> gp_net_state g \<noteq> conn_state_i32 Connected"

text \<open>
  \<open>set_source\<close>.  \<open>others\<close> is what the other tasks do until the notification or the timeout;
  there is no wait when \<open>connect\<close> was never called.
\<close>

definition gp_set_source ::
  "('s, 'v, 'd) wire_lib \<Rightarrow> (('s, 'v) group_call \<Rightarrow> ('s, 'v) group_call) \<Rightarrow> nat \<Rightarrow> bytes streams \<Rightarrow>
     ('s, 'v) group_call \<Rightarrow> (error + unit) \<times> ('s, 'v) group_call" where
  "gp_set_source lib others now streams g =
     (if gp_closed g then (Inl ClosedE, g)
      else if gp_not_ready g then
        let g1 = (if gp_connect_called g then others g else g)
        in if stack_state (gp_stack g1) \<noteq> Connected
           then (Inl (Internal ''WebRTC connection timed out before set_source''), g1)
           else (Inr (), gp_install lib now streams g1)
      else (Inr (), gp_install lib now streams g))"

section \<open>Pausing, muting, stopping\<close>

definition gp_pause :: "('s, 'v) group_call \<Rightarrow> (error + bool) \<times> ('s, 'v) group_call" where
  "gp_pause g =
     (if gp_closed g then (Inl ClosedE, g)
      else if gp_paused g then (Inr False, g)
      else
        let g1 = g\<lparr>gp_paused := True\<rparr>; prev = gp_current_state g1
        in (Inr True, gp_fire_upgrade_if_changed prev
              (g1\<lparr>gp_audio := map_option sm_pause (gp_audio g1),
                  gp_video := map_option sm_pause (gp_video g1)\<rparr>)))"

definition gp_resume :: "('s, 'v) group_call \<Rightarrow> (error + bool) \<times> ('s, 'v) group_call" where
  "gp_resume g =
     (if gp_closed g then (Inl ClosedE, g)
      else if \<not> gp_paused g then (Inr False, g)
      else
        let g1 = g\<lparr>gp_paused := False\<rparr>; prev = gp_current_state g1
        in (Inr True, gp_fire_upgrade_if_changed prev
              (g1\<lparr>gp_audio := map_option sm_resume (gp_audio g1),
                  gp_video := map_option sm_resume (gp_video g1)\<rparr>)))"

definition gp_mute :: "('s, 'v) group_call \<Rightarrow> (error + bool) \<times> ('s, 'v) group_call" where
  "gp_mute g =
     (if gp_closed g then (Inl ClosedE, g)
      else if gp_muted g then (Inr False, g)
      else
        let g1 = g\<lparr>gp_muted := True\<rparr>; prev = gp_current_state g1
        in (Inr True, gp_fire_upgrade_if_changed prev
              (g1\<lparr>gp_audio := map_option sm_pause (gp_audio g1)\<rparr>)))"

definition gp_unmute :: "('s, 'v) group_call \<Rightarrow> (error + bool) \<times> ('s, 'v) group_call" where
  "gp_unmute g =
     (if gp_closed g then (Inl ClosedE, g)
      else if \<not> gp_muted g then (Inr False, g)
      else
        let g1 = g\<lparr>gp_muted := False\<rparr>; prev = gp_current_state g1
        in (Inr True, gp_fire_upgrade_if_changed prev
              (g1\<lparr>gp_audio := map_option sm_resume (gp_audio g1)\<rparr>)))"

definition gp_stop :: "('s, 'v) group_call \<Rightarrow> (error + unit) \<times> ('s, 'v) group_call" where
  "gp_stop g =
     (if gp_closed g then (Inr (), g)
      else (Inr (), g\<lparr>gp_closed := True, gp_audio := None, gp_video := None, gp_resume_ms := 0,
                      gp_paused := False, gp_muted := False, gp_closing := Suc (gp_closing g)\<rparr>))"

text \<open>The task that \<open>stop\<close> spawns.\<close>

definition gp_run_close :: "('s, 'v) group_call \<Rightarrow> ('s, 'v) group_call option" where
  "gp_run_close g =
     (case gp_closing g of
        0 \<Rightarrow> None
      | Suc n \<Rightarrow>
          (case stack_close (gp_stack g) of
             (_, calls, st) \<Rightarrow> Some (gp_on_states calls (g\<lparr>gp_stack := st, gp_closing := n\<rparr>))))"

definition gp_seek_by :: "int \<Rightarrow> ('s, 'v) group_call \<Rightarrow> error + unit" where
  "gp_seek_by delta_ms g = Inl SeekUnsupported"

definition gp_elapsed_ms :: "('s, 'v) group_call \<Rightarrow> u64" where
  "gp_elapsed_ms g = gp_resume_ms g"

definition gp_mode :: string where "gp_mode = ''webrtc''"

definition gp_current_net_state :: "('s, 'v) group_call \<Rightarrow> conn_state" where
  "gp_current_net_state g = conn_state_of_i32 Disconnected (gp_net_state g)"

definition gp_audio_ssrc :: "('s, 'v) group_call \<Rightarrow> error + u32" where
  "gp_audio_ssrc g = Inr (stack_audio_ssrc (gp_stack g))"

text \<open>The four operations of the contract.\<close>

fun gp_perform :: "call_op \<Rightarrow> ('s, 'v) group_call \<Rightarrow> (error + bool) \<times> ('s, 'v) group_call" where
  "gp_perform Op_pause g = gp_pause g"
| "gp_perform Op_resume g = gp_resume g"
| "gp_perform Op_mute g = gp_mute g"
| "gp_perform Op_unmute g = gp_unmute g"

lemmas gp_op_defs = gp_pause_def gp_resume_def gp_mute_def gp_unmute_def

section \<open>The contract\<close>

definition gp_view :: "('s, 'v) group_call \<Rightarrow> call_view" where
  "gp_view g = \<lparr>cv_closed = gp_closed g, cv_paused = gp_paused g, cv_muted = gp_muted g\<rparr>"

text \<open>
  \<open>fire_upgrade_if_changed\<close> compares with a state that was taken after the flag had changed,
  and pausing a streamer changes none of its components.
\<close>

lemma gp_fire_same [simp]: "gp_fire_upgrade_if_changed (gp_current_state g) g = g"
  by (simp add: gp_fire_upgrade_if_changed_def)

lemma gp_current_state_streamers:
  "(a = None) = (gp_video g = None) \<Longrightarrow>
     gp_current_state (g\<lparr>gp_audio := b, gp_video := a\<rparr>) = gp_current_state g"
  "gp_current_state (g\<lparr>gp_audio := b\<rparr>) = gp_current_state g"
  by (simp_all add: gp_current_state_def)

lemma gp_fire_streamers [simp]:
  "(a = None) = (gp_video g = None) \<Longrightarrow>
     gp_fire_upgrade_if_changed (gp_current_state g) (g\<lparr>gp_audio := b, gp_video := a\<rparr>) =
       g\<lparr>gp_audio := b, gp_video := a\<rparr>"
  "gp_fire_upgrade_if_changed (gp_current_state g) (g\<lparr>gp_audio := b\<rparr>) = g\<lparr>gp_audio := b\<rparr>"
  by (simp_all add: gp_fire_upgrade_if_changed_def gp_current_state_streamers)

lemma gp_op_cases:
  "\<not> gp_closed g \<Longrightarrow> \<not> gp_paused g \<Longrightarrow> gp_pause g =
     (Inr True, g\<lparr>gp_paused := True, gp_audio := map_option sm_pause (gp_audio g),
                  gp_video := map_option sm_pause (gp_video g)\<rparr>)"
  "\<not> gp_closed g \<Longrightarrow> gp_paused g \<Longrightarrow> gp_resume g =
     (Inr True, g\<lparr>gp_paused := False, gp_audio := map_option sm_resume (gp_audio g),
                  gp_video := map_option sm_resume (gp_video g)\<rparr>)"
  "\<not> gp_closed g \<Longrightarrow> \<not> gp_muted g \<Longrightarrow> gp_mute g =
     (Inr True, g\<lparr>gp_muted := True, gp_audio := map_option sm_pause (gp_audio g)\<rparr>)"
  "\<not> gp_closed g \<Longrightarrow> gp_muted g \<Longrightarrow> gp_unmute g =
     (Inr True, g\<lparr>gp_muted := False, gp_audio := map_option sm_resume (gp_audio g)\<rparr>)"
  using gp_fire_streamers(1) [of "map_option sm_pause (gp_video g)" "g\<lparr>gp_paused := True\<rparr>"]
    gp_fire_streamers(1) [of "map_option sm_resume (gp_video g)" "g\<lparr>gp_paused := False\<rparr>"]
    gp_fire_streamers(2) [of "g\<lparr>gp_muted := True\<rparr>"] gp_fire_streamers(2) [of "g\<lparr>gp_muted := False\<rparr>"]
  by (simp_all add: gp_op_defs Let_def)


lemma gp_op_unchanged:
  "gp_closed g \<Longrightarrow> gp_perform a g = (Inl ClosedE, g)"
  "\<not> gp_closed g \<Longrightarrow> gp_paused g \<Longrightarrow> gp_pause g = (Inr False, g)"
  "\<not> gp_closed g \<Longrightarrow> \<not> gp_paused g \<Longrightarrow> gp_resume g = (Inr False, g)"
  "\<not> gp_closed g \<Longrightarrow> gp_muted g \<Longrightarrow> gp_mute g = (Inr False, g)"
  "\<not> gp_closed g \<Longrightarrow> \<not> gp_muted g \<Longrightarrow> gp_unmute g = (Inr False, g)"
  by (cases a; simp add: gp_op_defs)+

lemma gp_perform_spec:
  "fst (gp_perform a g) = fst (spec_op a (gp_view g)) \<and> gp_view (snd (gp_perform a g)) = snd (spec_op a (gp_view g))"
proof (cases "gp_closed g")
  case True
  then show ?thesis by (simp add: gp_op_unchanged spec_op_def gp_view_def)
next
  case False
  then show ?thesis
    by (cases a; cases "gp_paused g"; cases "gp_muted g")
      (simp_all add: gp_op_unchanged gp_op_cases spec_op_cases gp_view_def)
qed

interpretation group: reliable_call "\<lambda>_ :: unit. gp_perform" "\<lambda>g. snd (gp_stop g)" gp_view
  gp_current_state "\<lambda>g. gp_video g = None"
proof
  fix a g
  show "gp_view (snd (gp_perform a g)) = snd (spec_op a (gp_view g))"
    and "fst (gp_perform a g) = fst (spec_op a (gp_view g))"
    using gp_perform_spec [of a g] by simp_all
  then show "fst (gp_perform a g) = fst (spec_op a (gp_view g)) \<or>
      (a = Op_resume \<and> fst (spec_op a (gp_view g)) = Inr True \<and> (\<exists>m. fst (gp_perform a g) = Inl (FFmpegSpawn m)))"
    by simp
  show "gp_view (snd (gp_stop g)) = spec_stop (gp_view g)"
    by (simp add: gp_stop_def gp_view_def spec_stop_def)
  show "gp_current_state g = spec_state (gp_video g = None) (gp_view g)"
    by (simp add: gp_current_state_def spec_state_def gp_view_def Let_def)
qed

text \<open>
  C8. The group call refines the abstract call of three flags: any sequence of \<open>pause\<close>,
  \<open>resume\<close>, \<open>mute\<close> and \<open>unmute\<close> returns what the abstract call returns and leaves its flags,
  so the reports of a change of one flag alternate; \<open>state()\<close> is a function of the flags.
\<close>

theorem group_refines_call:
  fixes xs :: "(unit \<times> call_op) list"
  shows "fst (run_ops (\<lambda>_. gp_perform) xs g) = fst (spec_ops xs (gp_view g))
    \<and> gp_view (snd (run_ops (\<lambda>_. gp_perform) xs g)) = snd (spec_ops xs (gp_view g))
    \<and> alternates (gp_paused g)
        (changes Op_pause Op_resume (zip xs (fst (run_ops (\<lambda>_. gp_perform) xs g))))
    \<and> alternates (gp_muted g)
        (changes Op_mute Op_unmute (zip xs (fst (run_ops (\<lambda>_. gp_perform) xs g))))
    \<and> gp_current_state g = spec_state (gp_video g = None) (gp_view g)"
  using pause_changes_alternate [of "gp_view g" xs] mute_changes_alternate [of "gp_view g" xs]
    group.run_refines [of xs g] group.run_view [of xs g] group.state_view [of g]
  by (simp add: gp_view_def)

text \<open>
  \<open>on_upgrade\<close> is never called for pausing, resuming, muting or unmuting: whatever
  sequence of them is performed, and whatever changes, nothing is delivered or submitted.
  The previous state is taken after the flag has been swapped.
\<close>

theorem group_ops_never_report:
  fixes xs :: "(unit \<times> call_op) list"
  shows "gp_calls (snd (run_ops (\<lambda>_. gp_perform) xs g)) = gp_calls g
    \<and> gp_dispatcher (snd (run_ops (\<lambda>_. gp_perform) xs g)) = gp_dispatcher g"
proof (induction xs arbitrary: g)
  case (Cons x xs)
  obtain i a where x: "x = (i, a)" by (cases x)
  have "gp_calls (snd (gp_perform a g)) = gp_calls g \<and> gp_dispatcher (snd (gp_perform a g)) = gp_dispatcher g"
  proof (cases "gp_closed g")
    case False
    then show ?thesis
      by (cases a; cases "gp_paused g"; cases "gp_muted g") (simp_all add: gp_op_unchanged gp_op_cases)
  qed (simp add: gp_op_unchanged)
  with Cons.IH [of "snd (gp_perform a g)"] x show ?case by (simp add: case_prod_beta)
qed simp

text \<open>
  C24. Pausing and muting undo each other: on a call with an audio streamer, \<open>unmute\<close> while
  paused and \<open>resume\<close> while muted restart the audio streamer although \<open>state()\<close> goes on
  reporting the call as paused and silent.
\<close>

theorem group_silence_lost:
  fixes g :: "('s, 'v) group_call"
  assumes "\<not> gp_closed g" "\<not> gp_paused g" "\<not> gp_muted g" "gp_audio g = Some a"
    and "g1 = snd (run_ops (\<lambda>_ :: unit. gp_perform) [((), Op_pause), ((), Op_mute), ((), Op_unmute)] g)"
    and "g2 = snd (run_ops (\<lambda>_ :: unit. gp_perform) [((), Op_mute), ((), Op_pause), ((), Op_resume)] g)"
  shows "gp_paused g1 \<and> ms_paused (gp_current_state g1) \<and> map_option sm_is_paused (gp_audio g1) = Some False
    \<and> gp_muted g2 \<and> ms_paused (gp_current_state g2) \<and> map_option sm_is_paused (gp_audio g2) = Some False"
  using assms(1-4) unfolding assms(5,6)
  by (simp add: gp_op_cases gp_current_state_def sm_is_paused_def sm_resume_def Let_def)


section \<open>The tasks of a call\<close>

text \<open>
  A round of a pacing task.  Where it sends, the frame goes through the call's stack, whose
  result it sees.
\<close>

definition pace_with ::
  "('s, 'v, 'd) wire_lib \<Rightarrow> clock \<Rightarrow> u8 \<Rightarrow> 'r streamer \<Rightarrow> ('s, 'v, unit) stack \<Rightarrow>
     'r streamer option \<times> ('s, 'v, unit) stack" where
  "pace_with lib ck payload_type s st =
     (case sm_pacer s of
        Pc_send smp \<Rightarrow>
          if sm_muted s then (pacer_step (Inr ()) s, st)
          else (case stack_send_rtp_bytes lib ck payload_type (sm_data smp) (sm_duration smp) st of
                  (r, st') \<Rightarrow> (pacer_step r s, st'))
      | _ \<Rightarrow> (pacer_step (Inr ()) s, st))"

text \<open>The events for the completion callbacks a streamer has called in a step.\<close>

definition gp_report :: "(string \<times> error option) list \<Rightarrow> ('s, 'v) group_call \<Rightarrow> ('s, 'v) group_call" where
  "gp_report calls g =
     (if ge_on_stream_end (gp_events g) then fold (\<lambda>c. gp_submit [end_event c]) calls g else g)"

definition gp_set_audio :: "opus_reader streamer \<Rightarrow> opus_reader streamer \<Rightarrow> ('s, 'v) group_call \<Rightarrow> ('s, 'v) group_call" where
  "gp_set_audio s s' g = gp_report (drop (length (sm_calls s)) (sm_calls s')) (g\<lparr>gp_audio := Some s'\<rparr>)"

definition gp_set_video :: "vp8_reader streamer \<Rightarrow> vp8_reader streamer \<Rightarrow> ('s, 'v) group_call \<Rightarrow> ('s, 'v) group_call" where
  "gp_set_video s s' g = gp_report (drop (length (sm_calls s)) (sm_calls s')) (g\<lparr>gp_video := Some s'\<rparr>)"

text \<open>The steps of a streamer that need neither the transport nor the other streamer.\<close>

fun own_task :: "sm_action \<Rightarrow> bool" where
  "own_task (Read_step b) = True"
| "own_task Prefetch = True"
| "own_task Wake = True"
| "own_task (Tick n) = True"
| "own_task _ = False"

datatype gp_action =
    Audio_task sm_action | Video_task sm_action
  | Audio_pace clock | Video_pace clock
  | Both_at_barrier
  | Call_op call_op

fun gp_step ::
  "('s, 'v, 'd) wire_lib \<Rightarrow> gp_action \<Rightarrow> ('s, 'v) group_call \<Rightarrow> ('s, 'v) group_call option" where
  "gp_step lib (Audio_task a) g =
     (case gp_audio g of
        None \<Rightarrow> None
      | Some s \<Rightarrow> if own_task a then map_option (\<lambda>s'. gp_set_audio s s' g) (sm_step opus_next a s) else None)"
| "gp_step lib (Video_task a) g =
     (case gp_video g of
        None \<Rightarrow> None
      | Some s \<Rightarrow> if own_task a then map_option (\<lambda>s'. gp_set_video s s' g) (sm_step vp8_next a s) else None)"
| "gp_step lib (Audio_pace ck) g =
     (case gp_audio g of
        None \<Rightarrow> None
      | Some s \<Rightarrow>
          (case pace_with lib ck OPUS_PAYLOAD_TYPE s (gp_stack g) of
             (None, st) \<Rightarrow> None
           | (Some s', st) \<Rightarrow> Some (gp_set_audio s s' (g\<lparr>gp_stack := st\<rparr>))))"
| "gp_step lib (Video_pace ck) g =
     (case gp_video g of
        None \<Rightarrow> None
      | Some s \<Rightarrow>
          (case pace_with lib ck VP8_PAYLOAD_TYPE s (gp_stack g) of
             (None, st) \<Rightarrow> None
           | (Some s', st) \<Rightarrow> Some (gp_set_video s s' (g\<lparr>gp_stack := st\<rparr>))))"
| "gp_step lib Both_at_barrier g =
     (case (gp_audio g, gp_video g) of
        (Some a, Some v) \<Rightarrow>
          (case (barrier_step a, barrier_step v) of
             (Some a', Some v') \<Rightarrow> Some (g\<lparr>gp_audio := Some a', gp_video := Some v'\<rparr>)
           | _ \<Rightarrow> None)
      | _ \<Rightarrow> None)"
| "gp_step lib (Call_op a) g = Some (snd (gp_perform a g))"

fun gp_run ::
  "('s, 'v, 'd) wire_lib \<Rightarrow> gp_action list \<Rightarrow> ('s, 'v) group_call \<Rightarrow> ('s, 'v) group_call option" where
  "gp_run lib [] g = Some g"
| "gp_run lib (a # as) g = (case gp_step lib a g of None \<Rightarrow> None | Some g' \<Rightarrow> gp_run lib as g')"

lemma gp_run_append:
  "gp_run lib (as @ bs) g = (case gp_run lib as g of None \<Rightarrow> None | Some g' \<Rightarrow> gp_run lib bs g')"
  by (induction as arbitrary: g) (auto split: option.splits)

lemma gp_run_invariant:
  assumes "\<And>a g g'. a \<in> set as \<Longrightarrow> P g \<Longrightarrow> gp_step lib a g = Some g' \<Longrightarrow> P g'"
    and "P g" "gp_run lib as g = Some g'"
  shows "P g'"
  using assms
proof (induction as arbitrary: g)
  case (Cons a as)
  then obtain h where "gp_step lib a g = Some h" "gp_run lib as h = Some g'"
    by (auto split: option.splits)
  with Cons show ?case by (meson list.set_intros)
qed simp

lemma gp_report_streamers [simp]:
  "gp_audio (gp_report calls g) = gp_audio g" "gp_video (gp_report calls g) = gp_video g"
  "gp_closed (gp_report calls g) = gp_closed g" "gp_paused (gp_report calls g) = gp_paused g"
  "gp_muted (gp_report calls g) = gp_muted g"
proof -
  have s: "gp_audio (gp_submit e h) = gp_audio h" "gp_video (gp_submit e h) = gp_video h"
    "gp_closed (gp_submit e h) = gp_closed h" "gp_paused (gp_submit e h) = gp_paused h"
    "gp_muted (gp_submit e h) = gp_muted h" for e and h :: "('a, 'b) group_call"
    by (simp_all add: gp_submit_def split: option.splits)
  have "gp_audio (fold (\<lambda>c. gp_submit [end_event c]) calls h) = gp_audio h
    \<and> gp_video (fold (\<lambda>c. gp_submit [end_event c]) calls h) = gp_video h
    \<and> gp_closed (fold (\<lambda>c. gp_submit [end_event c]) calls h) = gp_closed h
    \<and> gp_paused (fold (\<lambda>c. gp_submit [end_event c]) calls h) = gp_paused h
    \<and> gp_muted (fold (\<lambda>c. gp_submit [end_event c]) calls h) = gp_muted h" for h :: "('a, 'b) group_call"
    by (induction calls arbitrary: h) (simp_all add: s)
  then show "gp_audio (gp_report calls g) = gp_audio g" "gp_video (gp_report calls g) = gp_video g"
    "gp_closed (gp_report calls g) = gp_closed g" "gp_paused (gp_report calls g) = gp_paused g"
    "gp_muted (gp_report calls g) = gp_muted g"
    by (simp_all add: gp_report_def)
qed

lemma gp_set_streamers [simp]:
  "gp_audio (gp_set_audio s s' g) = Some s'" "gp_video (gp_set_audio s s' g) = gp_video g"
  "gp_audio (gp_set_video v v' g) = gp_audio g" "gp_video (gp_set_video v v' g) = Some v'"
  "gp_closed (gp_set_audio s s' g) = gp_closed g" "gp_muted (gp_set_audio s s' g) = gp_muted g"
  "gp_paused (gp_set_audio s s' g) = gp_paused g"
  by (simp_all add: gp_set_audio_def gp_set_video_def)

lemma pace_with_step:
  "fst (pace_with lib ck pt s st) = Some s' \<Longrightarrow> \<exists>r. sm_step nx (Pace_step r) s = Some s'"
  by (auto simp: pace_with_def split: pacer_pc.splits if_splits prod.splits)

section \<open>The barrier between audio and video\<close>

definition keeps_running :: "'r streamer \<Rightarrow> bool" where
  "keeps_running v \<longleftrightarrow> \<not> sm_paused v \<and> \<not> sm_first v \<and> (\<forall>x. sm_pacer v \<noteq> Pc_barrier x)"

lemma keeps_running_step:
  assumes "keeps_running v" "a \<noteq> Pause" "sm_step nx a v = Some v'"
  shows "keeps_running v'"
proof (cases a)
  case (Read_step b)
  with assms show ?thesis
    by (cases "sm_reader_pc v"; simp add: reader_step_def keeps_running_def split: if_splits prod.splits; clarsimp)
next
  case (Pace_step r)
  with assms show ?thesis
    by (cases "sm_pacer v"; simp add: pacer_step_def pacer_loop_def finish_slot_def recv_def keeps_running_def Let_def
        split: if_splits sum.splits option.splits list.splits; clarsimp)
next
  case Prefetch
  with assms show ?thesis
    by (simp add: prefetch_step_def recv_def keeps_running_def split: if_splits option.splits list.splits; clarsimp)
next
  case Wake
  with assms show ?thesis by (simp add: wake_step_def keeps_running_def split: if_splits option.splits; clarsimp)
next
  case Barrier_open
  with assms show ?thesis
    by (cases "sm_pacer v"; simp add: barrier_step_def keeps_running_def)
qed (use assms in \<open>simp add: sm_call_defs keeps_running_def; clarsimp\<close>)+

lemma at_barrier_step:
  assumes "sm_pacer s = Pc_barrier x" "a \<noteq> Barrier_open" "sm_step nx a s = Some s'"
  shows "sm_pacer s' = Pc_barrier x \<and> sm_played s' = sm_played s"
proof (cases a)
  case (Read_step b)
  with assms show ?thesis
    by (cases "sm_reader_pc s"; simp add: reader_step_def split: if_splits prod.splits; clarsimp)
qed (use assms in \<open>simp add: sm_call_defs pacer_step_def prefetch_step_def wake_step_def
      split: option.splits; clarsimp\<close>)+

definition audio_stalled :: "sample \<Rightarrow> (nat \<times> nat \<times> bool \<times> sample) list \<Rightarrow> ('s, 'v) group_call \<Rightarrow> bool" where
  "audio_stalled x played g \<longleftrightarrow>
     (\<exists>a v. gp_audio g = Some a \<and> gp_video g = Some v \<and> sm_pacer a = Pc_barrier x
        \<and> sm_played a = played \<and> keeps_running v)"

lemma sm_call_fields [simp]:
  "sm_pacer (sm_pause s) = sm_pacer s" "sm_played (sm_pause s) = sm_played s"
  "sm_pacer (sm_resume s) = sm_pacer s" "sm_played (sm_resume s) = sm_played s"
  by (simp_all add: sm_pause_def sm_resume_def)

lemma keeps_running_resume [simp]: "keeps_running v \<Longrightarrow> keeps_running (sm_resume v)"
  by (simp add: keeps_running_def sm_resume_def)

lemma audio_stalled_op:
  assumes "audio_stalled x played g" "op \<noteq> Op_pause"
  shows "audio_stalled x played (snd (gp_perform op g))"
proof (cases "gp_closed g")
  case False
  with assms show ?thesis
    by (cases op; cases "gp_paused g"; cases "gp_muted g")
      (auto simp: gp_op_unchanged gp_op_cases audio_stalled_def)
qed (use assms in \<open>simp add: gp_op_unchanged\<close>)

lemma audio_stalled_step:
  assumes "audio_stalled x played g" "a \<noteq> Call_op Op_pause" "gp_step lib a g = Some g'"
  shows "audio_stalled x played g'"
proof -
  obtain s v where g: "gp_audio g = Some s" "gp_video g = Some v" "sm_pacer s = Pc_barrier x"
    "sm_played s = played" "keeps_running v"
    using assms(1) by (auto simp: audio_stalled_def)
  show ?thesis
  proof (cases a)
    case (Audio_task b)
    then obtain s' where "own_task b" "sm_step opus_next b s = Some s'" "g' = gp_set_audio s s' g"
      using assms(3) g by (auto split: if_splits)
    with g at_barrier_step [of s x b opus_next s'] show ?thesis
      by (cases b) (auto simp: audio_stalled_def)
  next
    case (Video_task b)
    then obtain v' where "own_task b" "sm_step vp8_next b v = Some v'" "g' = gp_set_video v v' g"
      using assms(3) g by (auto split: if_splits)
    with g keeps_running_step [of v b vp8_next v'] show ?thesis
      by (cases b) (auto simp: audio_stalled_def)
  next
    case (Audio_pace ck)
    with assms(3) g show ?thesis by (simp add: pace_with_def pacer_step_def)
  next
    case (Video_pace ck)
    then obtain v' st where v': "fst (pace_with lib ck VP8_PAYLOAD_TYPE v (gp_stack g)) = Some v'"
      "g' = gp_set_video v v' (g\<lparr>gp_stack := st\<rparr>)"
      using assms(3) g by (auto split: prod.splits option.splits)
    obtain r where "sm_step vp8_next (Pace_step r) v = Some v'" using pace_with_step [OF v'(1)] by blast
    then have "keeps_running v'" using keeps_running_step [OF g(5), of "Pace_step r" vp8_next v'] by simp
    with g v'(2) show ?thesis by (simp add: audio_stalled_def)
  next
    case Both_at_barrier
    have "barrier_step v = None"
      using g(5) by (cases "sm_pacer v") (simp_all add: barrier_step_def keeps_running_def)
    with assms(3) g Both_at_barrier show ?thesis by (simp split: option.splits)
  next
    case (Call_op op)
    with assms audio_stalled_op [of x played g op] show ?thesis by simp
  qed
qed


lemma gp_step_audio_pace:
  assumes "gp_audio g = Some s" "\<And>st. pace_with lib c OPUS_PAYLOAD_TYPE s st = (Some s', st)"
  shows "gp_step lib (Audio_pace c) g = Some (gp_set_audio s s' g)"
  using assms by simp

lemma gp_run_audio_pace:
  assumes "gp_audio g = Some s" "\<And>st. pace_with lib c OPUS_PAYLOAD_TYPE s st = (Some s', st)"
  shows "gp_run lib (Audio_pace c # as) g = gp_run lib as (gp_set_audio s s' g)"
  using gp_step_audio_pace [OF assms] by (simp del: gp_step.simps(3))

lemma gp_run_op: "gp_run lib (Call_op op # as) g = gp_run lib as (snd (gp_perform op g))"
  by simp

text \<open>A call that plays audio and video, for the witnesses.\<close>

definition example_sample :: sample where "example_sample = \<lparr>sm_data = [0], sm_duration = 20000000\<rparr>"

definition example_call :: "(nat, nat) group_call" where
  "example_call =
     \<lparr>gp_chat_id = - 100, gp_stack = set_on_state_change () (stack_from_direct echo_transport),
      gp_events = \<lparr>ge_on_stream_end = True, ge_on_connection_change = True, ge_on_upgrade = True\<rparr>,
      gp_dispatcher = None, gp_connect_timeout = 10000000000,
      gp_audio = Some (sm_set_on_end audio_tag ((sm_new (opus_new []) True 0)
        \<lparr>sm_first := False, sm_pacer := Pc_loop, sm_next := Some (Inr example_sample)\<rparr>)),
      gp_video = Some ((sm_new (vp8_new []) True 0)\<lparr>sm_first := False, sm_pacer := Pc_join\<rparr>),
      gp_net_state = 1, gp_closed = False, gp_switching = False, gp_connect_called = True,
      gp_paused = False, gp_muted = False, gp_ended_once = False, gp_had_audio = True,
      gp_had_video = True, gp_resume_ms = 0, gp_calls = [], gp_closing = 0\<rparr>"

text \<open>
  C6. A short silence stops the audio of an audio and video call for good: muting, or a pause so
  short that the video task does not notice it.  Once the audio task has seen the flag it will
  wait for the barrier of two before its next frame, and the running video task never comes to
  the barrier: after \<open>unmute\<close> or \<open>resume\<close> no further audio frame is played, in any interleaving
  of the tasks and of all calls except \<open>pause\<close>, which alone sends the video to the barrier too.
\<close>

theorem short_silence_stalls_audio:
  assumes "(off, on) \<in> {(Op_mute, Op_unmute), (Op_pause, Op_resume)}"
    and "\<not> gp_closed g" "\<not> gp_muted g" "\<not> gp_paused g" "gp_audio g = Some a" "gp_video g = Some v"
    and "\<not> sm_paused v" "\<not> sm_first v" "\<And>y. sm_pacer v \<noteq> Pc_barrier y"
    and "sm_running a" "sm_barrier a" "sm_pacer a = Pc_loop" "sm_next a = Some (Inr x)"
    and "Call_op Op_pause \<notin> set as"
    and "gp_run lib ([Call_op off, Audio_pace c1, Call_op on, Audio_pace c2] @ as) g = Some g'"
  shows "\<exists>a'. gp_audio g' = Some a' \<and> sm_pacer a' = Pc_barrier x \<and> sm_played a' = sm_played a"
proof -
  obtain h where h: "gp_run lib [Call_op off, Audio_pace c1, Call_op on, Audio_pace c2] g = Some h"
    "gp_run lib as h = Some g'"
    using assms(15) unfolding gp_run_append by (auto split: option.splits)
  let ?a1 = "sm_pause a\<lparr>sm_first := True\<rparr>" and ?g1 = "snd (gp_perform off g)"
  let ?a2 = "sm_resume ?a1" and ?g2 = "gp_set_audio (sm_pause a) ?a1 ?g1"
  let ?a3 = "?a2\<lparr>sm_next := None, sm_pacer := Pc_barrier x\<rparr>" and ?g3 = "snd (gp_perform on ?g2)"
  have 1: "pace_with lib c OPUS_PAYLOAD_TYPE (sm_pause a) st = (Some ?a1, st)" for c st
    using assms(10,12) by (simp add: pace_with_def pacer_step_def pacer_loop_def sm_pause_def)
  have 2: "pace_with lib c OPUS_PAYLOAD_TYPE ?a2 st = (Some ?a3, st)" for c st
    using assms(10-13) by (simp add: pace_with_def pacer_step_def pacer_loop_def sm_pause_def sm_resume_def Let_def)
  have off: "gp_audio ?g1 = Some (sm_pause a)"
    using assms(1-6) by (auto simp: gp_op_cases)
  have on: "gp_audio ?g3 = Some ?a2" "\<exists>v'. gp_video ?g3 = Some v' \<and> keeps_running v'"
    using assms(1-9) by (auto simp: gp_op_cases keeps_running_def sm_pause_def sm_resume_def)
  have "h = gp_set_audio ?a2 ?a3 ?g3"
    using h(1) unfolding gp_run_op gp_run_audio_pace [OF off 1] gp_run_audio_pace [OF on(1) 2] by simp
  then have "audio_stalled x (sm_played a) h"
    using on(2) by (auto simp: audio_stalled_def)
  then have "audio_stalled x (sm_played a) g'"
  proof (rule gp_run_invariant [rotated])
    show "gp_run lib as h = Some g'" by (rule h(2))
    fix b k k'
    assume "b \<in> set as" "audio_stalled x (sm_played a) k" "gp_step lib b k = Some k'"
    moreover from this assms(14) have "b \<noteq> Call_op Op_pause" by blast
    ultimately show "audio_stalled x (sm_played a) k'"
      using audio_stalled_step [where g = k and a = b and lib = lib and g' = k'] by simp
  qed
  then show ?thesis by (auto simp: audio_stalled_def)
qed


lemma example_call_fields:
  "\<not> gp_closed example_call" "\<not> gp_muted example_call" "\<not> gp_paused example_call"
  "\<exists>a. gp_audio example_call = Some a \<and> sm_running a \<and> sm_barrier a \<and> sm_pacer a = Pc_loop
     \<and> sm_next a = Some (Inr example_sample) \<and> sm_played a = []"
  "\<exists>v. gp_video example_call = Some v \<and> keeps_running v"
  by (simp_all add: example_call_def sm_set_on_end_def sm_new_def keeps_running_def)

lemma example_call_stalls:
  "\<exists>g'. gp_run lib ([Call_op Op_mute, Audio_pace c1, Call_op Op_unmute, Audio_pace c2] @
     [Video_task (Tick 5), Call_op Op_resume]) example_call = Some g'"
proof -
  obtain a v where a: "gp_audio example_call = Some a" "sm_running a" "sm_barrier a" "sm_pacer a = Pc_loop"
    "sm_next a = Some (Inr example_sample)" and v: "gp_video example_call = Some v"
    using example_call_fields by blast
  let ?g1 = "snd (gp_mute example_call)" and ?a1 = "sm_pause a\<lparr>sm_first := True\<rparr>"
  have 1: "gp_audio ?g1 = Some (sm_pause a)" "\<And>st. pace_with lib c1 OPUS_PAYLOAD_TYPE (sm_pause a) st = (Some ?a1, st)"
    using a example_call_fields
    by (simp_all add: gp_op_cases pace_with_def pacer_step_def pacer_loop_def sm_pause_def)
  let ?g3 = "snd (gp_unmute (gp_set_audio (sm_pause a) ?a1 ?g1))" and ?a2 = "sm_resume ?a1"
  let ?a3 = "?a2\<lparr>sm_next := None, sm_pacer := Pc_barrier example_sample\<rparr>"
  have 2: "gp_audio ?g3 = Some ?a2" "\<And>st. pace_with lib c2 OPUS_PAYLOAD_TYPE ?a2 st = (Some ?a3, st)"
    using a example_call_fields
    by (simp_all add: gp_op_cases pace_with_def pacer_step_def pacer_loop_def sm_pause_def sm_resume_def Let_def)
  have 3: "gp_video ?g3 = Some v"
    using v example_call_fields by (simp add: gp_op_cases)
  show ?thesis
    unfolding append.simps gp_run_op gp_perform.simps gp_run_audio_pace [OF 1] gp_run_audio_pace [OF 2]
    using 3 by simp
qed

lemma short_silence_stalls_audio_witness:
  "\<exists>g' a'. gp_run echo_lib ([Call_op Op_mute, Audio_pace echo_clock, Call_op Op_unmute, Audio_pace echo_clock] @
      [Video_task (Tick 5), Call_op Op_resume]) example_call = Some g'
    \<and> gp_audio g' = Some a' \<and> sm_pacer a' = Pc_barrier example_sample \<and> sm_played a' = []"
proof -
  obtain a v where a: "gp_audio example_call = Some a" "sm_running a" "sm_barrier a" "sm_pacer a = Pc_loop"
    "sm_next a = Some (Inr example_sample)" "sm_played a = []"
    and v: "gp_video example_call = Some v" "keeps_running v"
    using example_call_fields by blast
  obtain g' where g': "gp_run echo_lib ([Call_op Op_mute, Audio_pace echo_clock, Call_op Op_unmute, Audio_pace echo_clock] @
      [Video_task (Tick 5), Call_op Op_resume]) example_call = Some g'"
    using example_call_stalls by blast
  have v': "\<not> sm_paused v" "\<not> sm_first v" "\<And>y. sm_pacer v \<noteq> Pc_barrier y"
    using v(2) by (simp_all add: keeps_running_def)
  have "\<exists>a'. gp_audio g' = Some a' \<and> sm_pacer a' = Pc_barrier example_sample \<and> sm_played a' = sm_played a"
    by (rule short_silence_stalls_audio [OF _ _ _ _ a(1) v(1) v' a(2-5) _ g'])
      (simp_all add: example_call_fields)
  with g' a(6) show ?thesis by auto
qed

text \<open>
  C25. The barrier needs both.  When the audio of an audio and video call has ended, for
  whatever reason, a video task that waits at the barrier, before its first frame or after a
  pause, waits for ever: nothing that the tasks or the client's calls do releases it.
\<close>

theorem ended_audio_blocks_video:
  assumes "gp_audio g = Some a" "gp_video g = Some v" "ended (sm_pacer a)" "sm_pacer v = Pc_barrier x"
    and "gp_run lib as g = Some g'"
  shows "\<exists>v'. gp_video g' = Some v' \<and> sm_pacer v' = Pc_barrier x \<and> sm_played v' = sm_played v"
proof -
  let ?P = "\<lambda>g. \<exists>a v'. gp_audio g = Some a \<and> ended (sm_pacer a) \<and> gp_video g = Some v'
      \<and> sm_pacer v' = Pc_barrier x \<and> sm_played v' = sm_played v"
  have "?P g'"
  proof (rule gp_run_invariant [of as ?P lib g])
    fix b k k'
    assume "?P k" and st: "gp_step lib b k = Some k'"
    then obtain a w where k: "gp_audio k = Some a" "ended (sm_pacer a)" "gp_video k = Some w"
      "sm_pacer w = Pc_barrier x" "sm_played w = sm_played v" by blast
    show "?P k'"
    proof (cases b)
      case (Audio_task c)
      then obtain a' where "sm_step opus_next c a = Some a'" "k' = gp_set_audio a a' k"
        using st k by (auto split: if_splits)
      with k ended_step [of a opus_next c a'] show ?thesis by auto
    next
      case (Video_task c)
      then obtain w' where "own_task c" "sm_step vp8_next c w = Some w'" "k' = gp_set_video w w' k"
        using st k by (auto split: if_splits)
      with k at_barrier_step [of w x c vp8_next w'] show ?thesis by (cases c) auto
    next
      case (Audio_pace c)
      then obtain a' st' where a': "fst (pace_with lib c OPUS_PAYLOAD_TYPE a (gp_stack k)) = Some a'"
        "k' = gp_set_audio a a' (k\<lparr>gp_stack := st'\<rparr>)"
        using st k by (auto split: prod.splits option.splits)
      obtain r where "sm_step opus_next (Pace_step r) a = Some a'" using pace_with_step [OF a'(1)] by blast
      with k(2) have "ended (sm_pacer a')" by (rule ended_step)
      with k a'(2) show ?thesis by simp
    next
      case (Video_pace c)
      with st k show ?thesis by (simp add: pace_with_def pacer_step_def)
    next
      case Both_at_barrier
      have "barrier_step a = None" using k(2) by (cases "sm_pacer a") (simp_all add: barrier_step_def)
      with st k Both_at_barrier show ?thesis by simp
    next
      case (Call_op op)
      have "?P (snd (gp_perform op k))"
      proof (cases "gp_closed k")
        case False
        with k show ?thesis
          by (cases op; cases "gp_paused k"; cases "gp_muted k") (simp_all add: gp_op_unchanged gp_op_cases)
      qed (use k in \<open>simp add: gp_op_unchanged\<close>)
      with st Call_op show ?thesis by simp
    qed
  qed (use assms in blast)+
  then show ?thesis by blast
qed


section \<open>Installing a source and stopping\<close>

lemma gp_fire_fields [simp]:
  "gp_audio (gp_fire_upgrade_if_changed p g) = gp_audio g" "gp_video (gp_fire_upgrade_if_changed p g) = gp_video g"
  "gp_muted (gp_fire_upgrade_if_changed p g) = gp_muted g" "gp_paused (gp_fire_upgrade_if_changed p g) = gp_paused g"
  "gp_closed (gp_fire_upgrade_if_changed p g) = gp_closed g"
  by (simp_all add: gp_fire_upgrade_if_changed_def gp_submit_def Let_def split: option.split)

lemma gp_install_reports:
  "gp_dispatcher g = None \<Longrightarrow> gp_calls (gp_install lib now streams g) = gp_calls g @
     (if ge_on_upgrade (gp_events g) \<and> (gp_video g = None) \<noteq> (st_video streams = None)
      then [Upgrade (gp_current_state (gp_install lib now streams g))] else [])"
  by (auto simp: gp_install_def gp_fire_upgrade_if_changed_def gp_current_state_def gp_submit_def Let_def)


text \<open>
  C27. Stopping is final.  \<open>stop\<close> drops both streamers and clears the flags; a second one
  changes nothing; afterwards every operation that can refuse is refused with \<open>Closed\<close> and
  changes nothing; the one spawned close makes the stack and the reported connection state
  \<open>Closed\<close> and announces it once.
\<close>

theorem group_stop_final:
  fixes xs :: "(unit \<times> call_op) list"
  assumes "\<not> gp_closed g" "gp_closing g = 0" "\<not> dt_is_closed (sk_direct (gp_stack g))"
    and "sk_on_state_change (gp_stack g) = Some ()" "gp_dispatcher g = None" "g1 = snd (gp_stop g)"
  shows "gp_audio g1 = None \<and> gp_video g1 = None \<and> gp_stop g1 = (Inr (), g1)
    \<and> fst (run_ops (\<lambda>_. gp_perform) xs g1) = map (\<lambda>_. Inl ClosedE) xs
    \<and> gp_set_source lib others now streams g1 = (Inl ClosedE, g1)
    \<and> gp_create_local_params jw g1 = Inl ClosedE
    \<and> gp_connect_start jr ce remote g1 = (Inl ClosedE, g1)
    \<and> (\<exists>g2. gp_run_close g1 = Some g2 \<and> gp_run_close g2 = None
         \<and> stack_state (gp_stack g2) = Closed \<and> gp_current_net_state g2 = Closed
         \<and> gp_calls g2 = gp_calls g @
             (if ge_on_connection_change (gp_events g) then [Connection_change \<lparr>ni_state = Closed\<rparr>] else []))"
proof -
  have "gp_closed g1" "gp_closing g1 = 1" using assms by (simp_all add: gp_stop_def)
  moreover have "\<exists>g2. gp_run_close g1 = Some g2 \<and> gp_run_close g2 = None
         \<and> stack_state (gp_stack g2) = Closed \<and> gp_current_net_state g2 = Closed
         \<and> gp_calls g2 = gp_calls g @
             (if ge_on_connection_change (gp_events g) then [Connection_change \<lparr>ni_state = Closed\<rparr>] else [])"
    using assms
    by (simp add: gp_stop_def gp_run_close_def stack_close_def dt_close_def dt_is_closed_def notify_state_def
        gp_on_states_def gp_on_state_def gp_submit_def Let_def stack_state_def dt_current_state_def
        gp_current_net_state_def conn_state_of_i32_def)
  moreover have "fst (run_ops (\<lambda>_. gp_perform) xs g1) = map (\<lambda>_. Inl ClosedE) xs"
    using group.stop_absorbs [of xs g] assms(6) by simp
  moreover have "gp_audio g1 = None" "gp_video g1 = None" using assms by (simp_all add: gp_stop_def)
  ultimately show ?thesis
    by (simp add: gp_stop_def gp_set_source_def gp_create_local_params_def gp_connect_start_def)
qed

lemma group_stop_final_witness:
  "\<exists>g2. gp_run_close (snd (gp_stop example_call)) = Some g2 \<and> gp_current_net_state g2 = Closed
     \<and> gp_calls g2 = [Connection_change \<lparr>ni_state = Closed\<rparr>]"
proof -
  have "ge_on_connection_change (gp_events example_call)" "gp_calls example_call = []"
    by (simp_all add: example_call_def)
  moreover have "gp_closing example_call = 0" "\<not> dt_is_closed (sk_direct (gp_stack example_call))"
    "sk_on_state_change (gp_stack example_call) = Some ()" "gp_dispatcher example_call = None"
    by (simp_all add: example_call_def set_on_state_change_def stack_from_direct_def dt_is_closed_def
        echo_transport_def dt_new_with_ssrc_def)
  ultimately show ?thesis
    using group_stop_final [OF example_call_fields(1) _ _ _ _ refl,
        THEN conjunct2, THEN conjunct2, THEN conjunct2, THEN conjunct2, THEN conjunct2, THEN conjunct2, THEN conjunct2] by auto
qed

lemma ended_audio_blocks_video_witness:
  "\<exists>v'. gp_video (the (gp_run echo_lib [Call_op Op_pause, Call_op Op_resume, Video_task (Tick 9)]
       (example_call\<lparr>gp_audio := Some ((sm_new (opus_new []) True 0)\<lparr>sm_pacer := Pc_done\<rparr>),
          gp_video := Some ((sm_new (vp8_new []) True 0)\<lparr>sm_pacer := Pc_barrier example_sample\<rparr>)\<rparr>))) = Some v'
     \<and> sm_pacer v' = Pc_barrier example_sample"
proof -
  let ?g = "example_call\<lparr>gp_audio := Some ((sm_new (opus_new []) True 0)\<lparr>sm_pacer := Pc_done\<rparr>),
          gp_video := Some ((sm_new (vp8_new []) True 0)\<lparr>sm_pacer := Pc_barrier example_sample\<rparr>)\<rparr>"
  let ?as = "[Call_op Op_pause, Call_op Op_resume, Video_task (Tick 9)]"
  obtain g' where g': "gp_run echo_lib ?as ?g = Some g'"
    by (simp add: gp_op_cases example_call_def)
  have "\<exists>v'. gp_video g' = Some v' \<and> sm_pacer v' = Pc_barrier example_sample \<and> sm_played v' =
      sm_played ((sm_new (vp8_new []) True 0)\<lparr>sm_pacer := Pc_barrier example_sample\<rparr>)"
    by (rule ended_audio_blocks_video [OF _ _ _ _ g', where x = example_sample
          and a = "(sm_new (opus_new []) True 0)\<lparr>sm_pacer := Pc_done\<rparr>"]) simp_all
  then show ?thesis unfolding g' by auto
qed

lemma group_silence_lost_witness:
  "ms_paused (gp_current_state (snd (run_ops (\<lambda>_ :: unit. gp_perform)
      [((), Op_pause), ((), Op_mute), ((), Op_unmute)] example_call)))
   \<and> map_option sm_is_paused (gp_audio (snd (run_ops (\<lambda>_ :: unit. gp_perform)
      [((), Op_pause), ((), Op_mute), ((), Op_unmute)] example_call))) = Some False"
proof -
  obtain a where "gp_audio example_call = Some a" using example_call_fields(4) by blast
  from group_silence_lost [OF example_call_fields(1,3,2) this refl refl] show ?thesis by (elim conjE) (rule conjI)
qed

end
