(* ===== verification/Rtmp_Call.thy ===== *)
theory Rtmp_Call
  imports Group_Call Float64 Shell_Reader
begin

text \<open>
  \<open>src/instances/rtmp_call.rs\<close>: the call that pushes to an RTMP server through one ffmpeg
  process.  The state holds the flags, the offset and the process; \<open>rc_spawned\<close> is the log of
  processes started, \<open>rc_closers\<close> the processes handed to a spawned \<open>close\<close> and \<open>rc_dropped\<close>
  those whose handle was dropped, which does not end a process.  An operation is given the
  time and the operating system's answers to a spawn.
\<close>

section \<open>State\<close>

record rtmp_call =
  rc_chat_id :: int
  rc_rtmp_url :: string
  rc_events :: group_call_events
  rc_dispatcher :: "gp_event list dispatcher option"
  rc_cmd :: "shell_reader option"
  rc_started_at :: "nat option"
  rc_closed :: bool
  rc_paused :: bool
  rc_muted :: bool
  rc_resume_ms :: u64
  rc_calls :: "gp_event list"
  rc_spawned :: spawn_log
  rc_closers :: "shell_reader list"
  rc_dropped :: "shell_reader list"

record rtmp_env =
  re_os :: os_spawn
  re_now :: nat

definition rc_new_with_events ::
  "int \<Rightarrow> string \<Rightarrow> gp_event list dispatcher option \<Rightarrow> group_call_events \<Rightarrow> rtmp_call" where
  "rc_new_with_events chat_id url disp events =
     \<lparr>rc_chat_id = chat_id, rc_rtmp_url = url, rc_events = events, rc_dispatcher = disp,
      rc_cmd = None, rc_started_at = None, rc_closed = False, rc_paused = False, rc_muted = False,
      rc_resume_ms = 0, rc_calls = [], rc_spawned = [], rc_closers = [], rc_dropped = []\<rparr>"

definition rc_new :: "int \<Rightarrow> string \<Rightarrow> rtmp_call" where
  "rc_new chat_id url = rc_new_with_events chat_id url None group_call_events_default"

definition rc_current_state :: "rtmp_call \<Rightarrow> media_state" where
  "rc_current_state r =
     (let silent = rc_muted r \<or> rc_paused r
      in \<lparr>ms_muted = rc_muted r, ms_paused = silent, ms_video_stopped = False,
          ms_presentation_paused = silent\<rparr>)"

definition rc_fire_upgrade_if_changed :: "media_state \<Rightarrow> rtmp_call \<Rightarrow> rtmp_call" where
  "rc_fire_upgrade_if_changed prev r =
     (let cur = rc_current_state r
      in if prev = cur then r
         else if ge_on_upgrade (rc_events r)
         then (case rc_dispatcher r of
                 Some d \<Rightarrow> r\<lparr>rc_dispatcher := Some (disp_submit [Upgrade cur] d)\<rparr>
               | None \<Rightarrow> r\<lparr>rc_calls := rc_calls r @ [Upgrade cur]\<rparr>)
         else r)"

section \<open>The ffmpeg command\<close>

text \<open>\<open>{:.3}\<close> of \<open>seek_ms as f64 / 1000.0\<close>.\<close>

definition rtmp_seek_text :: "u64 \<Rightarrow> string" where
  "rtmp_seek_text seek_ms = fmt3 (f64_div (f64_of_nat (unat seek_ms)) (f64_of_nat 1000))"

definition build_rtmp_args :: "string \<Rightarrow> u64 \<Rightarrow> encode_options \<Rightarrow> string \<Rightarrow> string list" where
  "build_rtmp_args input_path seek_ms opt rtmp_url =
     [''-hide_banner'', ''-loglevel'', ''error'', ''-nostdin'', ''-re''] @
     (if 0 < seek_ms then [''-ss'', rtmp_seek_text seek_ms] else []) @
     [''-i'', input_path, ''-c:v'', ''libx264'', ''-preset'', ''veryfast'', ''-tune'', ''zerolatency'',
      ''-b:v'', show_u32 (video_bitrate_kbps opt) @ ''k'', ''-r'', show_u32 (video_fps opt),
      ''-vf'', ''scale='' @ show_u32 (video_width opt) @ '':'' @ show_u32 (video_height opt),
      ''-pix_fmt'', ''yuv420p'', ''-g'', show_u32 (video_fps opt * 2), ''-c:a'', ''aac'',
      ''-b:a'', show_u32 (audio_bitrate_kbps opt) @ ''k'', ''-ar'', ''44100'',
      ''-ac'', show_u16 (audio_channels opt), ''-f'', ''flv'', rtmp_url]"

section \<open>Operations\<close>

definition rc_elapsed_ms :: "nat \<Rightarrow> rtmp_call \<Rightarrow> u64" where
  "rc_elapsed_ms now r =
     (if rc_paused r then rc_resume_ms r
      else case rc_started_at r of
             Some t \<Rightarrow> rc_resume_ms r + of_nat ((now - t) div 1000000)
           | None \<Rightarrow> 0)"

definition opt_to_list :: "'a option \<Rightarrow> 'a list" where
  "opt_to_list x = (case x of None \<Rightarrow> [] | Some y \<Rightarrow> [y])"

text \<open>Spawning the push from an offset and storing it, over whatever process was there.\<close>

definition rc_spawn :: "rtmp_env \<Rightarrow> u64 \<Rightarrow> rtmp_call \<Rightarrow> (error + unit) \<times> rtmp_call" where
  "rc_spawn env seek_ms r =
     (let args = build_rtmp_args ''input.mp4'' seek_ms encode_default (rc_rtmp_url r)
      in case shell_new (re_os env) ''ffmpeg'' args False (rc_spawned r) of
           (Inl e, started) \<Rightarrow> (Inl e, r\<lparr>rc_spawned := started\<rparr>)
         | (Inr cmd, started) \<Rightarrow>
             (Inr (), r\<lparr>rc_spawned := started, rc_started_at := Some (re_now env), rc_cmd := Some cmd,
                        rc_dropped := rc_dropped r @ opt_to_list (rc_cmd r)\<rparr>))"

text \<open>\<open>set_source\<close>: the streams are not used.\<close>

definition rc_set_source :: "rtmp_env \<Rightarrow> 's streams \<Rightarrow> rtmp_call \<Rightarrow> (error + unit) \<times> rtmp_call" where
  "rc_set_source env streams r =
     (if rc_closed r then (Inl ClosedE, r)
      else case rc_spawn env 0 r of
             (Inl e, r1) \<Rightarrow> (Inl e, r1)
           | (Inr _, r1) \<Rightarrow> (Inr (), r1\<lparr>rc_resume_ms := 0\<rparr>))"

text \<open>\<open>cmd.lock().take()\<close> and the spawned close of it.\<close>

definition rc_take_and_close :: "rtmp_call \<Rightarrow> rtmp_call" where
  "rc_take_and_close r = r\<lparr>rc_closers := rc_closers r @ opt_to_list (rc_cmd r), rc_cmd := None\<rparr>"

definition rc_pause :: "rtmp_env \<Rightarrow> rtmp_call \<Rightarrow> (error + bool) \<times> rtmp_call" where
  "rc_pause env r =
     (if rc_closed r then (Inl ClosedE, r)
      else if rc_paused r then (Inr False, r)
      else
        let r1 = r\<lparr>rc_paused := True\<rparr>; prev = rc_current_state r1; cur = rc_elapsed_ms (re_now env) r1
        in (Inr True, rc_fire_upgrade_if_changed prev (rc_take_and_close (r1\<lparr>rc_resume_ms := cur\<rparr>))))"

definition rc_resume :: "rtmp_env \<Rightarrow> rtmp_call \<Rightarrow> (error + bool) \<times> rtmp_call" where
  "rc_resume env r =
     (if rc_closed r then (Inl ClosedE, r)
      else if \<not> rc_paused r then (Inr False, r)
      else
        let r1 = r\<lparr>rc_paused := False\<rparr>; prev = rc_current_state r1
        in case rc_spawn env (rc_resume_ms r1) r1 of
             (Inl e, r2) \<Rightarrow> (Inl e, r2)
           | (Inr _, r2) \<Rightarrow> (Inr True, rc_fire_upgrade_if_changed prev r2))"

definition rc_mute :: "rtmp_call \<Rightarrow> (error + bool) \<times> rtmp_call" where
  "rc_mute r =
     (if rc_closed r then (Inl ClosedE, r)
      else if rc_muted r then (Inr False, r)
      else let r1 = r\<lparr>rc_muted := True\<rparr>; prev = rc_current_state r1
           in (Inr True, rc_fire_upgrade_if_changed prev r1))"

definition rc_unmute :: "rtmp_call \<Rightarrow> (error + bool) \<times> rtmp_call" where
  "rc_unmute r =
     (if rc_closed r then (Inl ClosedE, r)
      else if \<not> rc_muted r then (Inr False, r)
      else let r1 = r\<lparr>rc_muted := False\<rparr>; prev = rc_current_state r1
           in (Inr True, rc_fire_upgrade_if_changed prev r1))"

definition rc_stop :: "rtmp_call \<Rightarrow> (error + unit) \<times> rtmp_call" where
  "rc_stop r =
     (if rc_closed r then (Inr (), r)
      else (Inr (), rc_take_and_close (r\<lparr>rc_closed := True\<rparr>)
                      \<lparr>rc_resume_ms := 0, rc_paused := False, rc_muted := False\<rparr>))"

text \<open>\<open>seek_by\<close>, with the conversions to \<open>i64\<close> and back.\<close>

definition rc_seek_by :: "nat \<Rightarrow> int \<Rightarrow> rtmp_call \<Rightarrow> (error + unit) \<times> rtmp_call" where
  "rc_seek_by now delta_ms r =
     (if rc_closed r then (Inl ClosedE, r)
      else
        let cur = as_i64 (uint (rc_elapsed_ms now r)); target = as_i64 (cur + delta_ms)
        in if target < 0 then rc_stop r else (Inr (), r\<lparr>rc_resume_ms := of_int target\<rparr>))"

definition rc_create_local_params :: "rtmp_call \<Rightarrow> error + string" where
  "rc_create_local_params r = Inl WrongMode"

definition rc_connect :: "string \<Rightarrow> rtmp_call \<Rightarrow> error + unit" where
  "rc_connect remote_json r = Inl WrongMode"

definition rc_audio_ssrc :: "rtmp_call \<Rightarrow> error + u32" where
  "rc_audio_ssrc r = Inl WrongMode"

definition rc_mode :: string where "rc_mode = ''rtmp''"

definition rc_net_state :: "rtmp_call \<Rightarrow> conn_state" where
  "rc_net_state r =
     (if rc_closed r then Closed else if rc_cmd r = None then Connecting else Connected)"

fun rc_perform :: "rtmp_env \<Rightarrow> call_op \<Rightarrow> rtmp_call \<Rightarrow> (error + bool) \<times> rtmp_call" where
  "rc_perform env Op_pause r = rc_pause env r"
| "rc_perform env Op_resume r = rc_resume env r"
| "rc_perform env Op_mute r = rc_mute r"
| "rc_perform env Op_unmute r = rc_unmute r"

section \<open>The operations on every branch\<close>

lemma rc_fire_same [simp]: "rc_fire_upgrade_if_changed (rc_current_state r) r = r"
  by (simp add: rc_fire_upgrade_if_changed_def)

lemma rc_current_state_cong:
  "rc_muted r = rc_muted r' \<Longrightarrow> rc_paused r = rc_paused r' \<Longrightarrow> rc_current_state r = rc_current_state r'"
  by (simp add: rc_current_state_def)

lemma rc_fire_other:
  "rc_muted r = rc_muted r' \<Longrightarrow> rc_paused r = rc_paused r' \<Longrightarrow>
     rc_fire_upgrade_if_changed (rc_current_state r) r' = r'"
  using rc_current_state_cong [of r r'] by simp

lemma rc_take_and_close_fields [simp]:
  "rc_muted (rc_take_and_close r) = rc_muted r" "rc_paused (rc_take_and_close r) = rc_paused r"
  "rc_closed (rc_take_and_close r) = rc_closed r" "rc_resume_ms (rc_take_and_close r) = rc_resume_ms r"
  "rc_spawned (rc_take_and_close r) = rc_spawned r" "rc_rtmp_url (rc_take_and_close r) = rc_rtmp_url r"
  "rc_calls (rc_take_and_close r) = rc_calls r" "rc_dispatcher (rc_take_and_close r) = rc_dispatcher r"
  by (simp_all add: rc_take_and_close_def)

definition push_args :: "u64 \<Rightarrow> rtmp_call \<Rightarrow> string list" where
  "push_args seek_ms r = build_rtmp_args ''input.mp4'' seek_ms encode_default (rc_rtmp_url r)"

lemma rc_spawn_fields:
  "rc_spawn env ms r = (x, r') \<Longrightarrow>
     (x = Inr () \<or> (\<exists>m. x = Inl (FFmpegSpawn m)))
     \<and> rc_muted r' = rc_muted r \<and> rc_paused r' = rc_paused r \<and> rc_closed r' = rc_closed r
     \<and> rc_resume_ms r' = rc_resume_ms r \<and> rc_rtmp_url r' = rc_rtmp_url r \<and> rc_closers r' = rc_closers r
     \<and> rc_calls r' = rc_calls r \<and> rc_dispatcher r' = rc_dispatcher r \<and> rc_events r' = rc_events r
     \<and> (rc_spawned r' = rc_spawned r \<or> rc_spawned r' = rc_spawned r @ [(''ffmpeg'', push_args ms r)])
     \<and> (x = Inr () \<longrightarrow> rc_spawned r' = rc_spawned r @ [(''ffmpeg'', push_args ms r)]
          \<and> rc_started_at r' = Some (re_now env) \<and> rc_cmd r' \<noteq> None
          \<and> rc_dropped r' = rc_dropped r @ opt_to_list (rc_cmd r))
     \<and> (x \<noteq> Inr () \<longrightarrow> rc_cmd r' = rc_cmd r \<and> rc_dropped r' = rc_dropped r)"
  by (auto simp: rc_spawn_def shell_new_def push_args_def Let_def split: sum.splits if_splits)

lemma rc_op_unchanged:
  "rc_closed r \<Longrightarrow> rc_perform env a r = (Inl ClosedE, r)"
  "\<not> rc_closed r \<Longrightarrow> rc_paused r \<Longrightarrow> rc_pause env r = (Inr False, r)"
  "\<not> rc_closed r \<Longrightarrow> \<not> rc_paused r \<Longrightarrow> rc_resume env r = (Inr False, r)"
  "\<not> rc_closed r \<Longrightarrow> rc_muted r \<Longrightarrow> rc_mute r = (Inr False, r)"
  "\<not> rc_closed r \<Longrightarrow> \<not> rc_muted r \<Longrightarrow> rc_unmute r = (Inr False, r)"
  by (cases a; simp add: rc_pause_def rc_resume_def rc_mute_def rc_unmute_def)+

text \<open>Pausing reads the elapsed time after the flag is set, so it stores the old offset.\<close>

lemma rc_op_cases:
  "\<not> rc_closed r \<Longrightarrow> \<not> rc_paused r \<Longrightarrow> rc_pause env r = (Inr True, rc_take_and_close (r\<lparr>rc_paused := True\<rparr>))"
  "\<not> rc_closed r \<Longrightarrow> \<not> rc_muted r \<Longrightarrow> rc_mute r = (Inr True, r\<lparr>rc_muted := True\<rparr>)"
  "\<not> rc_closed r \<Longrightarrow> rc_muted r \<Longrightarrow> rc_unmute r = (Inr True, r\<lparr>rc_muted := False\<rparr>)"
  by (simp_all add: rc_pause_def rc_mute_def rc_unmute_def rc_elapsed_ms_def rc_fire_other Let_def)

lemma rc_resume_cases:
  "\<not> rc_closed r \<Longrightarrow> rc_paused r \<Longrightarrow> rc_spawn env (rc_resume_ms r) (r\<lparr>rc_paused := False\<rparr>) = (x, r') \<Longrightarrow>
     rc_resume env r = (case x of Inl e \<Rightarrow> Inl e | Inr _ \<Rightarrow> Inr True, r')"
  using rc_spawn_fields [of env "rc_resume_ms r" "r\<lparr>rc_paused := False\<rparr>" x r']
  by (auto simp: rc_resume_def rc_fire_other Let_def)


section \<open>The contract\<close>

definition rc_view :: "rtmp_call \<Rightarrow> call_view" where
  "rc_view r = \<lparr>cv_closed = rc_closed r, cv_paused = rc_paused r, cv_muted = rc_muted r\<rparr>"

lemma rc_perform_spec:
  "rc_view (snd (rc_perform env a r)) = snd (spec_op a (rc_view r))
   \<and> (fst (rc_perform env a r) = fst (spec_op a (rc_view r)) \<or>
      a = Op_resume \<and> fst (spec_op a (rc_view r)) = Inr True \<and> (\<exists>m. fst (rc_perform env a r) = Inl (FFmpegSpawn m)))"
proof (cases "rc_closed r")
  case True
  then show ?thesis by (simp add: rc_op_unchanged spec_op_def rc_view_def)
next
  case False
  note base = rc_op_unchanged rc_op_cases spec_op_cases rc_view_def
  show ?thesis
  proof (cases "a = Op_resume \<and> rc_paused r")
    case True
    obtain x r' where s: "rc_spawn env (rc_resume_ms r) (r\<lparr>rc_paused := False\<rparr>) = (x, r')" by fastforce
    with rc_resume_cases [OF False _ s] True rc_spawn_fields [OF s] False show ?thesis
      by (auto simp: base)
  next
    case other: False
    with False show ?thesis
      by (cases a; cases "rc_paused r"; cases "rc_muted r") (simp_all add: base)
  qed
qed

interpretation rtmp: call_contract rc_perform "\<lambda>r. snd (rc_stop r)" rc_view rc_current_state "\<lambda>_. False"
proof
  fix i a c
  show "rc_view (snd (rc_perform i a c)) = snd (spec_op a (rc_view c))"
    and "fst (rc_perform i a c) = fst (spec_op a (rc_view c)) \<or>
      a = Op_resume \<and> fst (spec_op a (rc_view c)) = Inr True \<and> (\<exists>m. fst (rc_perform i a c) = Inl (FFmpegSpawn m))"
    using rc_perform_spec [of i a c] by blast+
  show "rc_view (snd (rc_stop c)) = spec_stop (rc_view c)"
    by (simp add: rc_stop_def rc_view_def spec_stop_def)
  show "rc_current_state c = spec_state False (rc_view c)"
    by (simp add: rc_current_state_def spec_state_def rc_view_def Let_def)
qed

text \<open>
  C22. The RTMP call refines the abstract call under every answer of the operating system: its
  flags are those of the abstract call, and so are its results unless a \<open>resume\<close> fails to
  start ffmpeg; after \<open>stop\<close> everything is refused with \<open>Closed\<close>.
\<close>

theorem rtmp_refines_call:
  assumes "\<And>m. Inl (FFmpegSpawn m) \<notin> set (fst (run_ops rc_perform xs r))"
  shows "fst (run_ops rc_perform xs r) = fst (spec_ops xs (rc_view r))
    \<and> rc_view (snd (run_ops rc_perform xs r)) = snd (spec_ops xs (rc_view r))
    \<and> rc_view (snd (run_ops rc_perform ys r)) = snd (spec_ops ys (rc_view r))
    \<and> fst (run_ops rc_perform ys (snd (rc_stop r))) = map (\<lambda>_. Inl ClosedE) ys
    \<and> rc_current_state r = spec_state False (rc_view r)"
  using rtmp.run_results [of xs r, OF assms] rtmp.run_view [of xs r] rtmp.run_view [of ys r]
    rtmp.stop_absorbs [of ys r] rtmp.state_view [of r] by simp

definition working_os :: os_spawn where
  "working_os = (\<lambda>n p as b. Inr \<lparr>sp_pid = None, sp_stdout = True, sp_stderr = b\<rparr>)"

definition broken_os :: os_spawn where "broken_os = (\<lambda>n p as b. Inl ''not found'')"

lemma rtmp_refines_call_witness:
  "fst (run_ops rc_perform [(\<lparr>re_os = working_os, re_now = 5\<rparr>, Op_pause), (\<lparr>re_os = working_os, re_now = 7\<rparr>, Op_pause)]
     (rc_new 1 ''rtmp://x'')) = [Inr True, Inr False]"
proof -
  let ?xs = "[(\<lparr>re_os = working_os, re_now = 5\<rparr>, Op_pause), (\<lparr>re_os = working_os, re_now = 7\<rparr>, Op_pause)]"
  have "\<And>m. Inl (FFmpegSpawn m) \<notin> set (fst (run_ops rc_perform ?xs (rc_new 1 ''rtmp://x'')))"
    by (simp add: rc_new_def rc_new_with_events_def rc_op_cases rc_op_unchanged)
  from rtmp_refines_call [OF this, of "[]"] show ?thesis
    by (simp add: spec_op_cases rc_view_def rc_new_def rc_new_with_events_def)
qed

section \<open>The position\<close>

lemma rc_perform_offset:
  "rc_resume_ms (snd (rc_perform env a r)) = rc_resume_ms r
   \<and> rc_rtmp_url (snd (rc_perform env a r)) = rc_rtmp_url r
   \<and> rc_calls (snd (rc_perform env a r)) = rc_calls r
   \<and> rc_dispatcher (snd (rc_perform env a r)) = rc_dispatcher r
   \<and> (rc_spawned (snd (rc_perform env a r)) = rc_spawned r \<or>
      rc_spawned (snd (rc_perform env a r)) = rc_spawned r @ [(''ffmpeg'', push_args (rc_resume_ms r) r)])"
proof (cases "rc_closed r")
  case True
  then show ?thesis by (simp add: rc_op_unchanged)
next
  case False
  show ?thesis
  proof (cases "a = Op_resume \<and> rc_paused r")
    case True
    obtain x r' where s: "rc_spawn env (rc_resume_ms r) (r\<lparr>rc_paused := False\<rparr>) = (x, r')" by fastforce
    have "push_args (rc_resume_ms r) (r\<lparr>rc_paused := False\<rparr>) = push_args (rc_resume_ms r) r"
      by (simp add: push_args_def)
    with rc_resume_cases [OF False _ s] True rc_spawn_fields [OF s] show ?thesis by auto
  next
    case other: False
    with False show ?thesis
      by (cases a; cases "rc_paused r"; cases "rc_muted r") (simp_all add: rc_op_unchanged rc_op_cases)
  qed
qed

text \<open>
  C23. Pausing loses the position: whatever the clock says and however long the push has run,
  no sequence of \<open>pause\<close>, \<open>resume\<close>, \<open>mute\<close> and \<open>unmute\<close> changes the stored offset, every
  process that a \<open>resume\<close> starts begins at that same offset of the fixed input, and
  \<open>on_upgrade\<close> is never called.
\<close>

theorem rtmp_restarts_at_old_offset:
  "rc_resume_ms (snd (run_ops rc_perform xs r)) = rc_resume_ms r
   \<and> (\<exists>n. rc_spawned (snd (run_ops rc_perform xs r)) = rc_spawned r @
        replicate n (''ffmpeg'', build_rtmp_args ''input.mp4'' (rc_resume_ms r) encode_default (rc_rtmp_url r)))
   \<and> rc_calls (snd (run_ops rc_perform xs r)) = rc_calls r
   \<and> rc_dispatcher (snd (run_ops rc_perform xs r)) = rc_dispatcher r"
proof (induction xs arbitrary: r)
  case Nil
  show ?case by (auto intro: exI [of _ 0])
next
  case (Cons x xs)
  obtain env a where x: "x = (env, a)" by (cases x)
  let ?p = "(''ffmpeg'', push_args (rc_resume_ms r) r)" and ?r1 = "snd (rc_perform env a r)"
  obtain n where n: "rc_spawned (snd (run_ops rc_perform xs ?r1)) = rc_spawned ?r1 @ replicate n ?p"
    using Cons.IH [of ?r1] rc_perform_offset [of env a r] by (auto simp: push_args_def)
  have "rc_spawned ?r1 = rc_spawned r \<or> rc_spawned ?r1 = rc_spawned r @ [?p]"
    using rc_perform_offset [of env a r] by blast
  then have "\<exists>n. rc_spawned (snd (run_ops rc_perform xs ?r1)) = rc_spawned r @ replicate n ?p"
    using n by (auto intro: exI [of _ "Suc n"])
  with Cons.IH [of ?r1] rc_perform_offset [of env a r] x show ?case
    by (simp add: case_prod_beta push_args_def)
qed


lemma as_i64_nat [simp]: "n < 2 ^ 62 \<Longrightarrow> as_i64 (int n) = int n"
  by (rule as_i64_id) auto

lemma unat_of_nat_small: "n < 2 ^ 62 \<Longrightarrow> unat (of_nat n :: u64) = n"
  by (simp add: unat_of_nat take_bit_nat_eq_self_iff)

text \<open>Addition of two \<open>u64\<close> whose sum is in range.\<close>

lemma unat_add_small:
  "unat x + n < 2 ^ 62 \<Longrightarrow> unat (x + of_nat n :: u64) = unat x + n"
  by (simp add: unat_word_ariths unat_of_nat_small)

lemma rc_elapsed_playing:
  "\<not> rc_paused r \<Longrightarrow> rc_started_at r = Some t0 \<Longrightarrow> unat (rc_resume_ms r) + (now - t0) div 1000000 < 2 ^ 62 \<Longrightarrow>
     unat (rc_elapsed_ms now r) = unat (rc_resume_ms r) + (now - t0) div 1000000"
  by (simp add: rc_elapsed_ms_def unat_add_small)

text \<open>
  C12. Seeking while playing.  Let \<open>played\<close> be the milliseconds since the process was started,
  so that the position is the stored offset plus \<open>played\<close>.  A seek to before the beginning stops
  the call and reports no end of stream.  Every other seek leaves the running process where
  it is and counts \<open>played\<close> twice: the position reported afterwards is the target plus \<open>played\<close>.
\<close>

theorem rtmp_seek_double_counts:
  assumes "\<not> rc_closed r" "\<not> rc_paused r" "rc_started_at r = Some t0"
    and "played = (now - t0) div 1000000" "position = unat (rc_resume_ms r) + played"
    and "position + played < 2 ^ 61" "\<bar>delta\<bar> < 2 ^ 61" "rc_seek_by now delta r = (res, r')"
  shows "res = Inr () \<and> rc_calls r' = rc_calls r \<and> rc_dispatcher r' = rc_dispatcher r
    \<and> rc_spawned r' = rc_spawned r
    \<and> (if int position + delta < 0 then rc_closed r' \<and> rc_cmd r' = None
       else rc_cmd r' = rc_cmd r \<and> int (unat (rc_elapsed_ms now r')) = int position + delta + int played)"
proof -
  have e: "unat (rc_elapsed_ms now r) = position"
    using assms(2-6) by (simp add: rc_elapsed_playing)
  then have "uint (rc_elapsed_ms now r) = int position" by (metis uint_nat)
  then have 1: "as_i64 (as_i64 (uint (rc_elapsed_ms now r)) + delta) = int position + delta"
    using assms(6,7) by (simp add: as_i64_id)
  show ?thesis
  proof (cases "int position + delta < 0")
    case True
    then have "(res, r') = rc_stop r" using assms(1,8) 1 by (simp add: rc_seek_by_def Let_def)
    with True assms(1) show ?thesis by (simp add: rc_stop_def rc_take_and_close_def)
  next
    case False
    then obtain k where k: "int position + delta = int k" by (metis nat_0_le not_less)
    then have r': "res = Inr ()" "r' = r\<lparr>rc_resume_ms := of_nat k\<rparr>"
      using assms(1,8) 1 by (simp_all add: rc_seek_by_def Let_def)
    have "k + played < 2 ^ 62" using k assms(6,7) by simp
    then have "unat (rc_elapsed_ms now r') = k + played"
      using r'(2) assms(2-4) rc_elapsed_playing [of r' t0 now] unat_of_nat_small [of k] by simp
    with False k r' show ?thesis by simp
  qed
qed

definition playing_rtmp :: rtmp_call where
  "playing_rtmp = (rc_new 1 ''rtmp://x'')\<lparr>rc_cmd := Some (sr_init None False), rc_started_at := Some 0\<rparr>"

lemma rtmp_seek_double_counts_witness:
  "unat (rc_elapsed_ms 10000000000 (snd (rc_seek_by 10000000000 5000 playing_rtmp))) = 25000
   \<and> rc_closed (snd (rc_seek_by 10000000000 (- 10001) playing_rtmp))"
proof -
  have p: "\<not> rc_closed playing_rtmp" "\<not> rc_paused playing_rtmp" "rc_started_at playing_rtmp = Some 0"
    "rc_resume_ms playing_rtmp = 0"
    by (simp_all add: playing_rtmp_def rc_new_def rc_new_with_events_def)
  have pos: "(10000 :: nat) = (10000000000 - 0) div 1000000" "10000 = unat (rc_resume_ms playing_rtmp) + 10000"
    "(10000 :: nat) + 10000 < 2 ^ 61" "\<bar>5000 :: int\<bar> < 2 ^ 61" "\<bar>- 10001 :: int\<bar> < 2 ^ 61"
    using p(4) by simp_all
  obtain r1 r2 res1 res2 where 1: "rc_seek_by 10000000000 5000 playing_rtmp = (res1, r1)"
    and 2: "rc_seek_by 10000000000 (- 10001) playing_rtmp = (res2, r2)" by (meson surj_pair)
  have "int (unat (rc_elapsed_ms 10000000000 r1)) = int 25000"
    using rtmp_seek_double_counts [OF p(1-3) pos(1,2,3,4) 1] by simp
  moreover have "rc_closed r2"
    using rtmp_seek_double_counts [OF p(1-3) pos(1,2,3,5) 2] by simp
  ultimately show ?thesis unfolding 1 2 of_nat_eq_iff by simp
qed

section \<open>Processes\<close>

text \<open>
  C13. Stopping or pausing an RTMP call does not end its ffmpeg.  The process is handed to a
  spawned \<open>close\<close>, but once its reap task waits for it, which is the first thing that task
  does, no interleaving of the tasks sends the kill: as long as ffmpeg does not exit by itself
  the \<open>close\<close> is blocked and the push to the server goes on.
\<close>

theorem rtmp_stop_leaves_ffmpeg:
  assumes "\<not> rc_closed r" "rc_cmd r = Some sh" "sr_reach sh" "sr_reaper sh = R_wait"
    and "r' = snd (rc_stop r) \<or> \<not> rc_paused r \<and> r' = snd (rc_pause env r)"
    and "sr_run as (close_call sh) = Some sh'"
  shows "rc_cmd r' = None \<and> rc_closers r' = rc_closers r @ [sh] \<and> \<not> sr_killed sh'
    \<and> (sr_process sh' = None \<longrightarrow> close_step sh' = None \<and> \<not> sr_exited sh')"
proof -
  have "rc_cmd r' = None \<and> rc_closers r' = rc_closers r @ [sh]"
    using assms(1,2,5) by (auto simp: rc_stop_def rc_op_cases rc_take_and_close_def opt_to_list_def)
  moreover have "sr_run (Close_call # as) sh = Some sh'" using assms(6) by simp
  ultimately show ?thesis using close_cannot_interrupt_wait [OF assms(3,4)] by blast
qed

lemma rtmp_stop_leaves_ffmpeg_witness:
  "\<exists>sh. sr_run [Reap] (sr_init None False) = Some sh
     \<and> rc_closers (snd (rc_stop ((rc_new 1 ''rtmp://x'')\<lparr>rc_cmd := Some sh\<rparr>))) = [sh]
     \<and> sr_run [Wait_call] (close_call sh) \<noteq> None \<and> close_step (the (sr_run [Wait_call] (close_call sh))) = None"
proof -
  obtain sh where sh: "sr_run [Reap] (sr_init None False) = Some sh" "sr_reaper sh = R_wait" "sr_process sh = None"
    by (simp add: sr_init_def reap_step_def)
  then have r: "sr_reach sh" using sr_reach_run [OF sr_reach.start] by blast
  let ?r = "(rc_new 1 ''rtmp://x'')\<lparr>rc_cmd := Some sh\<rparr>"
  obtain sh' where w: "sr_run [Wait_call] (close_call sh) = Some sh'" "sr_process sh' = None"
    using sh(3) by (simp add: close_call_def)
  have "\<not> rc_closed ?r" "rc_closers ?r = []" "rc_cmd ?r = Some sh"
    by (simp_all add: rc_new_def rc_new_with_events_def)
  with rtmp_stop_leaves_ffmpeg [of ?r sh "snd (rc_stop ?r)" undefined "[Wait_call]" sh'] r sh(1,2) w show ?thesis
    by auto
qed

text \<open>
  A source set while another one is pushed starts a second process; the first one is neither
  closed by that nor by a later \<open>stop\<close>, which closes the second only.
\<close>

theorem rtmp_set_source_leaks:
  assumes "\<not> rc_closed r" "rc_cmd r = Some old" "rc_set_source env streams r = (Inr (), r')"
  shows "\<exists>new. rc_cmd r' = Some new \<and> rc_dropped r' = rc_dropped r @ [old] \<and> rc_closers r' = rc_closers r
    \<and> rc_closers (snd (rc_stop r')) = rc_closers r @ [new]
    \<and> rc_spawned r' = rc_spawned r @ [(''ffmpeg'', push_args 0 r)]"
proof -
  obtain r1 where s: "rc_spawn env 0 r = (Inr (), r1)" "r' = r1\<lparr>rc_resume_ms := 0\<rparr>"
    using assms(1,3) by (cases "rc_spawn env 0 r") (auto simp: rc_set_source_def split: sum.splits)
  with rc_spawn_fields [OF s(1)] assms(1,2) show ?thesis
    by (auto simp: opt_to_list_def rc_stop_def rc_take_and_close_def)
qed

text \<open>
  A \<open>resume\<close> that cannot start ffmpeg is an error and leaves the call unpaused without a
  process; resuming again, with whatever answer of the system, does nothing.
\<close>

theorem rtmp_failed_resume_sticks:
  assumes "\<not> rc_closed r" "rc_paused r" "rc_cmd r = None" "rc_resume env r = (Inl e, r')"
  shows "\<not> rc_paused r' \<and> rc_cmd r' = None \<and> rc_net_state r' = Connecting
    \<and> rc_resume env' r' = (Inr False, r')"
proof -
  obtain x r1 where s: "rc_spawn env (rc_resume_ms r) (r\<lparr>rc_paused := False\<rparr>) = (x, r1)" by fastforce
  have "x \<noteq> Inr ()" "r' = r1"
    using rc_resume_cases [OF assms(1,2) s] assms(4) by (auto split: sum.splits)
  with rc_spawn_fields [OF s] assms show ?thesis
    by (auto simp: rc_op_unchanged rc_net_state_def)
qed

lemma rtmp_failed_resume_sticks_witness:
  "rc_resume \<lparr>re_os = working_os, re_now = 9\<rparr>
     (snd (rc_resume \<lparr>re_os = broken_os, re_now = 5\<rparr> ((rc_new 1 ''rtmp://x'')\<lparr>rc_paused := True\<rparr>))) =
   (Inr False, snd (rc_resume \<lparr>re_os = broken_os, re_now = 5\<rparr> ((rc_new 1 ''rtmp://x'')\<lparr>rc_paused := True\<rparr>)))"
proof -
  let ?r = "(rc_new 1 ''rtmp://x'')\<lparr>rc_paused := True\<rparr>" and ?env = "\<lparr>re_os = broken_os, re_now = 5\<rparr>"
  have "\<not> rc_closed ?r" "rc_paused ?r" "rc_cmd ?r = None"
    by (simp_all add: rc_new_def rc_new_with_events_def)
  moreover obtain e r' where "rc_resume ?env ?r = (Inl e, r')"
    by (simp add: rc_resume_def rc_spawn_def shell_new_def broken_os_def rc_new_def rc_new_with_events_def Let_def)
  ultimately show ?thesis using rtmp_failed_resume_sticks [of ?r ?env e r'] by simp
qed

end
