(* ===== verification/Client.thy ===== *)
theory Client
  imports Rtmp_Call
begin

text \<open>
  \<open>src/rusttgcalls.rs\<close>: the client, which multiplexes over the calls of its chats.  A call is
  one of the two implementations of the trait; the map of calls is a map from chat ids; the
  operations take the effect on a call to be atomic, except that \<open>create_call\<close> is split at its
  awaits into the test of the map and the rest.  \<open>cl_upgrades\<close> are the calls made to the
  client's \<open>on_upgrade\<close>.
\<close>

section \<open>Options\<close>

datatype client_network = Net_UDP4 | Net_UDP6 | Net_TCP4 | Net_TCP6

fun factory_network :: "client_network \<Rightarrow> network_type" where
  "factory_network Net_UDP4 = UDP4"
| "factory_network Net_UDP6 = UDP6"
| "factory_network Net_TCP4 = TCP4"
| "factory_network Net_TCP6 = TCP6"

record client_options =
  co_ffmpeg_path :: string
  co_connect_timeout_secs :: u64
  co_dispatch_buf :: nat
  co_cert_pool_size :: nat
  co_shared_udp_mux :: bool
  co_ffmpeg_stderr_log :: bool
  co_use_direct_transport :: bool
  co_network_types :: "client_network list"
  co_debug_logs :: bool
  co_verbose_connection_logs :: bool

definition client_options_default :: client_options where
  "client_options_default =
     \<lparr>co_ffmpeg_path = ''ffmpeg'', co_connect_timeout_secs = 10, co_dispatch_buf = 256,
      co_cert_pool_size = 8, co_shared_udp_mux = False, co_ffmpeg_stderr_log = False,
      co_use_direct_transport = False, co_network_types = [Net_UDP4, Net_UDP6],
      co_debug_logs = False, co_verbose_connection_logs = False\<rparr>"

definition with_ffmpeg_path :: "string \<Rightarrow> client_options \<Rightarrow> client_options" where
  "with_ffmpeg_path path opts = opts\<lparr>co_ffmpeg_path := path\<rparr>"
definition with_debug_logs :: "client_options \<Rightarrow> client_options" where
  "with_debug_logs opts = opts\<lparr>co_debug_logs := True\<rparr>"
definition with_ffmpeg_stderr_log :: "client_options \<Rightarrow> client_options" where
  "with_ffmpeg_stderr_log opts = opts\<lparr>co_ffmpeg_stderr_log := True\<rparr>"
definition with_shared_udp_mux :: "client_options \<Rightarrow> client_options" where
  "with_shared_udp_mux opts = opts\<lparr>co_shared_udp_mux := True\<rparr>"
definition with_dtls_cert_pool :: "nat \<Rightarrow> client_options \<Rightarrow> client_options" where
  "with_dtls_cert_pool n opts = opts\<lparr>co_cert_pool_size := n\<rparr>"
definition with_dispatch_buffer :: "nat \<Rightarrow> client_options \<Rightarrow> client_options" where
  "with_dispatch_buffer n opts = opts\<lparr>co_dispatch_buf := n\<rparr>"
definition with_network_types :: "client_network list \<Rightarrow> client_options \<Rightarrow> client_options" where
  "with_network_types types opts = opts\<lparr>co_network_types := types\<rparr>"
definition with_connect_timeout :: "u64 \<Rightarrow> client_options \<Rightarrow> client_options" where
  "with_connect_timeout secs opts = opts\<lparr>co_connect_timeout_secs := secs\<rparr>"
definition with_direct_transport :: "bool \<Rightarrow> client_options \<Rightarrow> client_options" where
  "with_direct_transport enabled opts = opts\<lparr>co_use_direct_transport := enabled\<rparr>"
definition with_verbose_connection_logs :: "client_options \<Rightarrow> client_options" where
  "with_verbose_connection_logs opts = opts\<lparr>co_verbose_connection_logs := True\<rparr>"

section \<open>Calls behind the trait\<close>

datatype ('s, 'v) call = Group "('s, 'v) group_call" | Rtmp rtmp_call

fun call_perform :: "rtmp_env \<Rightarrow> call_op \<Rightarrow> ('s, 'v) call \<Rightarrow> (error + bool) \<times> ('s, 'v) call" where
  "call_perform env a (Group g) = (case gp_perform a g of (r, g') \<Rightarrow> (r, Group g'))"
| "call_perform env a (Rtmp r) = (case rc_perform env a r of (x, r') \<Rightarrow> (x, Rtmp r'))"

fun call_stop :: "('s, 'v) call \<Rightarrow> (error + unit) \<times> ('s, 'v) call" where
  "call_stop (Group g) = (case gp_stop g of (r, g') \<Rightarrow> (r, Group g'))"
| "call_stop (Rtmp r) = (case rc_stop r of (x, r') \<Rightarrow> (x, Rtmp r'))"

fun call_state :: "('s, 'v) call \<Rightarrow> media_state" where
  "call_state (Group g) = gp_current_state g"
| "call_state (Rtmp r) = rc_current_state r"

fun call_seek_by :: "nat \<Rightarrow> int \<Rightarrow> ('s, 'v) call \<Rightarrow> (error + unit) \<times> ('s, 'v) call" where
  "call_seek_by now delta (Group g) = (gp_seek_by delta g, Group g)"
| "call_seek_by now delta (Rtmp r) = (case rc_seek_by now delta r of (x, r') \<Rightarrow> (x, Rtmp r'))"

fun call_audio_ssrc :: "('s, 'v) call \<Rightarrow> error + u32" where
  "call_audio_ssrc (Group g) = gp_audio_ssrc g"
| "call_audio_ssrc (Rtmp r) = rc_audio_ssrc r"

fun call_elapsed_ms :: "nat \<Rightarrow> ('s, 'v) call \<Rightarrow> u64" where
  "call_elapsed_ms now (Group g) = gp_elapsed_ms g"
| "call_elapsed_ms now (Rtmp r) = rc_elapsed_ms now r"

text \<open>What a \<open>set_source\<close> meets: the libraries, the other tasks, the time, the system.\<close>

record ('s, 'v, 'd) source_env =
  se_lib :: "('s, 'v, 'd) wire_lib"
  se_others :: "('s, 'v) group_call \<Rightarrow> ('s, 'v) group_call"
  se_rtmp :: rtmp_env

fun call_set_source ::
  "('s, 'v, 'd) source_env \<Rightarrow> bytes streams \<Rightarrow> ('s, 'v) call \<Rightarrow> (error + unit) \<times> ('s, 'v) call" where
  "call_set_source env streams (Group g) =
     (case gp_set_source (se_lib env) (se_others env) (re_now (se_rtmp env)) streams g of
        (r, g') \<Rightarrow> (r, Group g'))"
| "call_set_source env streams (Rtmp r) =
     (case rc_set_source (se_rtmp env) streams r of (x, r') \<Rightarrow> (x, Rtmp r'))"

fun call_connect_start ::
  "json_reader \<Rightarrow> 'd connect_env \<Rightarrow> string \<Rightarrow> ('s, 'v) call \<Rightarrow> (error + 'd worker) \<times> ('s, 'v) call" where
  "call_connect_start jr ce remote (Group g) = (case gp_connect_start jr ce remote g of (r, g') \<Rightarrow> (r, Group g'))"
| "call_connect_start jr ce remote (Rtmp r) = (Inl WrongMode, Rtmp r)"

text \<open>The awaited part of \<open>connect\<close>; an RTMP call has failed before it.\<close>

fun call_connect_poll :: "bool \<Rightarrow> ('s, 'v) call \<Rightarrow> ((error + unit) \<times> ('s, 'v) call) option" where
  "call_connect_poll timed_out (Group g) = map_option (\<lambda>(r, g'). (r, Group g')) (gp_connect_poll timed_out g)"
| "call_connect_poll timed_out (Rtmp r) = None"

fun view_of :: "('s, 'v) call \<Rightarrow> call_view" where
  "view_of (Group g) = gp_view g"
| "view_of (Rtmp r) = rc_view r"

fun no_video :: "('s, 'v) call \<Rightarrow> bool" where
  "no_video (Group g) = (gp_video g = None)"
| "no_video (Rtmp r) = False"

interpretation any_call: call_contract call_perform "\<lambda>c. snd (call_stop c)" view_of call_state no_video
proof
  fix i a and c :: "('s, 'v) call"
  show "view_of (snd (call_perform i a c)) = snd (spec_op a (view_of c))"
    by (cases c) (simp_all add: case_prod_beta group.view_perform rtmp.view_perform)
  show "fst (call_perform i a c) = fst (spec_op a (view_of c)) \<or>
      a = Op_resume \<and> fst (spec_op a (view_of c)) = Inr True \<and> (\<exists>m. fst (call_perform i a c) = Inl (FFmpegSpawn m))"
    by (cases c) (use rtmp.result_perform in \<open>simp_all add: case_prod_beta group.no_failure\<close>)
  show "view_of (snd (call_stop c)) = spec_stop (view_of c)"
    by (cases c) (simp_all add: case_prod_beta group.view_stop rtmp.view_stop)
  show "call_state c = spec_state (no_video c) (view_of c)"
    by (cases c) (simp_all add: group.state_view rtmp.state_view)
qed

section \<open>The client\<close>

record ('s, 'v, 'c) client =
  cl_options :: client_options
  cl_factory :: "'c generated_cert peer_factory"
  cl_calls :: "int \<rightharpoonup> ('s, 'v) call"
  cl_on_stream_end :: bool
  cl_on_connection_change :: bool
  cl_on_upgrade :: bool
  cl_upgrades :: "(int \<times> media_state) list"

definition client_new_with_options :: "client_options \<Rightarrow> error + ('s, 'v, 'c) client" where
  "client_new_with_options opts =
     (let factory_opts = \<lparr>fo_network_types = map factory_network (co_network_types opts),
                          fo_cert_pool_size = co_cert_pool_size opts,
                          fo_shared_udp_mux = co_shared_udp_mux opts\<rparr>
      in bind_res (peer_factory_new_with_options factory_opts)
           (\<lambda>f. Inr \<lparr>cl_options = opts, cl_factory = f, cl_calls = Map.empty, cl_on_stream_end = False,
                     cl_on_connection_change = False, cl_on_upgrade = False, cl_upgrades = []\<rparr>))"

definition client_new :: "error + ('s, 'v, 'c) client" where
  "client_new = client_new_with_options client_options_default"

definition client_on_stream_end :: "('s, 'v, 'c) client \<Rightarrow> ('s, 'v, 'c) client" where
  "client_on_stream_end c = c\<lparr>cl_on_stream_end := True\<rparr>"

definition client_on_connection_change :: "('s, 'v, 'c) client \<Rightarrow> ('s, 'v, 'c) client" where
  "client_on_connection_change c = c\<lparr>cl_on_connection_change := True\<rparr>"

definition client_on_upgrade :: "('s, 'v, 'c) client \<Rightarrow> ('s, 'v, 'c) client" where
  "client_on_upgrade c = c\<lparr>cl_on_upgrade := True\<rparr>"

text \<open>What creating a WebRTC call meets.\<close>

record ('s, 'v, 'd, 'c) create_env =
  ne_lib :: "('s, 'v, 'd) wire_lib"
  ne_draw :: random_draw
  ne_ssrcs :: "u32 \<times> u32"
  ne_gen :: "string + 'c generated_cert"
  ne_writer :: json_writer

definition client_create_check :: "int \<Rightarrow> ('s, 'v, 'c) client \<Rightarrow> error + unit" where
  "client_create_check chat c = (if cl_calls c chat \<noteq> None then Inl ConnectionExists else Inr ())"

definition client_create_finish ::
  "('s, 'v, 'd, 'c) create_env \<Rightarrow> int \<Rightarrow> ('s, 'v, 'c) client \<Rightarrow> (error + string) \<times> ('s, 'v, 'c) client" where
  "client_create_finish env chat c =
     (let events = \<lparr>ge_on_stream_end = cl_on_stream_end c, ge_on_connection_change = False,
                    ge_on_upgrade = False\<rparr>
      in case gp_new (ne_lib env) (ne_draw env) (ne_ssrcs env) (ne_gen env) chat (cl_factory c) None
                (unat (co_connect_timeout_secs (cl_options c)) * 1000000000) events of
           (Inl e, f) \<Rightarrow> (Inl e, c\<lparr>cl_factory := f\<rparr>)
         | (Inr g, f) \<Rightarrow>
             (case gp_create_local_params (ne_writer env) g of
                Inl e \<Rightarrow> (Inl e, c\<lparr>cl_factory := f\<rparr>)
              | Inr local_json \<Rightarrow>
                  (Inr local_json, c\<lparr>cl_factory := f, cl_calls := (cl_calls c)(chat \<mapsto> Group g)\<rparr>)))"

definition client_create_call ::
  "('s, 'v, 'd, 'c) create_env \<Rightarrow> int \<Rightarrow> ('s, 'v, 'c) client \<Rightarrow> (error + string) \<times> ('s, 'v, 'c) client" where
  "client_create_call env chat c =
     (case client_create_check chat c of
        Inl e \<Rightarrow> (Inl e, c)
      | Inr _ \<Rightarrow> client_create_finish env chat c)"

definition client_create_rtmp_call ::
  "int \<Rightarrow> string \<Rightarrow> ('s, 'v, 'c) client \<Rightarrow> (error + unit) \<times> ('s, 'v, 'c) client" where
  "client_create_rtmp_call chat url c =
     (if cl_calls c chat \<noteq> None then (Inl ConnectionExists, c)
      else (Inr (), c\<lparr>cl_calls := (cl_calls c)(chat \<mapsto> Rtmp (rc_new chat url))\<rparr>))"

text \<open>The look-up that every operation on a chat begins with.\<close>

definition with_call ::
  "int \<Rightarrow> (('s, 'v) call \<Rightarrow> (error + 'r) \<times> ('s, 'v) call) \<Rightarrow> ('s, 'v, 'c) client \<Rightarrow>
     (error + 'r) \<times> ('s, 'v, 'c) client" where
  "with_call chat f c =
     (case cl_calls c chat of
        None \<Rightarrow> (Inl ConnectionNotFound, c)
      | Some call \<Rightarrow> (case f call of (r, call') \<Rightarrow> (r, c\<lparr>cl_calls := (cl_calls c)(chat \<mapsto> call')\<rparr>)))"

definition client_connect_start ::
  "json_reader \<Rightarrow> 'd connect_env \<Rightarrow> string \<Rightarrow> int \<Rightarrow> ('s, 'v, 'c) client \<Rightarrow>
     (error + 'd worker) \<times> ('s, 'v, 'c) client" where
  "client_connect_start jr ce remote chat c = with_call chat (call_connect_start jr ce remote) c"

text \<open>For a call that is still in the map when its connection is decided.\<close>

definition client_connect_poll ::
  "bool \<Rightarrow> int \<Rightarrow> ('s, 'v, 'c) client \<Rightarrow> ((error + unit) \<times> ('s, 'v, 'c) client) option" where
  "client_connect_poll timed_out chat c =
     (case cl_calls c chat of
        None \<Rightarrow> None
      | Some call \<Rightarrow>
          map_option (\<lambda>(r, call'). (r, c\<lparr>cl_calls := (cl_calls c)(chat \<mapsto> call')\<rparr>))
            (call_connect_poll timed_out call))"

definition client_set_stream_sources ::
  "('s, 'v, 'd) source_env \<Rightarrow> bytes streams \<Rightarrow> int \<Rightarrow> ('s, 'v, 'c) client \<Rightarrow>
     (error + unit) \<times> ('s, 'v, 'c) client" where
  "client_set_stream_sources env streams chat c = with_call chat (call_set_source env streams) c"

text \<open>\<open>pause\<close>, \<open>resume\<close>, \<open>mute\<close> and \<open>unmute\<close>.\<close>

definition client_perform ::
  "rtmp_env \<Rightarrow> call_op \<Rightarrow> int \<Rightarrow> ('s, 'v, 'c) client \<Rightarrow> (error + bool) \<times> ('s, 'v, 'c) client" where
  "client_perform env a chat c =
     (case with_call chat (call_perform env a) c of
        (r, c') \<Rightarrow>
          if r = Inr True \<and> cl_on_upgrade c'
          then (r, c'\<lparr>cl_upgrades := cl_upgrades c' @
                     (case cl_calls c' chat of Some call \<Rightarrow> [(chat, call_state call)] | None \<Rightarrow> [])\<rparr>)
          else (r, c'))"

definition client_seek_by ::
  "nat \<Rightarrow> int \<Rightarrow> int \<Rightarrow> ('s, 'v, 'c) client \<Rightarrow> (error + unit) \<times> ('s, 'v, 'c) client" where
  "client_seek_by now delta chat c = with_call chat (call_seek_by now delta) c"

definition read_call :: "int \<Rightarrow> (('s, 'v) call \<Rightarrow> error + 'r) \<Rightarrow> ('s, 'v, 'c) client \<Rightarrow> error + 'r" where
  "read_call chat f c = (case cl_calls c chat of None \<Rightarrow> Inl ConnectionNotFound | Some call \<Rightarrow> f call)"

definition client_audio_ssrc :: "int \<Rightarrow> ('s, 'v, 'c) client \<Rightarrow> error + u32" where
  "client_audio_ssrc chat c = read_call chat call_audio_ssrc c"

definition client_time :: "nat \<Rightarrow> int \<Rightarrow> ('s, 'v, 'c) client \<Rightarrow> error + u64" where
  "client_time now chat c = read_call chat (\<lambda>call. Inr (call_elapsed_ms now call)) c"

definition client_state :: "int \<Rightarrow> ('s, 'v, 'c) client \<Rightarrow> error + media_state" where
  "client_state chat c = read_call chat (\<lambda>call. Inr (call_state call)) c"

text \<open>\<open>stop\<close> also gives the call it removed, whose tasks live on.\<close>

definition client_stop ::
  "int \<Rightarrow> ('s, 'v, 'c) client \<Rightarrow> (error + unit) \<times> ('s, 'v) call option \<times> ('s, 'v, 'c) client" where
  "client_stop chat c =
     (case cl_calls c chat of
        None \<Rightarrow> (Inr (), None, c)
      | Some call \<Rightarrow>
          (case call_stop call of
             (r, call') \<Rightarrow> (r, Some call', c\<lparr>cl_calls := (cl_calls c)(chat := None)\<rparr>)))"

text \<open>\<open>close\<close>, with the calls it stopped.\<close>

definition client_close ::
  "('s, 'v, 'c) client \<Rightarrow> (error + unit) \<times> (int \<rightharpoonup> ('s, 'v) call) \<times> ('s, 'v, 'c) client" where
  "client_close c =
     (Inr (), (\<lambda>k. map_option (\<lambda>call. snd (call_stop call)) (cl_calls c k)), c\<lparr>cl_calls := Map.empty\<rparr>)"


section \<open>Chats are independent\<close>

datatype ('s, 'v, 'd) client_op =
    Perform rtmp_env call_op
  | Set_source "('s, 'v, 'd) source_env" "bytes streams"
  | Seek nat int
  | Stop_call

fun client_act ::
  "('s, 'v, 'd) client_op \<Rightarrow> int \<Rightarrow> ('s, 'v, 'c) client \<Rightarrow> (error + bool) \<times> ('s, 'v, 'c) client" where
  "client_act (Perform env a) chat c = client_perform env a chat c"
| "client_act (Set_source env streams) chat c =
     (case client_set_stream_sources env streams chat c of (r, c') \<Rightarrow> (bind_res r (\<lambda>_. Inr False), c'))"
| "client_act (Seek now delta) chat c =
     (case client_seek_by now delta chat c of (r, c') \<Rightarrow> (bind_res r (\<lambda>_. Inr False), c'))"
| "client_act Stop_call chat c = (case client_stop chat c of (r, _, c') \<Rightarrow> (bind_res r (\<lambda>_. Inr False), c'))"

text \<open>
  The machine of one chat: from its call, if there is one, the result, the call afterwards and
  what \<open>on_upgrade\<close> is told.
\<close>

fun chat_act ::
  "('s, 'v, 'd) client_op \<Rightarrow> bool \<Rightarrow> ('s, 'v) call option \<Rightarrow>
     (error + bool) \<times> ('s, 'v) call option \<times> media_state list" where
  "chat_act Stop_call report None = (Inr False, None, [])"
| "chat_act op report None = (Inl ConnectionNotFound, None, [])"
| "chat_act (Perform env a) report (Some call) =
     (case call_perform env a call of
        (r, call') \<Rightarrow> (r, Some call', if r = Inr True \<and> report then [call_state call'] else []))"
| "chat_act (Set_source env streams) report (Some call) =
     (case call_set_source env streams call of (r, call') \<Rightarrow> (bind_res r (\<lambda>_. Inr False), Some call', []))"
| "chat_act (Seek now delta) report (Some call) =
     (case call_seek_by now delta call of (r, call') \<Rightarrow> (bind_res r (\<lambda>_. Inr False), Some call', []))"
| "chat_act Stop_call report (Some call) =
     (case call_stop call of (r, call') \<Rightarrow> (bind_res r (\<lambda>_. Inr False), None, []))"

lemma client_act_chat:
  "client_act op chat c =
     (case chat_act op (cl_on_upgrade c) (cl_calls c chat) of
        (r, m, ups) \<Rightarrow> (r, c\<lparr>cl_calls := (cl_calls c)(chat := m),
                            cl_upgrades := cl_upgrades c @ map (Pair chat) ups\<rparr>))"
proof (cases "cl_calls c chat")
  case None
  then have "(cl_calls c)(chat := None) = cl_calls c" by auto
  with None show ?thesis
    by (cases op) (simp_all add: client_perform_def client_set_stream_sources_def client_seek_by_def
        client_stop_def with_call_def)
next
  case (Some call)
  have nil: "c\<lparr>cl_calls := m, cl_upgrades := cl_upgrades c\<rparr> = c\<lparr>cl_calls := m\<rparr>" for m by simp
  show ?thesis
  proof (cases op)
    case (Perform env a)
    with Some nil show ?thesis
      by (cases "call_perform env a call") (simp add: client_perform_def with_call_def)
  next
    case (Set_source env streams)
    with Some nil show ?thesis
      by (cases "call_set_source env streams call") (simp add: client_set_stream_sources_def with_call_def)
  next
    case (Seek now delta)
    with Some nil show ?thesis
      by (cases "call_seek_by now delta call") (simp add: client_seek_by_def with_call_def)
  next
    case Stop_call
    with Some nil show ?thesis by (cases "call_stop call") (simp add: client_stop_def)
  qed
qed

lemma client_act_fields:
  "fst (client_act op chat c) = fst (chat_act op (cl_on_upgrade c) (cl_calls c chat))"
  "cl_calls (snd (client_act op chat c)) =
     (cl_calls c)(chat := fst (snd (chat_act op (cl_on_upgrade c) (cl_calls c chat))))"
  "cl_upgrades (snd (client_act op chat c)) =
     cl_upgrades c @ map (Pair chat) (snd (snd (chat_act op (cl_on_upgrade c) (cl_calls c chat))))"
  "cl_on_upgrade (snd (client_act op chat c)) = cl_on_upgrade c"
  "cl_factory (snd (client_act op chat c)) = cl_factory c"
  by (simp_all add: client_act_chat case_prod_beta)

text \<open>
  C11. Chats do not interfere.  An operation on one chat, whatever it is, sees and changes the
  call of that chat only, and operations on two different chats can be exchanged: both
  orders give the same results, the same calls and, for each chat, the same upgrades.
\<close>

theorem client_chats_independent:
  assumes "k1 \<noteq> k2"
  shows "(\<forall>k. k \<noteq> k1 \<longrightarrow> cl_calls (snd (client_act op1 k1 c)) k = cl_calls c k)
    \<and> fst (client_act op2 k2 (snd (client_act op1 k1 c))) = fst (client_act op2 k2 c)
    \<and> fst (client_act op1 k1 (snd (client_act op2 k2 c))) = fst (client_act op1 k1 c)
    \<and> cl_calls (snd (client_act op2 k2 (snd (client_act op1 k1 c)))) =
        cl_calls (snd (client_act op1 k1 (snd (client_act op2 k2 c))))
    \<and> filter (\<lambda>u. fst u = k) (cl_upgrades (snd (client_act op2 k2 (snd (client_act op1 k1 c))))) =
        filter (\<lambda>u. fst u = k) (cl_upgrades (snd (client_act op1 k1 (snd (client_act op2 k2 c)))))"
proof -
  have f: "filter (\<lambda>u. fst u = k) (map (Pair j) ups) = (if k = j then map (Pair j) ups else [])"
    for j and ups :: "media_state list"
    by (induction ups) auto
  show ?thesis
    using assms by (auto simp: client_act_fields f fun_upd_twist)
qed

text \<open>
  C21. When the client reports an upgrade.  It returns what the call returns, and it tells a
  callback that is set once if that is \<open>Ok(true)\<close> and not at all otherwise, with the flag of the
  operation as it is now and the other flag as it was.  The flags of the call change exactly if the
  result is \<open>Ok(true)\<close>, with one exception: an RTMP call whose \<open>resume\<close> cannot start ffmpeg has
  unpaused, returns the error of the start, and nobody is told.
\<close>

theorem client_upgrade_on_change:
  assumes "cl_calls c chat = Some call" "client_perform env a chat c = (r, c')"
  shows "\<exists>call'. call_perform env a call = (r, call') \<and> cl_calls c' = (cl_calls c)(chat \<mapsto> call')
    \<and> cl_upgrades c' = cl_upgrades c @
        (if r = Inr True \<and> cl_on_upgrade c
         then [(chat, spec_state (no_video call') (set_flag a (view_of call)))] else [])
    \<and> (r = Inr True \<longrightarrow> set_flag a (view_of call) \<noteq> view_of call)
    \<and> (view_of call' \<noteq> view_of call \<longleftrightarrow> r = Inr True \<or> (\<exists>m. r = Inl (FFmpegSpawn m)))
    \<and> ((\<exists>m. r = Inl (FFmpegSpawn m)) \<longrightarrow>
         (\<exists>rc. call = Rtmp rc) \<and> a = Op_resume \<and> cv_paused (view_of call) \<and> \<not> cv_paused (view_of call'))"
proof -
  obtain x call' where x: "call_perform env a call = (x, call')" by fastforce
  then have p: "call_perform env a call = (r, call')" "cl_calls c' = (cl_calls c)(chat \<mapsto> call')"
    "cl_upgrades c' = cl_upgrades c @ (if r = Inr True \<and> cl_on_upgrade c then [(chat, call_state call')] else [])"
    using assms by (auto simp: client_perform_def with_call_def split: if_splits)
  have told: "call_state call' = spec_state (no_video call') (set_flag a (view_of call))
      \<and> set_flag a (view_of call) \<noteq> view_of call" if "r = Inr True"
    using any_call.state_after_change [of env a call] p(1) that by simp
  have v: "view_of call' = snd (spec_op a (view_of call))" using any_call.view_perform [of env a call] p(1) by simp
  have r: "r = fst (spec_op a (view_of call)) \<or>
      a = Op_resume \<and> fst (spec_op a (view_of call)) = Inr True \<and> (\<exists>m. r = Inl (FFmpegSpawn m))"
    using any_call.result_perform [of env a call] p(1) by simp
  have spec: "view_of call' \<noteq> view_of call \<longleftrightarrow> fst (spec_op a (view_of call)) = Inr True"
    "fst (spec_op a (view_of call)) \<noteq> Inl (FFmpegSpawn m)" for m
    by (auto simp: v spec_op_def)
  have spawn: "a = Op_resume \<and> fst (spec_op a (view_of call)) = Inr True" if "r = Inl (FFmpegSpawn m)" for m
    using r spec(2) that by metis
  have rtmp: "\<exists>rc. call = Rtmp rc" if "r = Inl (FFmpegSpawn m)" for m
  proof (cases call)
    case (Group g)
    then have "r = fst (spec_op a (view_of call))"
      using p(1) group.no_failure [where a = a and c = g] by (auto split: prod.splits)
    with spec(2) that show ?thesis by simp
  qed simp
  have flags: "cv_paused (view_of call) \<and> \<not> cv_paused (view_of call')" if "r = Inl (FFmpegSpawn m)" for m
  proof -
    have o: "a = Op_resume" "\<not> cv_closed (view_of call)" "set_flag Op_resume (view_of call) \<noteq> view_of call"
      using spawn [OF that] by (auto simp: spec_op_def split: if_splits)
    then have "cv_paused (view_of call)" by (simp add: set_flag_eq_iff)
    moreover have "\<not> cv_paused (view_of call')" using o(1,2) by (simp add: v spec_op_def set_flag_def)
    ultimately show ?thesis ..
  qed
  have changed: "view_of call' \<noteq> view_of call \<longleftrightarrow> r = Inr True \<or> (\<exists>m. r = Inl (FFmpegSpawn m))"
    using r spawn by (auto simp: spec(1))
  have told': "cl_upgrades c' = cl_upgrades c @ (if r = Inr True \<and> cl_on_upgrade c
      then [(chat, spec_state (no_video call') (set_flag a (view_of call)))] else [])"
    using p(3) told by (cases "r = Inr True") simp_all
  have silent: "(\<exists>m. r = Inl (FFmpegSpawn m)) \<longrightarrow>
      (\<exists>rc. call = Rtmp rc) \<and> a = Op_resume \<and> cv_paused (view_of call) \<and> \<not> cv_paused (view_of call')"
    using spawn rtmp flags by blast
  have "r = Inr True \<longrightarrow> set_flag a (view_of call) \<noteq> view_of call" using told by blast
  then show ?thesis by (intro exI [of _ call'] conjI p(1,2) told' changed silent)
qed

section \<open>Creating and closing\<close>

lemma gp_new_open:
  "gp_new lib r ssrcs gen chat f disp t ev = (Inr g, f') \<Longrightarrow> \<not> gp_closed g \<and> gp_view g = \<lparr>cv_closed = False, cv_paused = False, cv_muted = False\<rparr>"
  by (auto simp: gp_new_def gp_view_def split: prod.splits sum.splits)

lemma client_create_finish_ok:
  "client_create_finish env chat c = (Inr p, c') \<Longrightarrow>
     \<exists>g. cl_calls c' = (cl_calls c)(chat \<mapsto> Group g) \<and> \<not> gp_closed g
       \<and> gp_create_local_params (ne_writer env) g = Inr p \<and> cl_options c' = cl_options c"
  by (auto simp: client_create_finish_def Let_def dest: gp_new_open split: prod.splits sum.splits)

text \<open>
  C28. Creating calls.  One after the other, the second creation for a chat is refused with
  \<open>ConnectionExists\<close> and nothing changes.  Two that overlap both pass the test and both
  succeed: each returns the parameters of its own call, but the map keeps only the second,
  so that the first call stays open with nobody able to reach or stop it.
\<close>

theorem client_create_race:
  assumes "client_create_check chat c = Inr ()"
    and "client_create_finish env1 chat c = (Inr p1, c1)" "client_create_finish env2 chat c1 = (Inr p2, c2)"
  shows "client_create_call env1 chat c = (Inr p1, c1)
    \<and> client_create_call env2 chat c1 = (Inl ConnectionExists, c1)
    \<and> (\<exists>g1 g2. cl_calls c1 chat = Some (Group g1) \<and> cl_calls c2 chat = Some (Group g2)
         \<and> gp_create_local_params (ne_writer env1) g1 = Inr p1 \<and> \<not> gp_closed g1
         \<and> gp_create_local_params (ne_writer env2) g2 = Inr p2
         \<and> cl_calls c2 = (cl_calls c)(chat \<mapsto> Group g2))"
proof -
  obtain g1 where g1: "cl_calls c1 = (cl_calls c)(chat \<mapsto> Group g1)" "\<not> gp_closed g1"
    "gp_create_local_params (ne_writer env1) g1 = Inr p1"
    using client_create_finish_ok [OF assms(2)] by blast
  obtain g2 where g2: "cl_calls c2 = (cl_calls c1)(chat \<mapsto> Group g2)"
    "gp_create_local_params (ne_writer env2) g2 = Inr p2"
    using client_create_finish_ok [OF assms(3)] by blast
  show ?thesis
    using assms(1,2) g1 g2 by (simp add: client_create_call_def client_create_check_def)
qed

text \<open>
  Closing the client stops every call and forgets it: each call is closed with its flags
  cleared, afterwards no chat is known to any operation, which is \<open>ConnectionNotFound\<close> and
  never \<open>Closed\<close>, stopping is still accepted, and calls can be created again.
\<close>

theorem client_close_stops_all:
  assumes "client_close c = (res, stopped, c')"
  shows "res = Inr () \<and> dom stopped = dom (cl_calls c)
    \<and> (\<forall>call \<in> ran stopped. cv_closed (view_of call)
         \<and> fst (run_ops call_perform xs call) = map (\<lambda>_. Inl ClosedE) xs)
    \<and> client_act (Perform env a) k c' = (Inl ConnectionNotFound, c')
    \<and> client_act (Seek now delta) k c' = (Inl ConnectionNotFound, c')
    \<and> client_state k c' = Inl ConnectionNotFound
    \<and> fst (client_stop k c') = Inr ()
    \<and> client_create_check k c' = Inr ()"
proof -
  have c': "res = Inr ()" "cl_calls c' = Map.empty"
    "stopped = (\<lambda>k. map_option (\<lambda>call. snd (call_stop call)) (cl_calls c k))"
    using assms by (auto simp: client_close_def)
  have "cv_closed (view_of (snd (call_stop call)))" for call :: "('a, 'b) call"
    by (simp add: any_call.view_stop spec_stop_def)
  then have "\<forall>call \<in> ran stopped. cv_closed (view_of call)
         \<and> fst (run_ops call_perform xs call) = map (\<lambda>_. Inl ClosedE) xs"
    using any_call.stop_absorbs unfolding c'(3) by (fastforce simp: ran_def)
  with c' show ?thesis
    by (simp add: client_act_chat client_perform_def client_seek_by_def with_call_def client_state_def
        read_call_def client_stop_def client_create_check_def dom_def)
qed


section \<open>Concrete clients\<close>

definition example_client :: "(nat, nat, nat) client" where
  "example_client =
     \<lparr>cl_options = client_options_default,
      cl_factory = \<lparr>pf_options = factory_options_default, pf_cert_pool = pool_new 8\<rparr>,
      cl_calls = [1 \<mapsto> Group example_call, 2 \<mapsto> Rtmp (rc_new 2 ''rtmp://x'')],
      cl_on_stream_end = True, cl_on_connection_change = False, cl_on_upgrade = True,
      cl_upgrades = []\<rparr>"

definition example_create :: "(nat, nat, unit, nat) create_env" where
  "example_create =
     \<lparr>ne_lib = echo_lib, ne_draw = echo_draw, ne_ssrcs = (0x10000000, 0x10000001),
      ne_gen = Inr \<lparr>gc_certificate = 5, gc_fingerprint_sha256 = ''AB''\<rparr>,
      ne_writer = \<lparr>jw_simd = (\<lambda>lp. Inr ''json''), jw_serde = (\<lambda>lp. Inl ''e'')\<rparr>\<rparr>"

lemma client_chats_independent_witness:
  "fst (client_act (Perform \<lparr>re_os = working_os, re_now = 0\<rparr> Op_mute :: (nat, nat, unit) client_op) 2
      (snd (client_act (Seek 0 5 :: (nat, nat, unit) client_op) 1 example_client))) =
    fst (client_act (Perform \<lparr>re_os = working_os, re_now = 0\<rparr> Op_mute :: (nat, nat, unit) client_op) 2 example_client)"
  using client_chats_independent [of 1 2 "Seek 0 5 :: (nat, nat, unit) client_op" example_client
      "Perform \<lparr>re_os = working_os, re_now = 0\<rparr> Op_mute :: (nat, nat, unit) client_op" 1]
  by simp

lemma client_upgrade_on_change_witness:
  "cl_upgrades (snd (client_perform \<lparr>re_os = working_os, re_now = 0\<rparr> Op_mute 2 example_client)) =
     [(2, spec_state False \<lparr>cv_closed = False, cv_paused = False, cv_muted = True\<rparr>)]"
proof -
  let ?env = "\<lparr>re_os = working_os, re_now = 0\<rparr>" and ?r = "rc_new 2 ''rtmp://x''"
  have m: "call_perform ?env Op_mute (Rtmp ?r :: (nat, nat) call) = (Inr True, Rtmp (?r\<lparr>rc_muted := True\<rparr>))"
    by (simp add: rc_op_cases rc_new_def rc_new_with_events_def)
  obtain r c' where c': "client_perform ?env Op_mute 2 example_client = (r, c')" by fastforce
  moreover have "cl_calls example_client 2 = Some (Rtmp ?r)" by (simp add: example_client_def)
  moreover have "set_flag Op_mute (view_of (Rtmp ?r :: (nat, nat) call)) =
      \<lparr>cv_closed = False, cv_paused = False, cv_muted = True\<rparr>"
    by (simp add: rc_view_def set_flag_def rc_new_def rc_new_with_events_def)
  moreover have "cl_on_upgrade example_client" "cl_upgrades example_client = []"
    by (simp_all add: example_client_def)
  ultimately show ?thesis
    using client_upgrade_on_change [of example_client 2 "Rtmp ?r" ?env Op_mute r c'] m by auto
qed

lemma example_create_finish:
  "pf_cert_pool (cl_factory c) = pool_new 8 \<Longrightarrow>
     \<exists>c'. client_create_finish example_create chat c = (Inr ''json'', c') \<and> pf_cert_pool (cl_factory c') = pool_new 8"
  by (simp add: client_create_finish_def gp_new_def stack_new_def take_cert_def pool_try_take_def pool_new_def
      example_create_def gp_create_local_params_def get_local_params_json_def dt_build_local_params_def
      set_on_state_change_def dt_new_def dt_new_with_ssrc_def build_local_params_json_def
      build_local_params_def echo_draw_def)

lemma client_create_race_witness:
  "\<exists>c1 c2 g1 g2. client_create_finish example_create 3 example_client = (Inr ''json'', c1)
     \<and> client_create_finish example_create 3 c1 = (Inr ''json'', c2)
     \<and> cl_calls c1 3 = Some (Group g1) \<and> cl_calls c2 3 = Some (Group g2) \<and> \<not> gp_closed g1"
proof -
  have "pf_cert_pool (cl_factory example_client) = pool_new 8" by (simp add: example_client_def)
  then obtain c1 where c1: "client_create_finish example_create 3 example_client = (Inr ''json'', c1)"
    "pf_cert_pool (cl_factory c1) = pool_new 8" using example_create_finish by blast
  then obtain c2 where c2: "client_create_finish example_create 3 c1 = (Inr ''json'', c2)"
    using example_create_finish by blast
  have "client_create_check 3 example_client = Inr ()"
    by (simp add: client_create_check_def example_client_def)
  from client_create_race [OF this c1(1) c2] c1(1) c2 show ?thesis by blast
qed

lemma client_close_stops_all_witness:
  "client_state 1 (snd (snd (client_close example_client))) = Inl ConnectionNotFound
   \<and> dom (fst (snd (client_close example_client))) = {1, 2}"
proof -
  obtain res stopped c' where c: "client_close example_client = (res, stopped, c')"
    by (cases "client_close example_client")
  have "dom (cl_calls example_client) = {1, 2}" by (auto simp: example_client_def)
  with c client_close_stops_all [OF c, where k = 1 and xs = "[]"] show ?thesis by simp
qed

text \<open>
  Of the client's options a new call takes the connect timeout only: with any other options
  that have the same timeout the same call is created.
\<close>

lemma client_options_unused:
  assumes "co_connect_timeout_secs o1 = co_connect_timeout_secs (cl_options c)"
  shows "fst (client_create_call env chat (c\<lparr>cl_options := o1\<rparr>)) = fst (client_create_call env chat c)
    \<and> cl_calls (snd (client_create_call env chat (c\<lparr>cl_options := o1\<rparr>))) = cl_calls (snd (client_create_call env chat c))"
  using assms
  by (auto simp: client_create_call_def client_create_check_def client_create_finish_def Let_def
      split: sum.splits prod.splits)

end
