(* ===== verification/Media_Track.thy ===== *)
theory Media_Track
  imports Group_Call
begin

text \<open>
  What the two tracks of a group call have in common.  Both streamers send over one transport;
  what a track has put on it depends on its own frames only.  \<open>track_step\<close> is a step of the call
  seen from one track; the locale \<open>media_track\<close> says what a track needs of the transport, and
  shows that the invariant \<open>path_inv\<close>, from the reader to the packets, is kept by these steps.
  The provider of the laws is the transport: \<open>Media_Path\<close> for the audio, \<open>Video_Path\<close> for the video.
\<close>

section \<open>The path of a track\<close>

text \<open>
  From the reader \<open>r0\<close> and the track \<open>tr\<close> at the start: the transport can send; the frames that
  have been played come from the reader in order and on time; every one of them has been sent,
  and the track of the transport is what these frames have made of it.
\<close>

definition path_inv ::
  "(('s, 'v) direct_transport \<Rightarrow> 't) \<Rightarrow> (sample \<Rightarrow> 't \<Rightarrow> 't) \<Rightarrow> ('r \<Rightarrow> (error + sample) \<times> 'r) \<Rightarrow>
     't \<Rightarrow> 'r \<Rightarrow> ('s, 'v, unit) stack \<Rightarrow> 'r streamer \<Rightarrow> bool" where
  "path_inv track add nx tr r0 st s \<longleftrightarrow>
     dt_ready (sk_direct st) \<and> \<not> sm_muted s \<and> order_inv nx r0 s \<and> pace_inv s
     \<and> track (sk_direct st) = fold add (played_samples s) tr"

text \<open>The steps of a call, for one track: nothing, a step that plays nothing, its own pacing
  task, and a frame of the other track.\<close>

inductive track_step ::
  "('s, 'v, 'd) wire_lib \<Rightarrow> u8 \<Rightarrow> u8 \<Rightarrow> ('r \<Rightarrow> (error + sample) \<times> 'r) \<Rightarrow>
     'r streamer \<Rightarrow> ('s, 'v, unit) stack \<Rightarrow> 'r streamer \<Rightarrow> ('s, 'v, unit) stack \<Rightarrow> bool"
  for lib :: "('s, 'v, 'd) wire_lib" and own other :: u8 and nx :: "'r \<Rightarrow> (error + sample) \<times> 'r" where
  Idle: "track_step lib own other nx s st s st"
| Quiet: "sm_step nx a s = Some s' \<Longrightarrow> sm_played s' = sm_played s \<Longrightarrow> sm_muted s' = sm_muted s \<Longrightarrow>
    track_step lib own other nx s st s' st"
| Own: "pace_with lib ck own s st = (Some s', st') \<Longrightarrow> track_step lib own other nx s st s' st'"
| Other: "send_rtp_bytes lib ck other p d (sk_direct st) = (r, dt') \<Longrightarrow>
    track_step lib own other nx s st s (st\<lparr>sk_direct := dt'\<rparr>)"

section \<open>Steps that play nothing\<close>

lemma own_task_plays_nothing:
  "own_task a \<Longrightarrow> sm_step nx a s = Some t \<Longrightarrow> sm_played t = sm_played s \<and> sm_muted t = sm_muted s"
  by (cases a; cases "sm_reader_pc s") (auto simp: sm_task_defs split: if_splits prod.splits option.splits list.splits)

lemma pacer_plays_nothing:
  "\<forall>x. sm_pacer s \<noteq> Pc_send x \<Longrightarrow> pacer_step r s = Some t \<Longrightarrow>
     sm_played t = sm_played s \<and> sm_muted t = sm_muted s"
  by (cases "sm_pacer s")
    (auto simp: pacer_step_def pacer_loop_def start_slot_def recv_def Let_def
      split: if_splits option.splits list.splits sum.splits)

lemma barrier_plays_nothing:
  "barrier_step s = Some t \<Longrightarrow> sm_played t = sm_played s \<and> sm_muted t = sm_muted s"
  by (cases "sm_pacer s") (auto simp: barrier_step_def start_slot_def)

lemma pace_with_stack:
  "pace_with lib ck pt s st = (t, st') \<Longrightarrow> st' = st \<or>
     (\<exists>(x :: sample) r dt'. send_rtp_bytes lib ck pt (sm_data x) (sm_duration x) (sk_direct st) = (r, dt')
        \<and> st' = st\<lparr>sk_direct := dt'\<rparr>)"
proof (cases "sm_pacer s")
  case (Pc_send x)
  assume p: "pace_with lib ck pt s st = (t, st')"
  obtain r dt' where r: "send_rtp_bytes lib ck pt (sm_data x) (sm_duration x) (sk_direct st) = (r, dt')" by fastforce
  with p Pc_send have "st' = st \<or> st' = st\<lparr>sk_direct := dt'\<rparr>"
    by (cases "sm_muted s") (simp_all add: pace_with_def stack_send_rtp_bytes_def)
  with r show ?thesis by blast
qed (simp_all add: pace_with_def)

lemma track_step_other:
  "pace_with lib ck other v st = (v', st') \<Longrightarrow> track_step lib own other nx s st s st'"
  using pace_with_stack [of lib ck other v st v' st'] track_step.Idle track_step.Other by metis

lemma track_step_idle: "s' = s \<Longrightarrow> st' = st \<Longrightarrow> track_step lib own other nx s st s' st'"
  by (simp add: track_step.Idle)

lemma track_step_task:
  "own_task a \<Longrightarrow> sm_step nx a s = Some s' \<Longrightarrow> track_step lib own other nx s st s' st"
  using own_task_plays_nothing track_step.Quiet by metis

text \<open>The calls of the client pause and resume, and leave the stack alone.\<close>

lemma gp_perform_streamers:
  "gp_stack (snd (gp_perform op g)) = gp_stack g
   \<and> (\<exists>f \<in> {id, sm_pause, sm_resume}. gp_audio (snd (gp_perform op g)) = map_option f (gp_audio g))
   \<and> (\<exists>f \<in> {id, sm_pause, sm_resume}. gp_video (snd (gp_perform op g)) = map_option f (gp_video g))"
proof (cases "gp_closed g")
  case True
  then show ?thesis by (simp add: gp_op_unchanged option.map_id)
next
  case False
  then show ?thesis
    by (cases op; cases "gp_paused g"; cases "gp_muted g")
      (simp_all add: gp_op_unchanged gp_op_cases option.map_id)
qed

lemma track_step_client:
  assumes "f \<in> {id, sm_pause, sm_resume}"
  shows "track_step lib own other nx s st (f s) st"
  using assms track_step.Idle track_step.Quiet [of nx Pause s "sm_pause s"] track_step.Quiet [of nx Resume s "sm_resume s"]
  by (auto simp: sm_pause_def sm_resume_def)

lemma gp_stack_report [simp]: "gp_stack (gp_report calls g) = gp_stack g"
proof -
  have "gp_stack (gp_submit e h) = gp_stack h" for e and h :: "('a, 'b) group_call"
    by (simp add: gp_submit_def split: option.splits)
  then have "gp_stack (fold (\<lambda>c. gp_submit [end_event c]) calls h) = gp_stack h" for h :: "('a, 'b) group_call"
    by (induction calls arbitrary: h) simp_all
  then show ?thesis by (simp add: gp_report_def)
qed

lemma gp_stack_set [simp]:
  "gp_stack (gp_set_audio s s' g) = gp_stack g" "gp_stack (gp_set_video v v' g) = gp_stack g"
  by (simp_all add: gp_set_audio_def gp_set_video_def)

section \<open>A step of the call is a step of each track\<close>

lemma gp_step_audio_track:
  assumes "gp_step lib b g = Some g'" "gp_audio g = Some a"
  shows "\<exists>a'. gp_audio g' = Some a'
    \<and> track_step lib OPUS_PAYLOAD_TYPE VP8_PAYLOAD_TYPE opus_next a (gp_stack g) a' (gp_stack g')"
proof (cases b)
  case (Audio_task c)
  then obtain a' where "own_task c" "sm_step opus_next c a = Some a'" "g' = gp_set_audio a a' g"
    using assms by (auto split: if_splits)
  with track_step_task show ?thesis by simp
next
  case (Audio_pace ck)
  with assms track_step.Own show ?thesis by (fastforce split: prod.splits option.splits)
next
  case (Video_task c)
  with assms show ?thesis by (auto simp: track_step_idle split: option.splits if_splits)
next
  case (Video_pace ck)
  with assms track_step_other show ?thesis by (fastforce split: prod.splits option.splits)
next
  case Both_at_barrier
  then obtain a' v' where a': "barrier_step a = Some a'" "g' = g\<lparr>gp_audio := Some a', gp_video := Some v'\<rparr>"
    using assms by (auto split: option.splits)
  then show ?thesis using track_step.Quiet [of opus_next Barrier_open a a'] barrier_plays_nothing [OF a'(1)] by simp
next
  case (Call_op op)
  then obtain f where "f \<in> {id, sm_pause, sm_resume}" "gp_audio g' = Some (f a)" "gp_stack g' = gp_stack g"
    using gp_perform_streamers [of op g] assms by force
  then show ?thesis using track_step_client by simp
qed

lemma gp_step_video_track:
  assumes "gp_step lib b g = Some g'" "gp_video g = Some v"
  shows "\<exists>v'. gp_video g' = Some v'
    \<and> track_step lib VP8_PAYLOAD_TYPE OPUS_PAYLOAD_TYPE vp8_next v (gp_stack g) v' (gp_stack g')"
proof (cases b)
  case (Video_task c)
  then obtain v' where "own_task c" "sm_step vp8_next c v = Some v'" "g' = gp_set_video v v' g"
    using assms by (auto split: if_splits)
  with track_step_task show ?thesis by simp
next
  case (Video_pace ck)
  with assms track_step.Own show ?thesis by (fastforce split: prod.splits option.splits)
next
  case (Audio_task c)
  with assms show ?thesis by (auto simp: track_step_idle split: option.splits if_splits)
next
  case (Audio_pace ck)
  with assms track_step_other show ?thesis by (fastforce split: prod.splits option.splits)
next
  case Both_at_barrier
  then obtain a' v' where v': "barrier_step v = Some v'" "g' = g\<lparr>gp_audio := Some a', gp_video := Some v'\<rparr>"
    using assms by (auto split: option.splits)
  then show ?thesis using track_step.Quiet [of vp8_next Barrier_open v v'] barrier_plays_nothing [OF v'(1)] by simp
next
  case (Call_op op)
  then obtain f where "f \<in> {id, sm_pause, sm_resume}" "gp_video g' = Some (f v)" "gp_stack g' = gp_stack g"
    using gp_perform_streamers [of op g] assms by force
  then show ?thesis using track_step_client by simp
qed

section \<open>The interface between a track and the transport\<close>

text \<open>
  A transport that can send and a good library: a frame of the track succeeds and adds to the
  track what \<open>add\<close> says; a frame of the other track, whether it succeeds or not, changes nothing.
\<close>

locale media_track =
  fixes good :: "('s, 'v, 'd) wire_lib \<Rightarrow> bool"
    and own :: u8
    and other :: u8
    and track :: "('s, 'v) direct_transport \<Rightarrow> 't"
    and add :: "('s, 'v, 'd) wire_lib \<Rightarrow> sample \<Rightarrow> 't \<Rightarrow> 't"
  assumes sent: "good lib \<Longrightarrow> dt_ready dt \<Longrightarrow>
      \<exists>dt'. send_rtp_bytes lib ck own (sm_data (x :: sample)) (sm_duration x) dt = (Inr (), dt')
        \<and> dt_ready dt' \<and> track dt' = add lib x (track dt)"
    and kept: "dt_ready dt \<Longrightarrow> send_rtp_bytes lib ck other p d dt = (r, dt') \<Longrightarrow>
      dt_ready dt' \<and> track dt' = track dt"
begin

lemma pace_path:
  assumes "good lib" "path_inv track (add lib) nx tr r0 st s" "pace_with lib ck own s st = (Some s', st')"
  shows "path_inv track (add lib) nx tr r0 st' s'"
proof -
  have i: "dt_ready (sk_direct st)" "\<not> sm_muted s" "order_inv nx r0 s" "pace_inv s"
    "track (sk_direct st) = fold (add lib) (played_samples s) tr"
    using assms(2) by (simp_all add: path_inv_def)
  obtain r where r: "sm_step nx (Pace_step r) s = Some s'" by (metis fst_conv pace_with_step assms(3))
  have i': "order_inv nx r0 s'" "pace_inv s'"
    using order_inv_step [OF i(3) r] pace_inv_step [OF i(4) r] by simp_all
  show ?thesis
  proof (cases "\<exists>x. sm_pacer s = Pc_send x")
    case True
    then obtain x where x: "sm_pacer s = Pc_send x" by blast
    obtain dt' where dt': "send_rtp_bytes lib ck own (sm_data x) (sm_duration x) (sk_direct st) = (Inr (), dt')"
      "dt_ready dt'" "track dt' = add lib x (track (sk_direct st))"
      using sent [OF assms(1) i(1)] by blast
    then have "st' = st\<lparr>sk_direct := dt'\<rparr>" "s' = finish_slot True x s"
      using assms(3) x i(2) by (simp_all add: pace_with_def stack_send_rtp_bytes_def pacer_step_def)
    moreover from this have "played_samples s' = played_samples s @ [x]" "\<not> sm_muted s'"
      using i(2) by (simp_all add: finish_slot_def played_samples_def Let_def)
    ultimately show ?thesis using dt' i i' by (simp add: path_inv_def)
  next
    case False
    then have "pacer_step (Inr ()) s = Some s'" "st' = st"
      using assms(3) by (auto simp: pace_with_def split: pacer_pc.splits)
    with False pacer_plays_nothing [of s "Inr ()" s'] i i' show ?thesis
      by (simp add: path_inv_def played_samples_def)
  qed
qed

lemma pace_sends:
  assumes "good lib" "dt_ready (sk_direct st)" "sm_pacer s = Pc_send x" "\<not> sm_muted s"
  shows "\<exists>dt'. pace_with lib ck own s st = (Some (finish_slot True x s), st\<lparr>sk_direct := dt'\<rparr>)"
  using sent [OF assms(1,2), of ck x] assms(3,4)
  by (auto simp: pace_with_def stack_send_rtp_bytes_def pacer_step_def)

text \<open>Sending works, so a round of the pacing task is the streamer's own with a good result.\<close>

lemma pace_ready:
  assumes "good lib" "dt_ready (sk_direct st)" "\<not> sm_muted s"
  shows "\<exists>st'. pace_with lib ck own s st = (pacer_step (Inr ()) s, st') \<and> dt_ready (sk_direct st')"
proof (cases "\<exists>x. sm_pacer s = Pc_send x")
  case True
  then obtain x where x: "sm_pacer s = Pc_send x" by blast
  obtain dt' where "send_rtp_bytes lib ck own (sm_data x) (sm_duration x) (sk_direct st) = (Inr (), dt')" "dt_ready dt'"
    using sent [OF assms(1,2)] by blast
  with x assms(3) show ?thesis by (simp add: pace_with_def stack_send_rtp_bytes_def)
next
  case False
  then have "pace_with lib ck own s st = (pacer_step (Inr ()) s, st)"
    by (cases "sm_pacer s") (simp_all add: pace_with_def)
  with assms(2) show ?thesis by simp
qed

lemma path_step:
  assumes "track_step lib own other nx s st s' st'" "good lib" "path_inv track (add lib) nx tr r0 st s"
  shows "path_inv track (add lib) nx tr r0 st' s'"
  using assms
proof (cases rule: track_step.cases)
  case (Quiet a)
  with assms(3) order_inv_step [OF _ Quiet(2)] pace_inv_step [OF _ Quiet(2)] show ?thesis
    by (simp add: path_inv_def played_samples_def)
next
  case (Own ck)
  show ?thesis by (rule pace_path [OF assms(2,3) Own])
next
  case (Other ck p d r dt')
  with assms(3) kept [OF _ Other(3)] show ?thesis by (simp add: path_inv_def)
qed simp

end

text \<open>A streamer that has just been started, on the track as it is.\<close>

lemma path_inv_new:
  assumes "dt_ready (sk_direct st)" "s \<in> {sm_new r0 b now, sm_pause (sm_new r0 b now),
      sm_set_on_end f (sm_new r0 b now), sm_set_on_end f (sm_pause (sm_new r0 b now))}"
  shows "path_inv track add nx (track (sk_direct st)) r0 st s"
proof -
  let ?s = "sm_new r0 b now"
  have i: "order_inv nx r0 ?s" "pace_inv ?s" by (simp_all add: order_inv_new pace_inv_new)
  have p: "order_inv nx r0 (sm_pause t)" "pace_inv (sm_pause t)" if "order_inv nx r0 t" "pace_inv t" for t
    using order_inv_step [OF that(1), of Pause] pace_inv_step [OF that(2), of _ Pause] by simp_all
  have e: "order_inv nx r0 (sm_set_on_end f t)" "pace_inv (sm_set_on_end f t)"
    if "order_inv nx r0 t" "pace_inv t" for t
    using order_inv_step [OF that(1), of "On_end f"] pace_inv_step [OF that(2), of _ "On_end f"] by simp_all
  have "order_inv nx r0 s" "pace_inv s" using assms(2) i p [OF i] e [OF i] e [OF p [OF i]] by auto
  moreover have "\<not> sm_muted s" "sm_played s = []"
    using assms(2) by (auto simp: sm_new_def sm_pause_def sm_set_on_end_def)
  ultimately show ?thesis using assms(1) by (simp add: path_inv_def played_samples_def)
qed

text \<open>What a path says of a source that gives \<open>xs\<close> and ends: a prefix of it has been played.\<close>

lemma path_prefix:
  assumes "path_inv track add nx tr r0 st s" "drain fuel nx r0 = (xs, Some e)"
  shows "length (sm_played s) \<le> length xs \<and> map played_sample (sm_played s) = take (length (sm_played s)) xs
    \<and> track (sk_direct st) = fold add (take (length (sm_played s)) xs) tr \<and> on_schedule (sm_played s)"
proof -
  have i: "order_inv nx r0 s" "pace_inv s" "track (sk_direct st) = fold add (played_samples s) tr"
    using assms(1) by (simp_all add: path_inv_def)
  have "prefix (played_samples s) xs" by (rule order_inv_prefix [OF i(1) assms(2)])
  then have "length (played_samples s) \<le> length xs" "played_samples s = take (length (played_samples s)) xs"
    by (auto simp: prefix_def)
  with i show ?thesis by (simp add: pace_inv_def played_samples_def)
qed

section \<open>One frame\<close>

text \<open>
  The first frame of a source in a streamer without a barrier: three steps of the reader task
  and two of the pacing task, whatever the transport, and the frame is about to be sent.
\<close>

lemma one_frame_steps:
  fixes nx :: "'r \<Rightarrow> (error + sample) \<times> 'r"
  assumes "nx r0 = (Inr x, r)"
  obtains s1 s2 s3 s4 s5 where
    "sm_step nx (Read_step False) (sm_set_on_end f (sm_new r0 False t)) = Some s1"
    "sm_step nx (Read_step False) s1 = Some s2" "sm_step nx (Read_step False) s2 = Some s3"
    "\<And>lib :: ('s, 'v, 'd) wire_lib. \<And>ck pt st. pace_with lib ck pt s3 st = (Some s4, st)"
    "\<And>lib :: ('s, 'v, 'd) wire_lib. \<And>ck pt st. pace_with lib ck pt s4 st = (Some s5, st)"
    "sm_pacer s5 = Pc_send x" "\<not> sm_muted s5" "sm_played s5 = []"
proof -
  let ?s0 = "sm_set_on_end f (sm_new r0 False t)"
  let ?s1 = "?s0\<lparr>sm_reader_pc := Rd_read\<rparr>"
  let ?s2 = "?s1\<lparr>sm_reader := r, sm_reader_pc := Rd_send (Inr x)\<rparr>"
  let ?s3 = "?s2\<lparr>sm_channel := [Inr x], sm_reader_pc := Rd_loop\<rparr>"
  let ?s4 = "?s3\<lparr>sm_channel := [], sm_next := Some (Inr x), sm_pacer := Pc_loop\<rparr>"
  let ?s5 = "start_slot x (?s4\<lparr>sm_next := None\<rparr>)"
  note defs = sm_set_on_end_def sm_new_def sm_task_defs CHANNEL_SIZE_def pace_with_def
  show thesis
    by (rule that [of ?s1 ?s2 ?s3 ?s4 ?s5]) (simp_all add: defs assms Let_def)
qed

end
