(* ===== verification/Media_Path.thy ===== *)
theory Media_Path
  imports Media_Track
begin

text \<open>
  The way of an audio frame through a group call: from the bytes of the source through the
  reader, the channel, the pacing task and the stack to the datagrams on the socket.  The
  transport provides the laws of \<open>media_track\<close> for the audio packets; \<open>audio_path\<close> is the
  invariant that results, kept by every step of \<open>gp_step\<close>, so by video frames that go out in
  between, by the barrier and by the client's calls.
\<close>

section \<open>The audio track of a transport\<close>

type_synonym audio_packet = "u8 \<times> u16 \<times> u32 \<times> u32 \<times> bool \<times> bytes"

text \<open>The audio packets that have been sent, as a receiver sees them.\<close>

definition audio_sent :: "('s, 'v) direct_transport \<Rightarrow> audio_packet list" where
  "audio_sent dt = filter (\<lambda>p. fst p = OPUS_PAYLOAD_TYPE) (map audio_view (rtp_sent (dt_wire dt)))"

type_synonym audio_track = "audio_packet list \<times> u16 \<times> u32 \<times> u32 \<times> bool"

definition track_of :: "('s, 'v) direct_transport \<Rightarrow> audio_track" where
  "track_of dt = (audio_sent dt, dt_audio_seq dt, dt_audio_ts dt, dt_audio_ssrc dt, dt_first_audio dt)"

text \<open>What one frame does to it.\<close>

fun track_add :: "sample \<Rightarrow> audio_track \<Rightarrow> audio_track" where
  "track_add x (w, seq, ts, ssrc, first) =
     (w @ [(OPUS_PAYLOAD_TYPE, seq, ts, ssrc, first, sm_data x)], seq + 1,
      ts + audio_ts_inc (sm_duration x), ssrc, False)"

text \<open>The packets of a list of frames, in closed form.\<close>

definition frame_packets :: "u16 \<Rightarrow> u32 \<Rightarrow> u32 \<Rightarrow> bool \<Rightarrow> sample list \<Rightarrow> audio_packet list" where
  "frame_packets seq ts ssrc first xs =
     map (\<lambda>k. (OPUS_PAYLOAD_TYPE, seq + of_nat k,
               ts + sum_list (map (\<lambda>x. audio_ts_inc (sm_duration x)) (take k xs)),
               ssrc, first \<and> k = 0, sm_data (xs ! k))) [0..<length xs]"

lemma frame_packets_Cons:
  "frame_packets seq ts ssrc first (x # xs) =
     (OPUS_PAYLOAD_TYPE, seq, ts, ssrc, first, sm_data x) #
       frame_packets (seq + 1) (ts + audio_ts_inc (sm_duration x)) ssrc False xs"
  by (simp add: frame_packets_def map_upt_Suc algebra_simps del: upt_Suc)

lemma fold_track_add:
  "fst (fold track_add xs (w, seq, ts, ssrc, first)) = w @ frame_packets seq ts ssrc first xs"
proof (induction xs arbitrary: w seq ts first)
  case (Cons x xs)
  then show ?case by (simp add: frame_packets_Cons)
qed (simp add: frame_packets_def)

lemma track_send_audio:
  assumes "wire_total lib" "dt_ready dt"
  shows "\<exists>dt'. send_rtp_bytes lib ck OPUS_PAYLOAD_TYPE (sm_data x) (sm_duration x) dt = (Inr (), dt')
    \<and> dt_ready dt' \<and> track_of dt' = track_add x (track_of dt)"
  using send_audio_ok [OF assms, of ck "sm_data x" "sm_duration x"]
  by (fastforce simp: track_of_def audio_sent_def)

section \<open>Video in between\<close>

lemma video_packets_type:
  "video_packets lib t ts ssrc chunks ctx seq = (Inr ps, c, s) \<Longrightarrow>
     \<forall>hpe \<in> set ps. rh_payload_type (fst hpe) = VP8_PAYLOAD_TYPE"
proof (induction chunks arbitrary: ctx seq ps c s)
  case (Cons x xs)
  then show ?case
    by (fastforce simp: Let_def video_header_def split: sum.splits prod.splits)
qed simp

lemma audio_sent_video_fold:
  assumes "\<forall>hpe \<in> set ps. rh_payload_type (fst hpe) = VP8_PAYLOAD_TYPE"
  shows "audio_sent (fold (put_video sock addr) ps dt) = audio_sent dt"
proof -
  have "filter (\<lambda>p. fst p = OPUS_PAYLOAD_TYPE) (map audio_view (map (\<lambda>(h, p, e). (h, p)) ps)) = []"
    using assms by (auto simp: filter_empty_conv audio_view_def media_consts)
  then show ?thesis
    by (simp add: audio_sent_def put_video_fold)
qed

lemma prepare_track:
  "track_of (prepare lib ck dt) = track_of dt \<and> (dt_ready dt \<longrightarrow> dt_ready (prepare lib ck dt))"
proof -
  obtain c w e where "prepare lib ck dt = dt\<lparr>dt_epoch := e, dt_srtp := c, dt_wire := w\<rparr>"
    "c = None \<longleftrightarrow> dt_srtp dt = None" "rtp_sent w = rtp_sent (dt_wire dt)"
    using prepare_frame by blast
  then show ?thesis by (simp add: track_of_def audio_sent_def dt_ready_def own_dest_def)
qed

lemma send_video_track:
  assumes "dt_ready dt" "send_video lib t payload d dt = (r, dt')"
  shows "dt_ready dt' \<and> track_of dt' = track_of dt"
proof -
  let ?dt1 = "dt\<lparr>dt_video_ts := dt_video_ts dt + video_ts_inc d, dt_first_video := False\<rparr>"
  have keep: "dt_ready (?dt1\<lparr>dt_payloader := v\<rparr>) \<and> track_of (?dt1\<lparr>dt_payloader := v\<rparr>) = track_of dt" for v
    using assms(1) by (simp add: track_of_def audio_sent_def dt_ready_def own_dest_def)
  have keep2: "dt_ready (?dt1\<lparr>dt_payloader := v, dt_srtp := Some c, dt_video_seq := s\<rparr>)
      \<and> track_of (?dt1\<lparr>dt_payloader := v, dt_srtp := Some c, dt_video_seq := s\<rparr>) = track_of dt" for v c s
    using assms(1) by (simp add: track_of_def audio_sent_def dt_ready_def own_dest_def)
  obtain sock addr ctx where dst: "dt_socket dt = Some sock" "dt_remote dt = Some addr" "dt_srtp dt = Some ctx"
    using assms(1) by (auto simp: dt_ready_def own_dest_def split: option.splits)
  obtain x v where x: "wl_vp8_payload lib (dt_payloader dt) MAX_VP8_PAYLOAD payload = (x, v)" by fastforce
  show ?thesis
  proof (cases "\<exists>chunks. x = Inr chunks \<and> chunks \<noteq> []")
    case False
    then have "dt' = ?dt1\<lparr>dt_payloader := v\<rparr>"
      using assms(2) x by (cases x) (auto simp: send_video_def Let_def)
    with keep show ?thesis by simp
  next
    case True
    then obtain chunks where chunks: "x = Inr chunks" "chunks \<noteq> []" by blast
    obtain y c s where y: "video_packets lib t (dt_video_ts dt) (dt_video_ssrc dt) chunks ctx (dt_video_seq dt) = (y, c, s)"
      by (metis prod_cases3)
    show ?thesis
    proof (cases y)
      case (Inl e)
      then have "dt' = ?dt1\<lparr>dt_payloader := v, dt_srtp := Some c, dt_video_seq := s\<rparr>"
        using assms(2) x chunks y dst by (simp add: send_video_def own_dest_def Let_def)
      with keep2 show ?thesis by simp
    next
      case (Inr ps)
      then have "dt' = fold (put_video sock addr) ps
          (?dt1\<lparr>dt_payloader := v, dt_srtp := Some c, dt_video_seq := s\<rparr>)"
        using assms(2) x chunks y dst by (simp add: send_video_def own_dest_def Let_def)
      with keep2 [where v = v and c = c and s = s] video_packets_type [OF y [unfolded Inr]] show ?thesis
        by (simp add: put_video_fold_fields track_of_def audio_sent_video_fold)
    qed
  qed
qed

lemma track_send_video:
  assumes "dt_ready dt" "pt \<noteq> OPUS_PAYLOAD_TYPE" "send_rtp_bytes lib ck pt p d dt = (r, dt')"
  shows "dt_ready dt' \<and> track_of dt' = track_of dt"
proof -
  have "\<not> dt_closed dt" using assms(1) by (simp add: dt_ready_def)
  then have "send_video lib (abs_time_bytes (abs_send_time (ntp_time (ck_send ck)))) p d (prepare lib ck dt) = (r, dt')"
    using assms(2,3) by (simp add: send_rtp_bytes_prepare)
  with send_video_track prepare_track [of lib ck dt] assms(1) show ?thesis by metis
qed

section \<open>The path of the audio\<close>

interpretation audio: media_track wire_total OPUS_PAYLOAD_TYPE VP8_PAYLOAD_TYPE track_of "\<lambda>lib. track_add"
  by unfold_locales (rule track_send_audio, assumption+, rule track_send_video, simp_all add: media_consts)

definition audio_path :: "audio_track \<Rightarrow> opus_reader \<Rightarrow> ('s, 'v) group_call \<Rightarrow> bool" where
  "audio_path tr r0 g \<longleftrightarrow>
     (\<exists>a. gp_audio g = Some a \<and> path_inv track_of track_add opus_next tr r0 (gp_stack g) a)"

lemma audio_path_step:
  assumes "wire_total lib" "audio_path tr r0 g" "gp_step lib b g = Some g'"
  shows "audio_path tr r0 g'"
proof -
  obtain a where a: "gp_audio g = Some a" "path_inv track_of track_add opus_next tr r0 (gp_stack g) a"
    using assms(2) by (auto simp: audio_path_def)
  obtain a' where a': "gp_audio g' = Some a'"
    "track_step lib OPUS_PAYLOAD_TYPE VP8_PAYLOAD_TYPE opus_next a (gp_stack g) a' (gp_stack g')"
    using gp_step_audio_track [OF assms(3) a(1)] by blast
  from audio.path_step [OF a'(2) assms(1) a(2)] a'(1) show ?thesis by (simp add: audio_path_def)
qed

lemma audio_path_run:
  "wire_total lib \<Longrightarrow> audio_path tr r0 g \<Longrightarrow> gp_run lib as g = Some g' \<Longrightarrow> audio_path tr r0 g'"
  using gp_run_invariant [of as "audio_path tr r0" lib g g'] audio_path_step by blast

text \<open>A source that has just been installed is at the start of its path.\<close>

lemma gp_install_stack: "gp_stack (gp_install lib now streams g) = stack_reset_media lib (gp_stack g)"
  by (simp add: gp_install_def gp_fire_upgrade_if_changed_def gp_submit_def Let_def split: option.split)

lemma audio_path_install:
  assumes "dt_ready (sk_direct (gp_stack g))" "st_audio streams = Some src"
  shows "audio_path (track_of (sk_direct (gp_stack (gp_install lib now streams g)))) (opus_new src)
      (gp_install lib now streams g)"
proof -
  have r: "dt_ready (reset_media_track_state lib dt) = dt_ready dt" for dt :: "('a, 'b) direct_transport"
    by (simp add: reset_media_track_state_def dt_ready_def own_dest_def)
  have "dt_ready (sk_direct (gp_stack (gp_install lib now streams g)))"
    using assms(1) by (simp add: gp_install_stack stack_reset_media_def r)
  moreover have "gp_audio (gp_install lib now streams g) = Some (gp_start_audio now src (st_video streams \<noteq> None) g)"
    using assms(2) by (simp add: gp_install_def Let_def)
  ultimately show ?thesis
    by (auto simp: audio_path_def gp_start_audio_def Let_def intro!: path_inv_new)
qed

lemma audio_path_packets:
  assumes "audio_path (w, seq, ts, ssrc, first) r0 g" "gp_audio g = Some b"
  shows "audio_sent (sk_direct (gp_stack g)) = w @ frame_packets seq ts ssrc first (played_samples b)"
proof -
  have "track_of (sk_direct (gp_stack g)) = fold track_add (played_samples b) (w, seq, ts, ssrc, first)"
    using assms by (simp add: audio_path_def path_inv_def)
  from arg_cong [OF this, of fst] show ?thesis by (simp add: fold_track_add track_of_def)
qed

section \<open>An Opus stream on the wire\<close>

text \<open>
  What a receiver should see of a list of Opus packets: one RTP packet each, numbered
  consecutively modulo \<open>2^16\<close>, with the 48 kHz clock counting their samples modulo \<open>2^32\<close>.
\<close>

definition opus_on_wire :: "u16 \<Rightarrow> u32 \<Rightarrow> u32 \<Rightarrow> bytes list \<Rightarrow> audio_packet list" where
  "opus_on_wire seq ts ssrc packets =
     map (\<lambda>k. (OPUS_PAYLOAD_TYPE, seq + of_nat k, ts + sum_list (map opus_total_samples (take k packets)),
               ssrc, k = 0, packets ! k)) [0..<length packets]"

lemma frame_packets_opus:
  assumes "[] \<notin> set packets"
  shows "frame_packets seq ts ssrc True (map opus_sample packets) = opus_on_wire seq ts ssrc packets"
proof -
  have "audio_ts_inc (sm_duration (opus_sample p)) = opus_total_samples p" if "p \<in> set packets" for p
  proof -
    have "p \<noteq> []" using that assms by metis
    then obtain toc body where "p = toc # body" by (cases p) simp_all
    then show ?thesis by (simp add: opus_sample_def audio_ts_inc_exact)
  qed
  then have "map (\<lambda>x. audio_ts_inc (sm_duration x)) (take k (map opus_sample packets)) =
      map opus_total_samples (take k packets)" for k
    by (auto simp: take_map dest: in_set_takeD)
  then show ?thesis
    by (simp add: frame_packets_def opus_on_wire_def opus_sample_def)
qed

lemma audio_path_wire:
  assumes "audio_path tr r0 g" "drain fuel opus_next r0 = (map opus_sample packets, Some e)"
    and "tr = (w, seq, ts, ssrc, True)" "[] \<notin> set packets"
  shows "\<exists>a n. gp_audio g = Some a \<and> n \<le> length packets
    \<and> map played_sample (sm_played a) = map opus_sample (take n packets) \<and> on_schedule (sm_played a)
    \<and> audio_sent (sk_direct (gp_stack g)) = w @ opus_on_wire seq ts ssrc (take n packets)"
proof -
  obtain a where a: "gp_audio g = Some a" "path_inv track_of track_add opus_next tr r0 (gp_stack g) a"
    using assms(1) by (auto simp: audio_path_def)
  define n where "n = length (sm_played a)"
  have p: "n \<le> length packets" "map played_sample (sm_played a) = map opus_sample (take n packets)"
    "track_of (sk_direct (gp_stack g)) = fold track_add (map opus_sample (take n packets)) tr" "on_schedule (sm_played a)"
    using path_prefix [OF a(2) assms(2)] by (simp_all add: n_def take_map)
  have "[] \<notin> set (take n packets)" using assms(4) by (meson in_set_takeD)
  then have "audio_sent (sk_direct (gp_stack g)) = w @ opus_on_wire seq ts ssrc (take n packets)"
    using arg_cong [OF p(3), of fst]
    by (simp add: assms(3) fold_track_add track_of_def frame_packets_opus [symmetric])
  with a(1) p show ?thesis by blast
qed

lemma audio_path_all:
  assumes "audio_path tr r0 g" "drain fuel opus_next r0 = (map opus_sample packets, Some e)"
    and "tr = (w, seq, ts, ssrc, True)" "[] \<notin> set packets"
    and "gp_audio g = Some a" "map played_sample (sm_played a) = map opus_sample packets"
  shows "audio_sent (sk_direct (gp_stack g)) = w @ opus_on_wire seq ts ssrc packets"
proof -
  obtain b n where b: "gp_audio g = Some b" "n \<le> length packets"
    "map played_sample (sm_played b) = map opus_sample (take n packets)"
    "audio_sent (sk_direct (gp_stack g)) = w @ opus_on_wire seq ts ssrc (take n packets)"
    using audio_path_wire [OF assms(1-4)] by blast
  have "n = length packets" using arg_cong [OF b(3), of length] arg_cong [OF assms(6), of length] b(1,2) assms(5)
    by simp
  with b(4) show ?thesis by simp
qed

text \<open>A whole stream: what its source gives, and the call it is installed in.\<close>

lemma ogg_source_drain:
  assumes "\<forall>pg \<in> set pgs. page_ok pg" "concat (map snd pgs) = concat (map lace (head # tags # packets))"
    and "starts_with head (ascii ''OpusHead'')" "starts_with tags (ascii ''OpusTags'')" "[] \<notin> set packets"
  shows "\<exists>n. drain (Suc n) opus_next (opus_new (concat (map page_bytes pgs))) = (map opus_sample packets, Some File)"
  using ogg_queue [OF assms(2-5)] assms(1)
    opus_drain_pages [of "opus_new (concat (map page_bytes pgs))" pgs "Suc (length (concat (map page_bytes pgs)))"]
  by (intro exI [of _ "length (concat (map page_bytes pgs))"]) (simp add: opus_new_def opus_remaining_def)

lemma source_installed:
  assumes "gp_set_source lib others now streams g0 = (Inr (), g)" "dt_ready (sk_direct (gp_stack g))"
  shows "\<exists>h. g = gp_install lib now streams h \<and> dt_ready (sk_direct (gp_stack h))
    \<and> track_of (sk_direct (gp_stack g)) = (audio_sent (sk_direct (gp_stack g)), dt_audio_seq (sk_direct (gp_stack g)),
        dt_audio_ts (sk_direct (gp_stack g)), dt_audio_ssrc (sk_direct (gp_stack g)), True)"
proof -
  obtain h where h: "g = gp_install lib now streams h"
    using assms(1) by (auto simp: gp_set_source_def Let_def split: if_splits)
  then show ?thesis
    using assms(2)
    by (intro exI [of _ h])
      (simp add: gp_install_stack stack_reset_media_def reset_media_track_state_def dt_ready_def own_dest_def track_of_def)
qed

section \<open>A concrete song\<close>

text \<open>One packet, sent in a call that had been playing something else.\<close>

definition one_page :: "page list" where
  "one_page = [(replicate 22 0, [ascii ''OpusHead'', ascii ''OpusTags'', [252, 1]])]"

definition one_packet_song :: "bytes streams" where
  "one_packet_song = \<lparr>st_audio = Some (concat (map page_bytes one_page)), st_video = None, st_close = None\<rparr>"

definition play_one :: "gp_action list" where
  "play_one = [Audio_task (Read_step False), Audio_task (Read_step False), Audio_task (Read_step False),
     Audio_pace echo_clock, Audio_pace echo_clock, Audio_pace echo_clock]"

lemma one_page_facts:
  "\<forall>pg \<in> set one_page. page_ok pg"
  "concat (map snd one_page) = concat (map lace (ascii ''OpusHead'' # ascii ''OpusTags'' # [[252, 1]]))"
  by (simp_all add: one_page_def page_ok_def lace.simps)

lemma one_page_first: "\<exists>r. opus_next (opus_new (concat (map page_bytes one_page))) = (Inr (opus_sample [252, 1]), r)"
proof -
  obtain n where "drain (Suc n) opus_next (opus_new (concat (map page_bytes one_page))) = ([opus_sample [252, 1]], Some File)"
    using ogg_source_drain [OF one_page_facts] by (auto simp: starts_with_def)
  then show ?thesis by (auto split: prod.splits sum.splits)
qed

lemma gp_run_audio_task:
  "gp_audio g = Some s \<Longrightarrow> own_task c \<Longrightarrow> sm_step opus_next c s = Some s' \<Longrightarrow>
     gp_run lib (Audio_task c # as) g = gp_run lib as (gp_set_audio s s' g)"
  by simp

lemma play_one_runs:
  assumes "gp_audio g = Some (sm_set_on_end f (sm_new r0 False t))" "opus_next r0 = (Inr x, r)"
    and "wire_total lib" "dt_ready (sk_direct (gp_stack g))"
  shows "\<exists>g2 a. gp_run lib play_one g = Some g2 \<and> gp_audio g2 = Some a \<and> length (sm_played a) = 1"
proof -
  have own: "own_task (Read_step False)" by simp
  obtain s1 s2 s3 s4 s5 where
    1: "sm_step opus_next (Read_step False) (sm_set_on_end f (sm_new r0 False t)) = Some s1"
      "sm_step opus_next (Read_step False) s1 = Some s2" "sm_step opus_next (Read_step False) s2 = Some s3"
    and 2: "\<And>st. pace_with lib echo_clock OPUS_PAYLOAD_TYPE s3 st = (Some s4, st)"
      "\<And>st. pace_with lib echo_clock OPUS_PAYLOAD_TYPE s4 st = (Some s5, st)"
    and 3: "sm_pacer s5 = Pc_send x" "\<not> sm_muted s5" "sm_played s5 = []"
    by (rule one_frame_steps [where nx = opus_next and f = f and t = t, OF assms(2)]) blast
  let ?g3 = "gp_set_audio s2 s3 (gp_set_audio s1 s2 (gp_set_audio (sm_set_on_end f (sm_new r0 False t)) s1 g))"
  let ?g5 = "gp_set_audio s4 s5 (gp_set_audio s3 s4 ?g3)"
  obtain dt' where "pace_with lib echo_clock OPUS_PAYLOAD_TYPE s5 (gp_stack ?g5) =
      (Some (finish_slot True x s5), gp_stack ?g5\<lparr>sk_direct := dt'\<rparr>)"
    using audio.pace_sends [OF assms(3) _ 3(1,2), of "gp_stack ?g5" echo_clock] assms(4) by auto
  then have "gp_run lib [Audio_pace echo_clock] ?g5 =
      Some (gp_set_audio s5 (finish_slot True x s5) (?g5\<lparr>gp_stack := gp_stack ?g5\<lparr>sk_direct := dt'\<rparr>\<rparr>))"
    by simp
  moreover have "gp_run lib play_one g = gp_run lib [Audio_pace echo_clock] ?g5"
    unfolding play_one_def gp_run_audio_task [OF assms(1) own 1(1)]
      gp_run_audio_task [OF gp_set_streamers(1) own 1(2)]
      gp_run_audio_task [OF gp_set_streamers(1) own 1(3)]
      gp_run_audio_pace [OF gp_set_streamers(1) 2(1)] gp_run_audio_pace [OF gp_set_streamers(1) 2(2)] by simp
  ultimately show ?thesis using 3(3) by (simp add: finish_slot_def Let_def)
qed

lemma example_stack: "gp_stack example_call = set_on_state_change () (stack_from_direct echo_transport)"
  by (simp add: example_call_def)

lemma example_gate:
  "gp_set_source echo_lib id 0 streams example_call = (Inr (), gp_install echo_lib 0 streams example_call)"
  "dt_ready (sk_direct (gp_stack (gp_install echo_lib 0 streams example_call)))"
  by (simp_all add: gp_set_source_def gp_not_ready_def example_call_def gp_install_stack example_stack
      stack_reset_media_def reset_media_track_state_def set_on_state_change_def stack_from_direct_def
      echo_transport_def dt_new_with_ssrc_def dt_ready_def own_dest_def)

lemma example_installed:
  "gp_set_source echo_lib id 0 one_packet_song example_call = (Inr (), gp_install echo_lib 0 one_packet_song example_call)"
  "dt_ready (sk_direct (gp_stack (gp_install echo_lib 0 one_packet_song example_call)))"
  "audio_sent (sk_direct (gp_stack (gp_install echo_lib 0 one_packet_song example_call))) = []"
  "dt_audio_seq (sk_direct (gp_stack (gp_install echo_lib 0 one_packet_song example_call))) = 1000"
  "dt_audio_ts (sk_direct (gp_stack (gp_install echo_lib 0 one_packet_song example_call))) = 0"
  "dt_audio_ssrc (sk_direct (gp_stack (gp_install echo_lib 0 one_packet_song example_call))) = 7"
  by (simp_all add: example_gate gp_install_stack example_stack stack_reset_media_def reset_media_track_state_def
      set_on_state_change_def stack_from_direct_def echo_transport_def dt_new_with_ssrc_def audio_sent_def echo_draw_def
      dt_ready_def own_dest_def)

end
