(* ===== verification/Media_Live.thy ===== *)
theory Media_Live
  imports Media_Path Streamer_Live
begin

text \<open>
  That a song gets to its end in a call: the progress of \<open>Streamer_Live\<close> carried over to the
  steps of a group call whose transport can send, with what the call reports.
\<close>

section \<open>The invariant in a call\<close>

text \<open>
  The streamer of a call that plays audio only: everything of the source is accounted for, it
  is paused only while the call is paused or muted, and its completion has been reported.
\<close>

definition call_complete ::
  "sample list \<Rightarrow> error \<Rightarrow> gp_event list \<Rightarrow> ('s, 'v) group_call \<Rightarrow> bool" where
  "call_complete xs e evs g \<longleftrightarrow>
     dt_ready (sk_direct (gp_stack g)) \<and> gp_dispatcher g = None
     \<and> ge_on_stream_end (gp_events g) \<and> gp_video g = None
     \<and> (\<exists>a ts. gp_audio g = Some a \<and> complete opus_next xs e False (Some audio_tag) ts a
          \<and> (sm_paused a \<longrightarrow> gp_muted g \<or> gp_paused g) \<and> \<not> sm_muted a
          \<and> gp_calls g = evs @ map end_event (sm_calls a))"

lemma gp_report_direct:
  "gp_dispatcher g = None \<Longrightarrow> ge_on_stream_end (gp_events g) \<Longrightarrow>
     gp_report calls g = g\<lparr>gp_calls := gp_calls g @ map end_event calls\<rparr>"
proof -
  assume d: "gp_dispatcher g = None" "ge_on_stream_end (gp_events g)"
  have "fold (\<lambda>c. gp_submit [end_event c]) calls (g\<lparr>gp_calls := cs\<rparr>) = g\<lparr>gp_calls := cs @ map end_event calls\<rparr>" for cs
    using d by (induction calls arbitrary: cs) (simp_all add: gp_submit_def)
  from this [of "gp_calls g"] d show ?thesis by (simp add: gp_report_def)
qed

lemma complete_calls:
  assumes "complete nx xs e b f ts s" "complete nx xs e b f ts' s'" "sm_pacer s = Pc_done \<longrightarrow> sm_pacer s' = Pc_done"
  shows "sm_calls s' = sm_calls s @ drop (length (sm_calls s)) (sm_calls s')"
proof (cases "sm_pacer s = Pc_done")
  case True
  with assms show ?thesis by (simp add: complete_def pacer_ok_def)
next
  case False
  with assms(1) show ?thesis by (simp add: complete_def pacer_ok_def)
qed

lemma done_stays: "sm_pacer s = Pc_done \<Longrightarrow> sm_step nx a s = Some s' \<Longrightarrow> sm_pacer s' = Pc_done"
  by (cases a; cases "sm_reader_pc s")
    (auto simp: sm_task_defs sm_call_defs split: if_splits prod.splits option.splits)

text \<open>A smooth step of the streamer carries the invariant to the call that makes it.\<close>

lemma call_complete_streamer:
  assumes i: "call_complete xs e evs g" and a: "gp_audio g = Some a"
    and st: "smooth act" "sm_step opus_next act a = Some a'" "sm_paused a' = sm_paused a" "sm_muted a' = sm_muted a"
    and s: "dt_ready (sk_direct st')"
  shows "call_complete xs e evs (gp_set_audio a a' (g\<lparr>gp_stack := st'\<rparr>))"
proof -
  obtain ts where c: "complete opus_next xs e False (Some audio_tag) ts a" "sm_paused a \<longrightarrow> gp_muted g \<or> gp_paused g" "\<not> sm_muted a"
    "gp_calls g = evs @ map end_event (sm_calls a)"
    using i a by (auto simp: call_complete_def)
  obtain ts' where c': "complete opus_next xs e False (Some audio_tag) ts' a'"
    using complete_step [OF c(1) st(1,2)] by blast
  have calls: "sm_calls a' = sm_calls a @ drop (length (sm_calls a)) (sm_calls a')"
    using complete_calls [OF c(1) c'] done_stays [OF _ st(2)] by blast
  have "gp_set_audio a a' (g\<lparr>gp_stack := st'\<rparr>) = g\<lparr>gp_stack := st', gp_audio := Some a',
      gp_calls := evs @ map end_event (sm_calls a')\<rparr>"
    using i c(4) by (subst calls) (simp add: gp_set_audio_def gp_report_direct call_complete_def)
  with i c(2,3) c' st(3,4) s show ?thesis by (auto simp: call_complete_def)
qed

lemma own_task_keeps_pause:
  "own_task a \<Longrightarrow> sm_step nx a s = Some t \<Longrightarrow> sm_paused t = sm_paused s \<and> sm_muted t = sm_muted s"
  by (cases a; cases "sm_reader_pc s")
    (auto simp: sm_task_defs split: if_splits prod.splits option.splits list.splits)

lemma pacer_keeps_pause:
  "pacer_step r s = Some t \<Longrightarrow> sm_paused t = sm_paused s \<and> sm_muted t = sm_muted s"
  by (cases "sm_pacer s")
    (auto simp: pacer_step_def pacer_loop_def start_slot_def finish_slot_def recv_def Let_def
      split: if_splits option.splits list.splits sum.splits)

lemma call_complete_pace:
  assumes lib: "wire_total lib" and i: "call_complete xs e evs g" and a: "gp_audio g = Some a"
    and p: "pacer_step (Inr ()) a = Some a'"
  shows "\<exists>g'. gp_step lib (Audio_pace ck) g = Some g' \<and> gp_audio g' = Some a' \<and> call_complete xs e evs g'"
proof -
  have m: "\<not> sm_muted a" "dt_ready (sk_direct (gp_stack g))" using i a by (auto simp: call_complete_def)
  obtain st' where st': "pace_with lib ck OPUS_PAYLOAD_TYPE a (gp_stack g) = (Some a', st')" "dt_ready (sk_direct st')"
    using audio.pace_ready [OF lib m(2,1), of ck] p by auto
  have "call_complete xs e evs (gp_set_audio a a' (g\<lparr>gp_stack := st'\<rparr>))"
    using call_complete_streamer [OF i a, of "Pace_step (Inr ())" a' st'] pacer_keeps_pause [OF p] p st'(2) by simp
  with a st'(1) show ?thesis by simp
qed

text \<open>Every step of the call that is no stalled read.\<close>

lemma call_complete_step:
  assumes lib: "wire_total lib" and i: "call_complete xs e evs g" and st: "gp_step lib b g = Some g'"
    and b: "b \<noteq> Audio_task (Read_step True)"
  shows "call_complete xs e evs g'"
proof -
  obtain a ts where a: "gp_audio g = Some a" "complete opus_next xs e False (Some audio_tag) ts a"
    "sm_paused a \<longrightarrow> gp_muted g \<or> gp_paused g" "\<not> sm_muted a" "gp_calls g = evs @ map end_event (sm_calls a)"
    using i by (auto simp: call_complete_def)
  show ?thesis
  proof (cases b)
    case (Audio_task c)
    then obtain a' where a': "own_task c" "sm_step opus_next c a = Some a'" "g' = gp_set_audio a a' g"
      using st a by (auto split: if_splits)
    then have "smooth c" using b Audio_task by (cases c) auto
    with a' call_complete_streamer [OF i a(1), of c a' "gp_stack g"] own_task_keeps_pause [OF a'(1,2)] i
    show ?thesis by (simp add: call_complete_def)
  next
    case (Audio_pace ck)
    have m: "dt_ready (sk_direct (gp_stack g))" using i by (simp add: call_complete_def)
    obtain a' where "pacer_step (Inr ()) a = Some a'"
      using audio.pace_ready [OF lib m a(4), of ck] st a(1) Audio_pace by (cases "pacer_step (Inr ()) a") auto
    with call_complete_pace [OF lib i a(1), of a' ck] st Audio_pace show ?thesis by auto
  next
    case (Call_op op)
    have g: "g' = snd (gp_perform op g)" "gp_video g = None"
      using st Call_op i by (auto simp: call_complete_def)
    obtain tp where "complete opus_next xs e False (Some audio_tag) tp (sm_pause a)"
      using complete_step [OF a(2), of Pause] by auto
    moreover obtain tr where "complete opus_next xs e False (Some audio_tag) tr (sm_resume a)"
      using complete_step [OF a(2), of Resume] by auto
    moreover have "call_complete xs e evs g'" if "gp_closed g"
      using i g(1) gp_op_unchanged(1) [OF that] by simp
    ultimately show ?thesis
      using i a g
      by (cases "gp_closed g"; simp?; cases op; cases "gp_paused g"; cases "gp_muted g")
        (auto simp: gp_op_unchanged gp_op_cases call_complete_def sm_pause_def sm_resume_def)
  qed (use st i in \<open>auto simp: call_complete_def split: option.splits\<close>)
qed

section \<open>The song completes\<close>

text \<open>The tasks of the call, without the client.\<close>

fun call_task :: "gp_action \<Rightarrow> bool" where
  "call_task (Call_op op) = False"
| "call_task (Audio_task a) = task_action a"
| "call_task (Video_task a) = task_action a"
| "call_task _ = True"

text \<open>
  What a streamer of a call needs so that it can do in the call what it can do of its own: its
  steps are steps of the call, its pacing task sends, and both keep an invariant.
\<close>

locale call_track =
  fixes good :: "('s, 'v, 'd) wire_lib \<Rightarrow> bool"
    and mine :: "('s, 'v) group_call \<Rightarrow> 'r streamer option"
    and nx :: "'r \<Rightarrow> (error + sample) \<times> 'r"
    and task :: "sm_action \<Rightarrow> gp_action"
    and pace :: gp_action
    and inv :: "('s, 'v) group_call \<Rightarrow> bool"
  assumes tasks: "call_task (task a) = task_action a" "call_task pace"
    and task_step: "mine g = Some s \<Longrightarrow> own_task a \<Longrightarrow> sm_step nx a s = Some s' \<Longrightarrow>
      \<exists>g'. gp_step lib (task a) g = Some g' \<and> mine g' = Some s'"
    and pace_step: "good lib \<Longrightarrow> inv g \<Longrightarrow> mine g = Some s \<Longrightarrow> pacer_step (Inr ()) s = Some s' \<Longrightarrow>
      \<exists>g'. gp_step lib pace g = Some g' \<and> mine g' = Some s'"
    and kept: "good lib \<Longrightarrow> inv g \<Longrightarrow> b \<in> range task \<union> {pace} \<Longrightarrow> call_task b \<Longrightarrow>
      gp_step lib b g = Some g' \<Longrightarrow> inv g'"
begin

lemma step_in_call:
  assumes "good lib" "inv g" "mine g = Some s" "task_action a" "sm_step nx a s = Some u"
  shows "\<exists>c g'. call_task c \<and> gp_step lib c g = Some g' \<and> mine g' = Some u \<and> inv g'"
proof (cases "\<exists>r. a = Pace_step r")
  case True
  with assms(4,5) have "pacer_step (Inr ()) s = Some u" by auto
  from pace_step [OF assms(1-3) this] kept [OF assms(1,2) _ tasks(2)] tasks(2) show ?thesis by blast
next
  case False
  with assms(4) have own: "own_task a" by (cases a) auto
  then obtain g' where "gp_step lib (task a) g = Some g'" "mine g' = Some u"
    using task_step [OF assms(3) _ assms(5)] by blast
  with kept [OF assms(1,2), of "task a"] tasks(1) assms(4) show ?thesis by blast
qed

lemma run_in_call:
  assumes "good lib" "inv g" "mine g = Some s" "list_all task_action bs" "sm_run nx bs s = Some t"
  shows "\<exists>cs g'. list_all call_task cs \<and> gp_run lib cs g = Some g' \<and> mine g' = Some t \<and> inv g'"
  using assms(2-5)
proof (induction bs arbitrary: g s)
  case Nil
  then show ?case by (intro exI [of _ "[]"]) auto
next
  case (Cons b bs)
  then obtain u where u: "sm_step nx b s = Some u" "sm_run nx bs u = Some t" by (auto split: option.splits)
  obtain c g1 where c: "call_task c" "gp_step lib c g = Some g1" "mine g1 = Some u" "inv g1"
    using step_in_call [OF assms(1) Cons.prems(1,2) _ u(1)] Cons.prems(3) by auto
  obtain cs g' where "list_all call_task cs" "gp_run lib cs g1 = Some g'" "mine g' = Some t" "inv g'"
    using Cons.IH [OF c(4,3) _ u(2)] Cons.prems(3) by auto
  with c(1,2) show ?case by (intro exI [of _ "c # cs"]) auto
qed

end

interpretation song: call_track wire_total gp_audio opus_next Audio_task "Audio_pace echo_clock"
  "call_complete xs e evs" for xs e evs
proof
  show "gp_audio g = Some a \<Longrightarrow> own_task c \<Longrightarrow> sm_step opus_next c a = Some a' \<Longrightarrow>
      \<exists>g'. gp_step lib (Audio_task c) g = Some g' \<and> gp_audio g' = Some a'" for lib :: "('a, 'b, 'c) wire_lib" and g a c a'
    by simp
  show "call_complete xs e evs g'"
    if "wire_total lib" "call_complete xs e evs g" "b \<in> range Audio_task \<union> {Audio_pace echo_clock}" "call_task b"
      "gp_step lib b g = Some g'" for lib :: "('a, 'b, 'c) wire_lib" and b g g'
    using call_complete_step [OF that(1,2,5)] that(4) by (cases "b = Audio_task (Read_step True)") simp_all
qed (simp, simp, use call_complete_pace in blast)

lemma call_complete_run:
  "wire_total lib \<Longrightarrow> call_complete xs e evs g \<Longrightarrow> Audio_task (Read_step True) \<notin> set as \<Longrightarrow>
     gp_run lib as g = Some g' \<Longrightarrow> call_complete xs e evs g'"
  using gp_run_invariant [of as "call_complete xs e evs" lib g g'] call_complete_step by metis

text \<open>After \<open>resume\<close> and \<open>unmute\<close> the call is neither paused nor muted, and so its streamer runs.\<close>

lemma call_complete_unpaused:
  assumes "wire_total lib" "call_complete xs e evs g" "\<not> gp_closed g"
  shows "\<exists>g'. gp_run lib [Call_op Op_resume, Call_op Op_unmute] g = Some g' \<and> call_complete xs e evs g'
    \<and> \<not> gp_paused g' \<and> \<not> gp_muted g'"
proof -
  let ?g1 = "snd (gp_resume g)" and ?g' = "snd (gp_unmute (snd (gp_resume g)))"
  have r: "gp_run lib [Call_op Op_resume, Call_op Op_unmute] g = Some ?g'" by simp
  then have c: "call_complete xs e evs ?g'"
    by (rule call_complete_run [OF assms(1,2), rotated]) simp
  have "\<not> gp_paused ?g' \<and> \<not> gp_muted ?g'"
    by (cases "gp_paused g"; cases "gp_muted g") (use assms(3) in \<open>simp_all add: gp_op_unchanged gp_op_cases\<close>)
  with r c show ?thesis by blast
qed

lemma call_runs_to_end:
  assumes "wire_total lib" "call_complete xs e evs g" "\<not> gp_paused g" "\<not> gp_muted g"
  shows "\<exists>cs g' a. list_all call_task cs \<and> gp_run lib cs g = Some g' \<and> gp_audio g' = Some a
    \<and> map played_sample (sm_played a) = xs \<and> sm_pacer a = Pc_done \<and> gp_calls g' = evs @ [Stream_end Audio Microphone (Some e)]"
proof -
  obtain a ts where a: "gp_audio g = Some a" "complete opus_next xs e False (Some audio_tag) ts a" "\<not> sm_paused a"
    using assms(2-4) by (auto simp: call_complete_def)
  obtain bs a' ts' where b: "list_all task_action bs" "sm_run opus_next bs a = Some a'"
    "complete opus_next xs e False (Some audio_tag) ts' a'" "sm_pacer a' = Pc_done"
    using runs_to_end [OF a(2,3)] by blast
  obtain cs g' where c: "list_all call_task cs" "gp_run lib cs g = Some g'" "gp_audio g' = Some a'"
    "call_complete xs e evs g'"
    using song.run_in_call [OF assms(1,2) a(1) b(1,2)] by blast
  have "gp_calls g' = evs @ map end_event (sm_calls a')" using c(3,4) by (auto simp: call_complete_def)
  moreover have "sm_calls a' = [(audio_tag, Some e)]" "map played_sample (sm_played a') = xs"
    using b(3,4) by (auto simp: complete_def pacer_ok_def played_samples_def)
  ultimately show ?thesis using b(4) c(1-3)
    by (intro exI [of _ cs] exI [of _ g'] exI [of _ a']) (simp add: end_event_def)
qed

text \<open>A closed call is left alone by the client, and no step of the tasks opens or closes one.\<close>

lemma gp_step_closed:
  assumes "gp_step lib b g = Some g'"
  shows "gp_closed g' = gp_closed g
    \<and> (gp_closed g \<longrightarrow> gp_paused g' = gp_paused g \<and> gp_muted g' = gp_muted g)"
proof (cases b)
  case (Call_op op)
  show ?thesis
  proof (cases "gp_closed g")
    case True
    with Call_op assms gp_op_unchanged(1) [OF True] show ?thesis by simp
  next
    case False
    with Call_op assms show ?thesis
      by (cases op; cases "gp_paused g"; cases "gp_muted g") (auto simp: gp_op_unchanged gp_op_cases)
  qed
qed (use assms in \<open>auto simp: gp_set_video_def split: option.splits prod.splits if_splits\<close>)

lemma gp_run_closed:
  assumes "gp_run lib as g = Some g'"
  shows "gp_closed g' = gp_closed g
    \<and> (gp_closed g \<longrightarrow> gp_paused g' = gp_paused g \<and> gp_muted g' = gp_muted g)"
  by (rule gp_run_invariant [OF _ _ assms, of "\<lambda>h. gp_closed h = gp_closed g
        \<and> (gp_closed g \<longrightarrow> gp_paused h = gp_paused g \<and> gp_muted h = gp_muted g)"])
    (use gp_step_closed in auto)

text \<open>With what has been sent: a song that is neither paused nor muted gets to its end.\<close>

lemma song_to_end:
  assumes "wire_total lib" "call_complete (map opus_sample packets) e evs g" "\<not> gp_paused g" "\<not> gp_muted g"
    and "audio_path tr r0 g" "drain fuel opus_next r0 = (map opus_sample packets, Some e)"
    and "tr = (w, seq, ts, ssrc, True)" "[] \<notin> set packets"
  shows "\<exists>cs g'. list_all call_task cs \<and> gp_run lib cs g = Some g'
    \<and> audio_sent (sk_direct (gp_stack g')) = w @ opus_on_wire seq ts ssrc packets
    \<and> gp_calls g' = evs @ [Stream_end Audio Microphone (Some e)]"
proof -
  obtain cs g' a where g': "list_all call_task cs" "gp_run lib cs g = Some g'" "gp_audio g' = Some a"
    "map played_sample (sm_played a) = map opus_sample packets"
    "gp_calls g' = evs @ [Stream_end Audio Microphone (Some e)]"
    using call_runs_to_end [OF assms(1-4)] by blast
  have "audio_path tr r0 g'" by (rule audio_path_run [OF assms(1,5) g'(2)])
  from audio_path_all [OF this assms(6-8) g'(3,4)] g'(1,2,5) show ?thesis by blast
qed

lemma call_complete_install:
  assumes "dt_ready (sk_direct (gp_stack g))" "gp_dispatcher g = None" "ge_on_stream_end (gp_events g)"
    and "st_audio streams = Some src" "st_video streams = None" "drain n opus_next (opus_new src) = (xs, Some e)"
  shows "call_complete xs e (gp_calls (gp_install lib now streams g)) (gp_install lib now streams g)"
proof -
  let ?a = "sm_set_on_end audio_tag (sm_new (opus_new src) False now)"
  obtain ts where c: "complete opus_next xs e False (Some audio_tag) ts ?a" using complete_new(2) [OF assms(6)] by blast
  obtain tp where p: "complete opus_next xs e False (Some audio_tag) tp (sm_pause ?a)"
    using complete_step [OF c, of Pause] by auto
  have e: "gp_start_audio now src False g = (if gp_muted g \<or> gp_paused g then sm_pause ?a else ?a)"
    by (simp add: gp_start_audio_def sm_set_on_end_def sm_pause_def Let_def)
  have a: "\<exists>ts. complete opus_next xs e False (Some audio_tag) ts (gp_start_audio now src False g)"
    "sm_paused (gp_start_audio now src False g) \<longrightarrow> gp_muted g \<or> gp_paused g"
    "\<not> sm_muted (gp_start_audio now src False g)" "sm_calls (gp_start_audio now src False g) = []"
    unfolding e using c p by (auto simp: sm_set_on_end_def sm_new_def sm_pause_def)
  have g: "gp_audio (gp_install lib now streams g) = Some (gp_start_audio now src False g)"
    "gp_video (gp_install lib now streams g) = None"
    "gp_muted (gp_install lib now streams g) = gp_muted g" "gp_paused (gp_install lib now streams g) = gp_paused g"
    "gp_closed (gp_install lib now streams g) = gp_closed g"
    using assms(4,5) by (simp_all add: gp_install_def Let_def)
  have d: "gp_dispatcher (gp_install lib now streams g) = None" "gp_events (gp_install lib now streams g) = gp_events g"
    using assms(2) by (simp_all add: gp_install_def gp_fire_upgrade_if_changed_def gp_submit_def Let_def)
  have "dt_ready (sk_direct (gp_stack (gp_install lib now streams g)))"
    using assms(1) by (simp add: gp_install_stack stack_reset_media_def reset_media_track_state_def dt_ready_def own_dest_def)
  with a g d assms(3) show ?thesis by (auto simp: call_complete_def)
qed

end
