(* ===== verification/Video_Path.thy ===== *)
theory Video_Path
  imports Media_Path
begin

text \<open>
  The way of a video frame through a group call: what \<open>Media_Path\<close> does for the audio.  The
  VP8 payloader is a library with a state of its own, so the packets are those of a reference
  packetizer that runs it over the frames one after the other.
\<close>

section \<open>The video track of a transport\<close>

type_synonym video_packet = "u8 \<times> u16 \<times> u32 \<times> u32 \<times> bool \<times> bytes"

definition video_sent :: "('s, 'v) direct_transport \<Rightarrow> video_packet list" where
  "video_sent dt = filter (\<lambda>p. fst p = VP8_PAYLOAD_TYPE) (map audio_view (rtp_sent (dt_wire dt)))"

text \<open>What has been sent, the next sequence number and timestamp, the source, the payloader.\<close>

type_synonym 'v video_track = "video_packet list \<times> u16 \<times> u32 \<times> u32 \<times> 'v"

definition video_track_of :: "('s, 'v) direct_transport \<Rightarrow> 'v video_track" where
  "video_track_of dt = (video_sent dt, dt_video_seq dt, dt_video_ts dt, dt_video_ssrc dt, dt_payloader dt)"

text \<open>A library that never fails, its payloader included.\<close>

definition video_total :: "('s, 'v, 'd) wire_lib \<Rightarrow> bool" where
  "video_total lib \<longleftrightarrow>
     wire_total lib \<and> (\<forall>v p. \<exists>cs v'. wl_vp8_payload lib v MAX_VP8_PAYLOAD p = (Inr cs, v'))"

text \<open>The packets of one frame: one per chunk, all with the frame's timestamp, the last one marked.\<close>

definition chunk_packets :: "u16 \<Rightarrow> u32 \<Rightarrow> u32 \<Rightarrow> bytes list \<Rightarrow> video_packet list" where
  "chunk_packets seq ts ssrc cs =
     map (\<lambda>k. (VP8_PAYLOAD_TYPE, seq + of_nat k, ts, ssrc, Suc k = length cs, cs ! k)) [0..<length cs]"

fun video_add ::
  "('s, 'v, 'd) wire_lib \<Rightarrow> sample \<Rightarrow> 'v video_track \<Rightarrow> 'v video_track" where
  "video_add lib x (w, seq, ts, ssrc, v) =
     (case wl_vp8_payload lib v MAX_VP8_PAYLOAD (sm_data x) of
        (Inl e, v') \<Rightarrow> (w, seq, ts + video_ts_inc (sm_duration x), ssrc, v')
      | (Inr cs, v') \<Rightarrow>
          (w @ chunk_packets seq ts ssrc cs, seq + of_nat (length cs),
           ts + video_ts_inc (sm_duration x), ssrc, v'))"

text \<open>
  What a receiver should see of a list of VP8 frames of one duration: the payloader run over
  them one after the other.
\<close>

fun vp8_on_wire ::
  "('s, 'v, 'd) wire_lib \<Rightarrow> 'v \<Rightarrow> u16 \<Rightarrow> u32 \<Rightarrow> u32 \<Rightarrow> duration_ns \<Rightarrow> bytes list \<Rightarrow> video_packet list" where
  "vp8_on_wire lib v seq ts ssrc d [] = []"
| "vp8_on_wire lib v seq ts ssrc d (f # fs) =
     (case wl_vp8_payload lib v MAX_VP8_PAYLOAD f of
        (Inl e, v') \<Rightarrow> vp8_on_wire lib v' seq (ts + video_ts_inc d) ssrc d fs
      | (Inr cs, v') \<Rightarrow>
          chunk_packets seq ts ssrc cs @
            vp8_on_wire lib v' (seq + of_nat (length cs)) (ts + video_ts_inc d) ssrc d fs)"

lemma fold_video_add:
  "fst (fold (video_add lib) (map (\<lambda>f. \<lparr>sm_data = f, sm_duration = d\<rparr>) fs) (w, seq, ts, ssrc, v)) =
     w @ vp8_on_wire lib v seq ts ssrc d fs"
  by (induction fs arbitrary: w seq ts v) (simp_all split: prod.split sum.split)

lemma video_view: "audio_view (video_header t ts ssrc seq m, p) = (VP8_PAYLOAD_TYPE, seq, ts, ssrc, m, p)"
  by (simp add: audio_view_def video_header_def)

lemma video_send_track:
  assumes "video_total lib" "dt_ready dt"
  shows "\<exists>dt'. send_rtp_bytes lib ck VP8_PAYLOAD_TYPE (sm_data x) (sm_duration x) dt = (Inr (), dt')
    \<and> dt_ready dt' \<and> video_track_of dt' = video_add lib x (video_track_of dt)"
proof -
  obtain cs v where c: "wl_vp8_payload lib (dt_payloader dt) MAX_VP8_PAYLOAD (sm_data x) = (Inr cs, v)"
    using assms(1) unfolding video_total_def by blast
  then have "wl_vp8_payload lib (dt_payloader dt) 1180 (sm_data x) = (Inr cs, v)" by (simp add: MAX_VP8_PAYLOAD_def)
  moreover have "VP8_PAYLOAD_TYPE \<noteq> OPUS_PAYLOAD_TYPE" by (simp add: media_consts)
  moreover have "wire_total lib" using assms(1) by (simp add: video_total_def)
  ultimately obtain dt' where dt': "send_rtp_bytes lib ck VP8_PAYLOAD_TYPE (sm_data x) (sm_duration x) dt = (Inr (), dt')"
    "rtp_sent (dt_wire dt') = rtp_sent (dt_wire dt) @
        map (\<lambda>k. (video_header (abs_time_bytes (abs_send_time (ntp_time (ck_send ck)))) (dt_video_ts dt)
                    (dt_video_ssrc dt) (dt_video_seq dt + of_nat k) (Suc k = length cs), cs ! k)) [0..<length cs]"
    "dt_video_seq dt' = dt_video_seq dt + of_nat (length cs)"
    "dt_video_ts dt' = dt_video_ts dt + video_ts_inc (sm_duration x)"
    "dt_ready dt'" "dt_payloader dt' = v" "dt_video_ssrc dt' = dt_video_ssrc dt"
    using send_video_ok [OF _ assms(2), of lib "sm_data x" cs v VP8_PAYLOAD_TYPE ck "sm_duration x"] by blast
  have "video_sent dt' = video_sent dt @ chunk_packets (dt_video_seq dt) (dt_video_ts dt) (dt_video_ssrc dt) cs"
    by (simp add: video_sent_def dt'(2) video_view comp_def chunk_packets_def)
  with dt' c show ?thesis by (simp add: video_track_of_def)
qed

text \<open>Audio in between.\<close>

lemma prepare_video_track:
  "video_track_of (prepare lib ck dt) = video_track_of dt"
proof -
  obtain c w e where "prepare lib ck dt = dt\<lparr>dt_epoch := e, dt_srtp := c, dt_wire := w\<rparr>"
    "rtp_sent w = rtp_sent (dt_wire dt)"
    using prepare_frame by blast
  then show ?thesis by (simp add: video_track_of_def video_sent_def)
qed

lemma send_audio_video_track:
  assumes "send_audio lib t OPUS_PAYLOAD_TYPE p d dt = (r, dt')" "dt_ready dt"
  shows "dt_ready dt' \<and> video_track_of dt' = video_track_of dt"
proof -
  let ?h = "audio_header t OPUS_PAYLOAD_TYPE dt"
  obtain ctx sock addr where dst: "dt_srtp dt = Some ctx" "dt_socket dt = Some sock" "dt_remote dt = Some addr"
    using assms(2) by (auto simp: dt_ready_def own_dest_def split: option.splits)
  have pt: "rh_payload_type ?h \<noteq> VP8_PAYLOAD_TYPE" by (simp add: audio_header_def media_consts)
  show ?thesis
  proof (cases "wl_marshal lib ?h p")
    case (Inl e)
    with assms dst show ?thesis
      by (auto simp: send_audio_def Let_def video_track_of_def video_sent_def dt_ready_def own_dest_def)
  next
    case (Inr raw)
    obtain x ctx' where x: "wl_encrypt_rtp lib ctx raw ?h = (x, ctx')" by fastforce
    show ?thesis
      using assms Inr x dst pt
      by (cases x)
        (auto simp: send_audio_def Let_def video_track_of_def video_sent_def dt_ready_def own_dest_def dt_put_def
          audio_view_def)
  qed
qed

lemma audio_send_video_track:
  assumes "dt_ready dt" "send_rtp_bytes lib ck OPUS_PAYLOAD_TYPE p d dt = (r, dt')"
  shows "dt_ready dt' \<and> video_track_of dt' = video_track_of dt"
proof -
  have "\<not> dt_closed dt" using assms(1) by (simp add: dt_ready_def)
  then have "send_audio lib (abs_time_bytes (abs_send_time (ntp_time (ck_send ck)))) OPUS_PAYLOAD_TYPE p d (prepare lib ck dt) = (r, dt')"
    using assms(2) by (simp add: send_rtp_bytes_prepare)
  with send_audio_video_track prepare_track [of lib ck dt] prepare_video_track [of lib ck dt] assms(1) show ?thesis
    by metis
qed

section \<open>The path of the video\<close>

interpretation video: media_track video_total VP8_PAYLOAD_TYPE OPUS_PAYLOAD_TYPE video_track_of video_add
  by unfold_locales (rule video_send_track, assumption+, rule audio_send_video_track)

definition video_path ::
  "('s, 'v, 'd) wire_lib \<Rightarrow> 'v video_track \<Rightarrow> vp8_reader \<Rightarrow> ('s, 'v) group_call \<Rightarrow> bool" where
  "video_path lib tr r0 g \<longleftrightarrow>
     (\<exists>s. gp_video g = Some s \<and> path_inv video_track_of (video_add lib) vp8_next tr r0 (gp_stack g) s)"

lemma video_path_step:
  assumes "video_total lib" "video_path lib tr r0 g" "gp_step lib b g = Some g'"
  shows "video_path lib tr r0 g'"
proof -
  obtain s where s: "gp_video g = Some s" "path_inv video_track_of (video_add lib) vp8_next tr r0 (gp_stack g) s"
    using assms(2) by (auto simp: video_path_def)
  obtain s' where s': "gp_video g' = Some s'"
    "track_step lib VP8_PAYLOAD_TYPE OPUS_PAYLOAD_TYPE vp8_next s (gp_stack g) s' (gp_stack g')"
    using gp_step_video_track [OF assms(3) s(1)] by blast
  from video.path_step [OF s'(2) assms(1) s(2)] s'(1) show ?thesis by (simp add: video_path_def)
qed

lemma video_path_run:
  "video_total lib \<Longrightarrow> video_path lib tr r0 g \<Longrightarrow> gp_run lib as g = Some g' \<Longrightarrow> video_path lib tr r0 g'"
  using gp_run_invariant [of as "video_path lib tr r0" lib g g'] video_path_step by blast

text \<open>At the installation of a source, with a fresh payloader.\<close>

lemma video_path_installed:
  assumes "gp_set_source lib others now streams g0 = (Inr (), g)" "dt_ready (sk_direct (gp_stack g))"
    and "st_video streams = Some src"
  shows "video_path lib' (video_track_of (sk_direct (gp_stack g))) (vp8_new src) g
    \<and> dt_payloader (sk_direct (gp_stack g)) = wl_vp8_new lib"
proof -
  obtain h where h: "g = gp_install lib now streams h"
    using source_installed [OF assms(1,2)] by blast
  have "gp_video g = Some (gp_start_video now src (st_audio streams \<noteq> None \<and> st_video streams \<noteq> None)
      (st_audio streams \<noteq> None) h)"
    using assms(3) by (simp add: h gp_install_def Let_def)
  with assms(2) have "video_path lib' (video_track_of (sk_direct (gp_stack g))) (vp8_new src) g"
    by (auto simp: video_path_def gp_start_video_def Let_def intro!: path_inv_new)
  then show ?thesis
    by (simp add: h gp_install_stack stack_reset_media_def reset_media_track_state_def)
qed

section \<open>A VP8 clip on the wire\<close>

definition ivf_bytes :: "bytes \<Rightarrow> u32 \<Rightarrow> u32 \<Rightarrow> bytes \<Rightarrow> (bytes \<times> bytes) list \<Rightarrow> bytes" where
  "ivf_bytes info den num rest fs = ivf_header info den num rest @ concat (map ivf_frame fs)"

lemma ivf_source_drain:
  assumes "length info = 12" "length rest = 8" "\<forall>f \<in> set fs. length (fst f) = 8 \<and> length (snd f) < 2 ^ 32"
  shows "\<exists>n. drain (Suc n) vp8_next (vp8_new (ivf_bytes info den num rest fs)) =
    (map (\<lambda>f. \<lparr>sm_data = f, sm_duration = ivf_duration den num\<rparr>) (map snd fs), Some File)"
proof -
  let ?r = "\<lparr>vr_rd = concat (map ivf_frame fs), vr_header_read = True, vr_frame_duration = ivf_duration den num\<rparr>"
  let ?n = "length (vr_rd ?r)"
  have "drain (Suc ?n) vp8_next (vp8_new (ivf_bytes info den num rest fs)) = drain (Suc ?n) vp8_next ?r"
    by (simp add: ivf_bytes_def ivf_started [OF assms(1,2)])
  moreover have "drain (Suc ?n) vp8_next ?r =
      (map (\<lambda>f. \<lparr>sm_data = snd f, sm_duration = vr_frame_duration ?r\<rparr>) fs, Some File)"
    using assms(3) by (intro vp8_drain_frames) simp_all
  ultimately have "drain (Suc ?n) vp8_next (vp8_new (ivf_bytes info den num rest fs)) =
      (map (\<lambda>f. \<lparr>sm_data = f, sm_duration = ivf_duration den num\<rparr>) (map snd fs), Some File)"
    by (simp add: comp_def)
  then show ?thesis by blast
qed

lemma video_path_wire:
  assumes "video_path lib tr r0 g" "drain fuel vp8_next r0 = (map (\<lambda>f. \<lparr>sm_data = f, sm_duration = d\<rparr>) fs, Some e)"
    and "tr = (w, seq, ts, ssrc, v)"
  shows "\<exists>s n. gp_video g = Some s \<and> n = length (sm_played s) \<and> n \<le> length fs \<and> on_schedule (sm_played s)
    \<and> video_sent (sk_direct (gp_stack g)) = w @ vp8_on_wire lib v seq ts ssrc d (take n fs)"
proof -
  obtain s where s: "gp_video g = Some s" "path_inv video_track_of (video_add lib) vp8_next tr r0 (gp_stack g) s"
    using assms(1) by (auto simp: video_path_def)
  define n where "n = length (sm_played s)"
  have p: "n \<le> length fs" "on_schedule (sm_played s)"
    "video_track_of (sk_direct (gp_stack g)) =
       fold (video_add lib) (map (\<lambda>f. \<lparr>sm_data = f, sm_duration = d\<rparr>) (take n fs)) tr"
    using path_prefix [OF s(2) assms(2)] by (simp_all add: n_def take_map)
  have "video_sent (sk_direct (gp_stack g)) = w @ vp8_on_wire lib v seq ts ssrc d (take n fs)"
    using arg_cong [OF p(3), of fst] unfolding assms(3) fold_video_add by (simp add: video_track_of_def)
  with s(1) p n_def show ?thesis by blast
qed

lemma video_path_all:
  assumes "video_path lib tr r0 g" "drain fuel vp8_next r0 = (map (\<lambda>f. \<lparr>sm_data = f, sm_duration = d\<rparr>) fs, Some e)"
    and "tr = (w, seq, ts, ssrc, v)"
    and "gp_video g = Some s" "map played_sample (sm_played s) = map (\<lambda>f. \<lparr>sm_data = f, sm_duration = d\<rparr>) fs"
  shows "video_sent (sk_direct (gp_stack g)) = w @ vp8_on_wire lib v seq ts ssrc d fs"
proof -
  obtain t n where t: "gp_video g = Some t" "n = length (sm_played t)"
    "video_sent (sk_direct (gp_stack g)) = w @ vp8_on_wire lib v seq ts ssrc d (take n fs)"
    using video_path_wire [OF assms(1-3)] by blast
  have "n = length fs" using arg_cong [OF assms(5), of length] t(1,2) assms(4) by simp
  with t(3) show ?thesis by simp
qed

section \<open>A concrete clip\<close>

text \<open>One frame of three bytes at 30 frames a second, in a call that had been playing something else.\<close>

definition one_frame :: "(bytes \<times> bytes) list" where
  "one_frame = [(replicate 8 0, [1, 2, 3])]"

definition one_frame_clip :: "bytes streams" where
  "one_frame_clip = \<lparr>st_audio = None,
     st_video = Some (ivf_bytes (replicate 12 0) 30 1 (replicate 8 0) one_frame), st_close = None\<rparr>"

definition show_one :: "gp_action list" where
  "show_one = [Video_task (Read_step False), Video_task (Read_step False), Video_task (Read_step False),
     Video_pace echo_clock, Video_pace echo_clock, Video_pace echo_clock]"

lemma echo_video_total: "video_total echo_lib"
  by (simp add: video_total_def echo_total) (simp add: echo_lib_def)

lemma one_frame_first:
  "\<exists>r. vp8_next (vp8_new (ivf_bytes (replicate 12 0) 30 1 (replicate 8 0) one_frame)) =
     (Inr \<lparr>sm_data = [1, 2, 3], sm_duration = ivf_duration 30 1\<rparr>, r)"
proof -
  obtain n where "drain (Suc n) vp8_next (vp8_new (ivf_bytes (replicate 12 0) 30 1 (replicate 8 0) one_frame)) =
      ([\<lparr>sm_data = [1, 2, 3], sm_duration = ivf_duration 30 1\<rparr>], Some File)"
    using ivf_source_drain [of "replicate 12 0" "replicate 8 0" one_frame 30 1] by (auto simp: one_frame_def)
  then show ?thesis by (auto split: prod.splits sum.splits)
qed

lemma gp_run_video_task:
  "gp_video g = Some s \<Longrightarrow> own_task c \<Longrightarrow> sm_step vp8_next c s = Some s' \<Longrightarrow>
     gp_run lib (Video_task c # as) g = gp_run lib as (gp_set_video s s' g)"
  by simp

lemma gp_run_video_pace:
  "gp_video g = Some s \<Longrightarrow> pace_with lib c VP8_PAYLOAD_TYPE s (gp_stack g) = (Some s', st) \<Longrightarrow>
     gp_run lib (Video_pace c # as) g = gp_run lib as (gp_set_video s s' (g\<lparr>gp_stack := st\<rparr>))"
  by simp

lemma show_one_runs:
  assumes "gp_video g = Some (sm_set_on_end f (sm_new r0 False t))" "vp8_next r0 = (Inr x, r)"
    and "video_total lib" "dt_ready (sk_direct (gp_stack g))"
  shows "\<exists>g2 s. gp_run lib show_one g = Some g2 \<and> gp_video g2 = Some s \<and> length (sm_played s) = 1"
proof -
  have own: "own_task (Read_step False)" by simp
  have same: "g\<lparr>gp_stack := gp_stack g\<rparr> = g" for g :: "('a, 'b) group_call" by simp
  obtain s1 s2 s3 s4 s5 where
    1: "sm_step vp8_next (Read_step False) (sm_set_on_end f (sm_new r0 False t)) = Some s1"
      "sm_step vp8_next (Read_step False) s1 = Some s2" "sm_step vp8_next (Read_step False) s2 = Some s3"
    and 2: "\<And>st. pace_with lib echo_clock VP8_PAYLOAD_TYPE s3 st = (Some s4, st)"
      "\<And>st. pace_with lib echo_clock VP8_PAYLOAD_TYPE s4 st = (Some s5, st)"
    and 3: "sm_pacer s5 = Pc_send x" "\<not> sm_muted s5" "sm_played s5 = []"
    by (rule one_frame_steps [where nx = vp8_next and f = f and t = t, OF assms(2)]) blast
  let ?g3 = "gp_set_video s2 s3 (gp_set_video s1 s2 (gp_set_video (sm_set_on_end f (sm_new r0 False t)) s1 g))"
  let ?g5 = "gp_set_video s4 s5 (gp_set_video s3 s4 ?g3)"
  obtain dt' where "pace_with lib echo_clock VP8_PAYLOAD_TYPE s5 (gp_stack ?g5) =
      (Some (finish_slot True x s5), gp_stack ?g5\<lparr>sk_direct := dt'\<rparr>)"
    using video.pace_sends [OF assms(3) _ 3(1,2), of "gp_stack ?g5" echo_clock] assms(4) by auto
  then have "gp_run lib [Video_pace echo_clock] ?g5 =
      Some (gp_set_video s5 (finish_slot True x s5) (?g5\<lparr>gp_stack := gp_stack ?g5\<lparr>sk_direct := dt'\<rparr>\<rparr>))"
    by simp
  moreover have "gp_run lib show_one g = gp_run lib [Video_pace echo_clock] ?g5"
    unfolding show_one_def gp_run_video_task [OF assms(1) own 1(1)]
      gp_run_video_task [OF gp_set_streamers(4) own 1(2)]
      gp_run_video_task [OF gp_set_streamers(4) own 1(3)]
      gp_run_video_pace [OF gp_set_streamers(4) 2(1)] same gp_run_video_pace [OF gp_set_streamers(4) 2(2)] same ..
  ultimately show ?thesis using 3(3) by (simp add: finish_slot_def Let_def)
qed

lemma clip_installed:
  "gp_set_source echo_lib id 0 one_frame_clip example_call = (Inr (), gp_install echo_lib 0 one_frame_clip example_call)"
  "dt_ready (sk_direct (gp_stack (gp_install echo_lib 0 one_frame_clip example_call)))"
  "video_sent (sk_direct (gp_stack (gp_install echo_lib 0 one_frame_clip example_call))) = []"
  "dt_video_seq (sk_direct (gp_stack (gp_install echo_lib 0 one_frame_clip example_call))) = 2000"
  "dt_video_ts (sk_direct (gp_stack (gp_install echo_lib 0 one_frame_clip example_call))) = 0"
  "dt_video_ssrc (sk_direct (gp_stack (gp_install echo_lib 0 one_frame_clip example_call))) = 9"
  by (simp_all add: example_gate gp_install_stack example_stack stack_reset_media_def reset_media_track_state_def
      set_on_state_change_def stack_from_direct_def echo_transport_def dt_new_with_ssrc_def video_sent_def echo_draw_def
      dt_ready_def own_dest_def)

end
