(* ===== verification/Film_Live.thy ===== *)
theory Film_Live
  imports Media_Live Video_Path
begin

text \<open>
  That a film gets to its end: a call with audio and video, whose streamers first meet at the
  barrier.  As long as the call is neither paused nor muted both wait before the barrier or
  both have passed it, so neither waits in vain.
\<close>

section \<open>Before and after the barrier\<close>

definition waiting :: "'r streamer \<Rightarrow> bool" where
  "waiting s \<longleftrightarrow> sm_first s \<and> sm_played s = [] \<and> (sm_pacer s = Pc_first \<or> sm_pacer s = Pc_loop \<or> at_barrier s)"

text \<open>One streamer of a film, which has at least one frame; \<open>w\<close>: it has not passed the barrier.\<close>

definition side ::
  "('r \<Rightarrow> (error + sample) \<times> 'r) \<Rightarrow> sample list \<Rightarrow> error \<Rightarrow> string option \<Rightarrow> bool \<Rightarrow> 'r streamer \<Rightarrow> bool" where
  "side nx xs e f w s \<longleftrightarrow>
     (\<exists>ts. complete nx xs e True f ts s) \<and> xs \<noteq> [] \<and> \<not> sm_paused s \<and> \<not> sm_muted s
     \<and> (if w then waiting s else keeps_running s)"

lemma waiting_pacer:
  assumes "waiting s" "complete nx xs e True f ts s" "complete nx xs e True f ts' t" "xs \<noteq> []"
    and "\<not> sm_paused s" "pacer_step (Inr ()) s = Some t"
  shows "waiting t"
proof -
  have b: "sm_barrier s" "sm_running s" using assms(2) by (simp_all add: complete_def)
  consider "sm_pacer s = Pc_first" | "sm_pacer s = Pc_loop"
    using assms(1,6) by (auto simp: waiting_def at_barrier_def pacer_step_def)
  then show ?thesis
  proof cases
    case 1
    with assms(1,6) show ?thesis
      by (auto simp: waiting_def pacer_step_def recv_def split: option.splits list.splits if_splits)
  next
    case 2
    obtain y where y: "sm_next s = Some y" using assms(2) 2 by (auto simp: complete_def pacer_ok_def)
    have t: "t = pacer_loop s" using assms(6) 2 by (simp add: pacer_step_def)
    show ?thesis
    proof (cases y)
      case (Inl e')
      then have "t = s\<lparr>sm_next := None, sm_pacer := Pc_end (Some e')\<rparr>"
        using t b(2) assms(5) y by (simp add: pacer_loop_def)
      with assms(1,3,4) have False by (auto simp: complete_def waiting_def played_samples_def)
      then show ?thesis ..
    next
      case (Inr x)
      then have "t = s\<lparr>sm_next := None, sm_pacer := Pc_barrier x\<rparr>"
        using t b assms(1,5) y by (simp add: pacer_loop_def waiting_def Let_def)
      with assms(1) show ?thesis by (simp add: waiting_def at_barrier_def)
    qed
  qed
qed

lemma waiting_own_task:
  "own_task a \<Longrightarrow> sm_step nx a s = Some t \<Longrightarrow> waiting s \<Longrightarrow> waiting t"
  by (cases a; cases "sm_reader_pc s")
    (auto simp: waiting_def at_barrier_def sm_task_defs split: if_splits prod.splits option.splits list.splits)

lemma side_step:
  assumes "side nx xs e f w s" "task_action a" "sm_step nx a s = Some t"
  shows "side nx xs e f w t"
proof -
  obtain ts where c: "complete nx xs e True f ts s" using assms(1) by (auto simp: side_def)
  have "smooth a" using assms(2) by (cases a) auto
  then obtain ts' where c': "complete nx xs e True f ts' t" using complete_step [OF c _ assms(3)] by blast
  have p: "sm_paused t = sm_paused s \<and> sm_muted t = sm_muted s"
  proof (cases "own_task a")
    case True
    then show ?thesis using own_task_keeps_pause assms(3) by metis
  next
    case False
    then show ?thesis using assms(2,3) pacer_keeps_pause by (cases a) auto
  qed
  have "waiting t" if w: "waiting s"
  proof (cases "own_task a")
    case True
    then show ?thesis using waiting_own_task assms(3) w by metis
  next
    case False
    then have "pacer_step (Inr ()) s = Some t" using assms(2,3) by (cases a) auto
    then show ?thesis using waiting_pacer [OF w c c'] assms(1) by (simp add: side_def)
  qed
  moreover have "keeps_running t" if "keeps_running s"
    using keeps_running_step [OF that _ assms(3)] assms(2) by fastforce
  ultimately show ?thesis using assms(1) c' p by (auto simp: side_def)
qed

lemma side_opens:
  assumes "side nx xs e f w s" "barrier_step s = Some t"
  shows "side nx xs e f False t \<and> sm_calls t = sm_calls s"
proof -
  obtain ts where "complete nx xs e True f ts s" using assms(1) by (auto simp: side_def)
  then have "complete nx xs e True f ts t" using complete_barrier assms(2) by blast
  with assms show ?thesis
    by (auto simp: side_def barrier_step_def start_slot_def keeps_running_def split: pacer_pc.splits)
qed

lemma side_runs_on:
  assumes "side nx xs e f w s"
  shows "\<exists>bs t. list_all task_action bs \<and> sm_run nx bs s = Some t \<and> (if w then at_barrier t else sm_pacer t = Pc_done)"
proof -
  obtain ts where "complete nx xs e True f ts s" "\<not> sm_paused s" using assms by (auto simp: side_def)
  then obtain bs t where t: "list_all task_action bs" "sm_run nx bs s = Some t" "sm_pacer t = Pc_done \<or> at_barrier t"
    using runs_on by blast
  have "side nx xs e f w t"
    using sm_run_invariant [of bs "side nx xs e f w" nx s t] side_step assms t(1,2) by (metis list.pred_set)
  then have "if w then waiting t else \<not> at_barrier t" by (auto simp: side_def keeps_running_def at_barrier_def)
  with t show ?thesis by (auto simp: waiting_def at_barrier_def split: if_splits)
qed

section \<open>The film in a call\<close>

definition film ::
  "sample list \<Rightarrow> error \<Rightarrow> sample list \<Rightarrow> error \<Rightarrow> gp_event list \<Rightarrow> bool \<Rightarrow> ('s, 'v) group_call \<Rightarrow> bool" where
  "film xs e ys e' evs w g \<longleftrightarrow>
     dt_ready (sk_direct (gp_stack g)) \<and> \<not> gp_closed g \<and> gp_dispatcher g = None
     \<and> ge_on_stream_end (gp_events g) \<and> \<not> gp_paused g \<and> \<not> gp_muted g
     \<and> (\<exists>a v. gp_audio g = Some a \<and> gp_video g = Some v
          \<and> side opus_next xs e (Some audio_tag) w a \<and> side vp8_next ys e' None w v
          \<and> gp_calls g = evs @ map end_event (sm_calls a))"

lemma film_audio:
  assumes i: "film xs e ys e' evs w g" and a: "gp_audio g = Some a"
    and st: "task_action c" "sm_step opus_next c a = Some a'" and s: "dt_ready (sk_direct st')"
  shows "film xs e ys e' evs w (gp_set_audio a a' (g\<lparr>gp_stack := st'\<rparr>))"
proof -
  have sd: "side opus_next xs e (Some audio_tag) w a" and cl: "gp_calls g = evs @ map end_event (sm_calls a)"
    using i a by (auto simp: film_def)
  have sd': "side opus_next xs e (Some audio_tag) w a'" by (rule side_step [OF sd st])
  have "sm_calls a' = sm_calls a @ drop (length (sm_calls a)) (sm_calls a')"
    using sd sd' complete_calls done_stays [OF _ st(2)] unfolding side_def by blast
  then have "map end_event (sm_calls a) @ map end_event (drop (length (sm_calls a)) (sm_calls a')) = map end_event (sm_calls a')"
    by (metis map_append)
  then have "gp_set_audio a a' (g\<lparr>gp_stack := st'\<rparr>) = g\<lparr>gp_stack := st', gp_audio := Some a',
      gp_calls := evs @ map end_event (sm_calls a')\<rparr>"
    using i cl by (simp add: gp_set_audio_def gp_report_direct film_def)
  with i sd' s show ?thesis by (auto simp: film_def)
qed

lemma side_silent: "side nx xs e None w s \<Longrightarrow> sm_calls s = []"
  by (auto simp: side_def complete_def pacer_ok_def split: if_splits)

lemma film_video:
  assumes i: "film xs e ys e' evs w g" and v: "gp_video g = Some v"
    and st: "task_action c" "sm_step vp8_next c v = Some v'" and s: "dt_ready (sk_direct st')"
  shows "film xs e ys e' evs w (gp_set_video v v' (g\<lparr>gp_stack := st'\<rparr>))"
proof -
  have sd: "side vp8_next ys e' None w v" using i v by (auto simp: film_def)
  have sd': "side vp8_next ys e' None w v'" by (rule side_step [OF sd st])
  then have "gp_set_video v v' (g\<lparr>gp_stack := st'\<rparr>) = g\<lparr>gp_stack := st', gp_video := Some v'\<rparr>"
    by (simp add: gp_set_video_def gp_report_def side_silent)
  with i v sd' s show ?thesis by (auto simp: film_def)
qed

text \<open>
  Every step of the call is allowed for, but a stalled read and the two calls that pause a
  streamer.
\<close>

definition plays_on :: "gp_action \<Rightarrow> bool" where
  "plays_on b \<longleftrightarrow> b \<notin> {Audio_task (Read_step True), Video_task (Read_step True), Call_op Op_pause, Call_op Op_mute}"

lemma film_step:
  assumes lib: "video_total lib" and i: "film xs e ys e' evs w g" and st: "gp_step lib b g = Some g'" and b: "plays_on b"
  shows "film xs e ys e' evs (w \<and> b \<noteq> Both_at_barrier) g'"
proof -
  obtain a v where a: "gp_audio g = Some a" "side opus_next xs e (Some audio_tag) w a"
    and v: "gp_video g = Some v" "side vp8_next ys e' None w v" and cl: "gp_calls g = evs @ map end_event (sm_calls a)"
    using i by (auto simp: film_def)
  have m: "\<not> sm_muted a" "\<not> sm_muted v" "dt_ready (sk_direct (gp_stack g))" "wire_total lib"
    using i a v lib by (auto simp: film_def side_def video_total_def)
  show ?thesis
  proof (cases b)
    case (Audio_task c)
    then obtain a' where a': "own_task c" "sm_step opus_next c a = Some a'" "g' = gp_set_audio a a' g"
      using st a by (auto split: if_splits)
    then have "task_action c" using b Audio_task by (cases c) (auto simp: plays_on_def)
    with film_audio [OF i a(1) _ a'(2) m(3)] a'(3) Audio_task show ?thesis by simp
  next
    case (Video_task c)
    then obtain v' where v': "own_task c" "sm_step vp8_next c v = Some v'" "g' = gp_set_video v v' g"
      using st v by (auto split: if_splits)
    then have "task_action c" using b Video_task by (cases c) (auto simp: plays_on_def)
    with film_video [OF i v(1) _ v'(2) m(3)] v'(3) Video_task show ?thesis by simp
  next
    case (Audio_pace ck)
    obtain st' where p: "pace_with lib ck OPUS_PAYLOAD_TYPE a (gp_stack g) = (pacer_step (Inr ()) a, st')" "dt_ready (sk_direct st')"
      using audio.pace_ready [OF m(4,3,1)] by blast
    then obtain a' where a': "pacer_step (Inr ()) a = Some a'" "g' = gp_set_audio a a' (g\<lparr>gp_stack := st'\<rparr>)"
      using st a(1) Audio_pace by (auto split: option.splits)
    with film_audio [OF i a(1), of "Pace_step (Inr ())" a' st'] p(2) Audio_pace show ?thesis by simp
  next
    case (Video_pace ck)
    obtain st' where p: "pace_with lib ck VP8_PAYLOAD_TYPE v (gp_stack g) = (pacer_step (Inr ()) v, st')" "dt_ready (sk_direct st')"
      using video.pace_ready [OF lib m(3,2)] by blast
    then obtain v' where v': "pacer_step (Inr ()) v = Some v'" "g' = gp_set_video v v' (g\<lparr>gp_stack := st'\<rparr>)"
      using st v(1) Video_pace by (auto split: option.splits)
    with film_video [OF i v(1), of "Pace_step (Inr ())" v' st'] p(2) Video_pace show ?thesis by simp
  next
    case Both_at_barrier
    then obtain a' v' where o: "barrier_step a = Some a'" "barrier_step v = Some v'"
      "g' = g\<lparr>gp_audio := Some a', gp_video := Some v'\<rparr>"
      using st a(1) v(1) by (auto split: option.splits)
    from side_opens [OF a(2) o(1)] side_opens [OF v(2) o(2)] i o(3) cl Both_at_barrier show ?thesis
      by (auto simp: film_def)
  next
    case (Call_op op)
    then have "op = Op_resume \<or> op = Op_unmute" using b by (cases op) (auto simp: plays_on_def)
    moreover have "\<not> gp_paused g" "\<not> gp_muted g" "\<not> gp_closed g" using i by (simp_all add: film_def)
    ultimately have "snd (gp_perform op g) = g" by (auto simp: gp_op_unchanged)
    with st Call_op i show ?thesis by simp
  qed
qed

lemma film_run:
  assumes "video_total lib" "film xs e ys e' evs w g" "list_all plays_on as" "gp_run lib as g = Some g'"
  shows "\<exists>w'. film xs e ys e' evs w' g'"
  using gp_run_invariant [of as "\<lambda>g. \<exists>w. film xs e ys e' evs w g" lib g g'] film_step assms
  by (metis list.pred_set)

section \<open>The film completes\<close>

interpretation sound: call_track video_total gp_audio opus_next Audio_task "Audio_pace echo_clock"
  "\<lambda>g. film xs e ys e' evs w g \<and> gp_video g = v" for xs e ys e' evs w v
proof
  show "gp_audio g = Some a \<Longrightarrow> own_task c \<Longrightarrow> sm_step opus_next c a = Some a' \<Longrightarrow>
      \<exists>g'. gp_step lib (Audio_task c) g = Some g' \<and> gp_audio g' = Some a'" for lib :: "('a, 'b, 'c) wire_lib" and g a c a'
    by simp
  fix lib :: "('a, 'b, 'c) wire_lib" and g g' :: "('a, 'b) group_call" and b a a'
  assume lib: "video_total lib" and i: "film xs e ys e' evs w g \<and> gp_video g = v"
  show "\<exists>g'. gp_step lib (Audio_pace echo_clock) g = Some g' \<and> gp_audio g' = Some a'"
    if a: "gp_audio g = Some a" "pacer_step (Inr ()) a = Some a'"
  proof -
    have m: "\<not> sm_muted a" "dt_ready (sk_direct (gp_stack g))" "wire_total lib"
      using i a(1) lib by (auto simp: film_def side_def video_total_def)
    from audio.pace_ready [OF m(3,2,1), of echo_clock] a show ?thesis by auto
  qed
  assume b: "b \<in> range Audio_task \<union> {Audio_pace echo_clock}" "call_task b" "gp_step lib b g = Some g'"
  then have "plays_on b" "b \<noteq> Both_at_barrier" by (auto simp: plays_on_def)
  with film_step [OF lib _ b(3)] i have "film xs e ys e' evs w g'" by auto
  moreover have "gp_video g' = gp_video g"
    using b by (auto split: option.splits prod.splits if_splits)
  ultimately show "film xs e ys e' evs w g' \<and> gp_video g' = v" using i by simp
qed simp_all

interpretation picture: call_track video_total gp_video vp8_next Video_task "Video_pace echo_clock"
  "\<lambda>g. film xs e ys e' evs w g \<and> gp_audio g = a" for xs e ys e' evs w a
proof
  show "gp_video g = Some v \<Longrightarrow> own_task c \<Longrightarrow> sm_step vp8_next c v = Some v' \<Longrightarrow>
      \<exists>g'. gp_step lib (Video_task c) g = Some g' \<and> gp_video g' = Some v'" for lib :: "('a, 'b, 'c) wire_lib" and g v c v'
    by simp
  fix lib :: "('a, 'b, 'c) wire_lib" and g g' :: "('a, 'b) group_call" and b v v'
  assume lib: "video_total lib" and i: "film xs e ys e' evs w g \<and> gp_audio g = a"
  show "\<exists>g'. gp_step lib (Video_pace echo_clock) g = Some g' \<and> gp_video g' = Some v'"
    if v: "gp_video g = Some v" "pacer_step (Inr ()) v = Some v'"
  proof -
    have m: "\<not> sm_muted v" "dt_ready (sk_direct (gp_stack g))"
      using i v(1) by (auto simp: film_def side_def)
    from video.pace_ready [OF lib m(2,1), of echo_clock] v show ?thesis by auto
  qed
  assume b: "b \<in> range Video_task \<union> {Video_pace echo_clock}" "call_task b" "gp_step lib b g = Some g'"
  then have "plays_on b" "b \<noteq> Both_at_barrier" by (auto simp: plays_on_def)
  with film_step [OF lib _ b(3)] i have "film xs e ys e' evs w g'" by auto
  moreover have "gp_audio g' = gp_audio g"
    using b by (auto split: option.splits prod.splits if_splits)
  ultimately show "film xs e ys e' evs w g' \<and> gp_audio g' = a" using i by simp
qed simp_all

text \<open>Each task for itself comes to the barrier, or to its end when the barrier is behind it.\<close>

lemma film_runs_on:
  assumes lib: "video_total lib" and i: "film xs e ys e' evs w g"
  shows "\<exists>cs g' a v. list_all call_task cs \<and> gp_run lib cs g = Some g' \<and> film xs e ys e' evs w g'
    \<and> gp_audio g' = Some a \<and> gp_video g' = Some v
    \<and> (if w then at_barrier a \<and> at_barrier v else sm_pacer a = Pc_done \<and> sm_pacer v = Pc_done)"
proof -
  obtain a v where a: "gp_audio g = Some a" "side opus_next xs e (Some audio_tag) w a"
    and v: "gp_video g = Some v" "side vp8_next ys e' None w v"
    using i by (auto simp: film_def)
  obtain as a' where a': "list_all task_action as" "sm_run opus_next as a = Some a'"
    "if w then at_barrier a' else sm_pacer a' = Pc_done"
    using side_runs_on [OF a(2)] by blast
  obtain cs g1 where g1: "list_all call_task cs" "gp_run lib cs g = Some g1" "gp_audio g1 = Some a'"
    "film xs e ys e' evs w g1" "gp_video g1 = Some v"
    using sound.run_in_call [OF lib _ a(1) a'(1,2), where v = "Some v"] i v(1) by blast
  obtain bs v' where v': "list_all task_action bs" "sm_run vp8_next bs v = Some v'"
    "if w then at_barrier v' else sm_pacer v' = Pc_done"
    using side_runs_on [OF v(2)] by blast
  obtain ds g2 where g2: "list_all call_task ds" "gp_run lib ds g1 = Some g2" "gp_video g2 = Some v'"
    "film xs e ys e' evs w g2" "gp_audio g2 = Some a'"
    using picture.run_in_call [OF lib _ g1(5) v'(1,2), where a = "Some a'"] g1(3,4) by blast
  have "gp_run lib (cs @ ds) g = Some g2" using g1(2) g2(2) by (simp add: gp_run_append)
  with a'(3) v'(3) g1(1) g2 show ?thesis
    by (intro exI [of _ "cs @ ds"] exI [of _ g2] exI [of _ a'] exI [of _ v']) simp
qed

lemma film_ends:
  assumes lib: "video_total lib" and i: "film xs e ys e' evs w g"
  shows "\<exists>cs g' a v. list_all call_task cs \<and> gp_run lib cs g = Some g' \<and> gp_audio g' = Some a \<and> gp_video g' = Some v
    \<and> map played_sample (sm_played a) = xs \<and> map played_sample (sm_played v) = ys
    \<and> gp_calls g' = evs @ [Stream_end Audio Microphone (Some e)]"
proof -
  obtain cs g1 where g1: "list_all call_task cs" "gp_run lib cs g = Some g1" "film xs e ys e' evs False g1"
  proof (cases w)
    case False
    with i that [of "[]" g] show ?thesis by simp
  next
    case True
    obtain cs g1 a v where c: "list_all call_task cs" "gp_run lib cs g = Some g1" "film xs e ys e' evs w g1"
      "gp_audio g1 = Some a" "gp_video g1 = Some v" "at_barrier a" "at_barrier v"
      using film_runs_on [OF lib i] True by auto
    then obtain g2 where g2: "gp_step lib Both_at_barrier g1 = Some g2"
      by (auto simp: at_barrier_def barrier_step_def)
    have "film xs e ys e' evs False g2" using film_step [OF lib c(3) g2] by (simp add: plays_on_def)
    moreover have "gp_run lib (cs @ [Both_at_barrier]) g = Some g2" unfolding gp_run_append c(2) using g2 by simp
    ultimately show ?thesis using that [of "cs @ [Both_at_barrier]" g2] c(1) by simp
  qed
  obtain ds g' a v where d: "list_all call_task ds" "gp_run lib ds g1 = Some g'" "film xs e ys e' evs False g'"
    "gp_audio g' = Some a" "gp_video g' = Some v" "sm_pacer a = Pc_done" "sm_pacer v = Pc_done"
    using film_runs_on [OF lib g1(3)] by auto
  have "gp_run lib (cs @ ds) g = Some g'" unfolding gp_run_append g1(2) using d(2) by simp
  moreover have "sm_calls a = [(audio_tag, Some e)]" "map played_sample (sm_played a) = xs"
    "map played_sample (sm_played v) = ys" "gp_calls g' = evs @ map end_event (sm_calls a)"
    using d(3-7) by (auto simp: film_def side_def complete_def pacer_ok_def played_samples_def)
  ultimately show ?thesis using g1(1) d(1,4,5)
    by (intro exI [of _ "cs @ ds"] exI [of _ g'] exI [of _ a] exI [of _ v]) (simp add: end_event_def)
qed

lemma film_install:
  assumes "dt_ready (sk_direct (gp_stack g))" "\<not> gp_closed g" "gp_dispatcher g = None" "ge_on_stream_end (gp_events g)"
    and "\<not> gp_paused g" "\<not> gp_muted g" "st_audio streams = Some s1" "st_video streams = Some s2"
    and "drain n opus_next (opus_new s1) = (xs, Some e)" "xs \<noteq> []"
    and "drain m vp8_next (vp8_new s2) = (ys, Some e')" "ys \<noteq> []"
  shows "film xs e ys e' (gp_calls (gp_install lib now streams g)) True (gp_install lib now streams g)"
proof -
  let ?a = "sm_set_on_end audio_tag (sm_new (opus_new s1) True now)" and ?v = "sm_new (vp8_new s2) True now"
  have "side opus_next xs e (Some audio_tag) True ?a" "side vp8_next ys e' None True ?v"
    using complete_new [OF assms(9)] complete_new [OF assms(11)] assms(10,12)
    by (simp_all add: side_def waiting_def sm_set_on_end_def sm_new_def)
  moreover have "gp_audio (gp_install lib now streams g) = Some ?a" "gp_video (gp_install lib now streams g) = Some ?v"
    using assms(5-8) by (simp_all add: gp_install_def gp_start_audio_def gp_start_video_def Let_def)
  moreover have "sm_calls ?a = []" by (simp add: sm_set_on_end_def sm_new_def)
  moreover have "dt_ready (sk_direct (gp_stack (gp_install lib now streams g)))"
    using assms(1) by (simp add: gp_install_stack stack_reset_media_def reset_media_track_state_def dt_ready_def own_dest_def)
  ultimately show ?thesis using assms(2-6)
    by (simp add: film_def gp_install_def gp_fire_upgrade_if_changed_def gp_submit_def Let_def)
qed

section \<open>A concrete film\<close>

definition one_film :: "bytes streams" where
  "one_film = \<lparr>st_audio = Some (concat (map page_bytes one_page)),
     st_video = Some (ivf_bytes (replicate 12 0) 30 1 (replicate 8 0) one_frame), st_close = None\<rparr>"

lemma film_installed:
  "gp_set_source echo_lib id 0 one_film example_call = (Inr (), gp_install echo_lib 0 one_film example_call)"
  "dt_ready (sk_direct (gp_stack (gp_install echo_lib 0 one_film example_call)))"
  "audio_sent (sk_direct (gp_stack (gp_install echo_lib 0 one_film example_call))) = []"
  "dt_audio_seq (sk_direct (gp_stack (gp_install echo_lib 0 one_film example_call))) = 1000
    \<and> dt_audio_ts (sk_direct (gp_stack (gp_install echo_lib 0 one_film example_call))) = 0"
  "dt_audio_ssrc (sk_direct (gp_stack (gp_install echo_lib 0 one_film example_call))) = 7"
  "video_sent (sk_direct (gp_stack (gp_install echo_lib 0 one_film example_call))) = []"
  "dt_video_seq (sk_direct (gp_stack (gp_install echo_lib 0 one_film example_call))) = 2000
    \<and> dt_video_ts (sk_direct (gp_stack (gp_install echo_lib 0 one_film example_call))) = 0"
  "dt_video_ssrc (sk_direct (gp_stack (gp_install echo_lib 0 one_film example_call))) = 9"
  by (simp_all add: example_gate gp_install_stack example_stack stack_reset_media_def reset_media_track_state_def
      set_on_state_change_def stack_from_direct_def echo_transport_def dt_new_with_ssrc_def video_sent_def audio_sent_def
      echo_draw_def dt_ready_def own_dest_def)

lemma film_sound: "\<exists>a. gp_audio (gp_install echo_lib 0 one_film example_call) = Some a"
  by (simp add: one_film_def gp_install_def Let_def)

end
