(* ===== verification/Transport_Life.thy ===== *)
theory Transport_Life
  imports Direct_Transport
begin

text \<open>
  The whole life of a transport: connecting any number of times, rounds of the workers, frames of
  both kinds, resets and closing, in any order and whatever the libraries answer.  The results
  are about every packet the transport ever sends: it carries what was announced to Telegram,
  and no sequence number of a track comes twice within 2 ^ 16 steps of its counter.
\<close>

section \<open>Lives\<close>

text \<open>
  The sequence numbers that what has been handed to the transport may use: one for each Opus
  frame, and one for each chunk into which the payloader cuts a VP8 frame.  A closed transport
  refuses a frame before it takes a number.
\<close>

fun use_numbers ::
  "('s, 'v, 'd) wire_lib \<Rightarrow> u8 \<Rightarrow> bytes \<Rightarrow> ('s, 'v) direct_transport \<Rightarrow> nat \<times> nat \<Rightarrow> nat \<times> nat" where
  "use_numbers lib pt p dt (na, nv) =
     (if dt_closed dt then (na, nv)
      else if pt = OPUS_PAYLOAD_TYPE then (Suc na, nv)
      else (na, nv + (case fst (wl_vp8_payload lib (dt_payloader dt) MAX_VP8_PAYLOAD p) of
                        Inl e \<Rightarrow> 0 | Inr chunks \<Rightarrow> length chunks)))"

text \<open>
  The workers that have been spawned, the transport, and how many audio and video numbers have
  been used.  A worker may handle an event although the transport has been closed since its test
  of the flag, so its rounds are \<open>worker_handle\<close>.
\<close>

inductive transport_life ::
  "('s, 'v, 'd) wire_lib \<Rightarrow> json_reader \<Rightarrow> ('s, 'v) direct_transport \<Rightarrow>
     'd worker list \<times> ('s, 'v) direct_transport \<times> nat \<times> nat \<Rightarrow> bool"
  for lib :: "('s, 'v, 'd) wire_lib" and jr :: json_reader and dt0 :: "('s, 'v) direct_transport" where
  fresh: "transport_life lib jr dt0 ([], dt0, 0, 0)"
| connected: "transport_life lib jr dt0 (ws, dt, n) \<Longrightarrow> dt_connect_start jr ce remote dt = (r, dt') \<Longrightarrow>
    transport_life lib jr dt0 (case r of Inl e \<Rightarrow> ws | Inr w \<Rightarrow> ws @ [w], dt', n)"
| worked: "transport_life lib jr dt0 (ws, dt, n) \<Longrightarrow> i < length ws \<Longrightarrow>
    worker_handle lib ev (ws ! i, dt) = (w, dt') \<Longrightarrow> transport_life lib jr dt0 (ws[i := w], dt', n)"
| sent: "transport_life lib jr dt0 (ws, dt, n) \<Longrightarrow> send_rtp_bytes lib ck pt p d dt = (r, dt') \<Longrightarrow>
    transport_life lib jr dt0 (ws, dt', use_numbers lib pt p dt n)"
| reset: "transport_life lib jr dt0 (ws, dt, n) \<Longrightarrow>
    transport_life lib jr dt0 (ws, reset_media_track_state lib dt, n)"
| closed: "transport_life lib jr dt0 (ws, dt, n) \<Longrightarrow> dt_close dt = (r, dt') \<Longrightarrow>
    transport_life lib jr dt0 (ws, dt', n)"

section \<open>Numbering\<close>

text \<open>
  \<open>numbered s0 n s qs\<close>: the counter has gone from \<open>s0\<close> to \<open>s\<close> in at most \<open>n\<close> steps, and the numbers \<open>qs\<close>
  were taken from it on the way, each at a later step than the one before.  The steps are not
  words: a number can only come again after \<open>2 ^ 16\<close> of them.
\<close>

definition taken :: "u16 \<Rightarrow> nat \<Rightarrow> u16 list \<Rightarrow> bool" where
  "taken s0 n qs \<longleftrightarrow> (\<exists>ks. sorted_wrt (<) ks \<and> (\<forall>k \<in> set ks. k < n) \<and> qs = map (\<lambda>k. s0 + of_nat k) ks)"

definition numbered :: "u16 \<Rightarrow> nat \<Rightarrow> u16 \<Rightarrow> u16 list \<Rightarrow> bool" where
  "numbered s0 n s qs \<longleftrightarrow> (\<exists>m \<le> n. s = s0 + of_nat m \<and> taken s0 m qs)"

lemma taken_mono:
  assumes "taken s0 m qs" "m \<le> n"
  shows "taken s0 n qs"
proof -
  obtain ks where ks: "sorted_wrt (<) ks" "\<forall>k \<in> set ks. k < m" "qs = map (\<lambda>k. s0 + of_nat k) ks"
    using assms(1) by (auto simp: taken_def)
  then have "\<forall>k \<in> set ks. k < n" using assms(2) by fastforce
  with ks show ?thesis unfolding taken_def by blast
qed

lemma taken_append:
  assumes "taken s0 m qs"
  shows "taken s0 (m + l) (qs @ map (\<lambda>k. (s0 + of_nat m) + of_nat k) [0..<l])"
proof -
  obtain ks where ks: "sorted_wrt (<) ks" "\<forall>k \<in> set ks. k < m" "qs = map (\<lambda>k. s0 + of_nat k) ks"
    using assms by (auto simp: taken_def)
  have "map (\<lambda>k. (s0 + of_nat m) + of_nat k) [0..<l] = map (\<lambda>k. s0 + of_nat k) [m..<m + l]"
    by (rule nth_equalityI) (simp_all add: algebra_simps)
  moreover have "sorted_wrt (<) (ks @ [m..<m + l])" using ks(1,2) by (fastforce simp: sorted_wrt_append)
  moreover have "\<forall>k \<in> set (ks @ [m..<m + l]). k < m + l" using ks(2) by fastforce
  ultimately show ?thesis unfolding taken_def ks(3) by (metis map_append)
qed

text \<open>Within \<open>2 ^ 16\<close> steps no number comes twice.\<close>

lemma taken_distinct:
  assumes "taken s0 n qs" "n \<le> 2 ^ 16"
  shows "distinct qs"
proof -
  obtain ks where ks: "sorted_wrt (<) ks" "\<forall>k \<in> set ks. k < n" "qs = map (\<lambda>k. s0 + of_nat k) ks"
    using assms(1) by (auto simp: taken_def)
  have "inj_on (\<lambda>k. s0 + of_nat k) (set ks)"
  proof (rule inj_onI)
    fix j k
    assume "j \<in> set ks" "k \<in> set ks" "s0 + of_nat j = s0 + (of_nat k :: u16)"
    then have "unat (of_nat j :: u16) = unat (of_nat k :: u16)" "j < 2 ^ 16" "k < 2 ^ 16"
      using ks(2) assms(2) by (auto dest: order.strict_trans2)
    then show "j = k" by (simp add: unat_of_nat)
  qed
  with ks(1,3) show ?thesis by (simp add: distinct_map strict_sorted_iff)
qed

lemma numbered_init: "numbered s0 0 s0 []"
  by (simp add: numbered_def taken_def)

lemma numbered_run:
  assumes "numbered s0 n s qs"
  shows "numbered s0 (n + l) (s + of_nat l) (qs @ map (\<lambda>k. s + of_nat k) [0..<l])"
proof -
  obtain m where "m \<le> n" "s = s0 + of_nat m" "taken s0 m qs" using assms by (auto simp: numbered_def)
  then show ?thesis
    using taken_append [of s0 m qs l] unfolding numbered_def by (intro exI [of _ "m + l"]) (simp add: add.assoc)
qed

lemma numbered_skip:
  assumes "numbered s0 n s qs" "l \<le> l'"
  shows "numbered s0 (n + l') (s + of_nat l) qs"
proof -
  obtain m where "m \<le> n" "s = s0 + of_nat m" "taken s0 m qs" using assms(1) by (auto simp: numbered_def)
  then show ?thesis
    using taken_mono [of s0 m qs "m + l"] assms(2) unfolding numbered_def
    by (intro exI [of _ "m + l"]) (simp add: add.assoc)
qed

lemma numbered_mono: "numbered s0 n s qs \<Longrightarrow> n \<le> n' \<Longrightarrow> numbered s0 n' s qs"
  unfolding numbered_def using order.trans by blast

lemma numbered_taken: "numbered s0 n s qs \<Longrightarrow> taken s0 n qs"
  using taken_mono by (auto simp: numbered_def)

section \<open>What is kept\<close>

definition seqs :: "u8 \<Rightarrow> (rtp_header \<times> bytes) list \<Rightarrow> u16 list" where
  "seqs pt ps = map (\<lambda>hp. rh_sequence_number (fst hp)) (filter (\<lambda>hp. rh_payload_type (fst hp) = pt) ps)"

lemma seqs_append [simp]: "seqs pt (ps @ qs) = seqs pt ps @ seqs pt qs"
  by (simp add: seqs_def)

text \<open>A packet of one of the two tracks.\<close>

definition track_header :: "u32 \<Rightarrow> u32 \<Rightarrow> rtp_header \<Rightarrow> bool" where
  "track_header a v h \<longleftrightarrow>
     (rh_payload_type h = OPUS_PAYLOAD_TYPE \<and> rh_ssrc h = a \<and> map fst (rh_extensions h) = [1, 2, 4])
     \<or> (rh_payload_type h = VP8_PAYLOAD_TYPE \<and> rh_ssrc h = v \<and> map fst (rh_extensions h) = [2, 4, 5])"

definition life_ok :: "u32 \<Rightarrow> u32 \<Rightarrow> u16 \<Rightarrow> u16 \<Rightarrow> nat \<times> nat \<Rightarrow> ('s, 'v) direct_transport \<Rightarrow> bool" where
  "life_ok a v sa sv n dt \<longleftrightarrow>
     dt_audio_ssrc dt = a \<and> dt_video_ssrc dt = v
     \<and> numbered sa (fst n) (dt_audio_seq dt) (seqs OPUS_PAYLOAD_TYPE (rtp_sent (dt_wire dt)))
     \<and> numbered sv (snd n) (dt_video_seq dt) (seqs VP8_PAYLOAD_TYPE (rtp_sent (dt_wire dt)))
     \<and> (\<forall>hp \<in> set (rtp_sent (dt_wire dt)). track_header a v (fst hp))"

text \<open>It depends on the counters, the SSRCs and the RTP packets only.\<close>

definition media_view :: "('s, 'v) direct_transport \<Rightarrow> u32 \<times> u32 \<times> u16 \<times> u16 \<times> (rtp_header \<times> bytes) list" where
  "media_view dt = (dt_audio_ssrc dt, dt_video_ssrc dt, dt_audio_seq dt, dt_video_seq dt, rtp_sent (dt_wire dt))"

lemma life_ok_view: "media_view dt' = media_view dt \<Longrightarrow> life_ok a v sa sv n dt \<Longrightarrow> life_ok a v sa sv n dt'"
  by (simp add: media_view_def life_ok_def)

section \<open>Operations that send no media\<close>

lemma view_put [simp]:
  "\<forall>h p e. d \<noteq> Rtp h p e \<Longrightarrow> media_view (dt_put s a d dt) = media_view dt"
  by (cases d) (simp_all add: media_view_def dt_put_def)

lemma view_put_all [simp]: "media_view (put_all s txs dt) = media_view dt"
  unfolding put_all_def by (induction txs arbitrary: dt) (simp_all add: case_prod_beta)

lemma view_send_reports: "media_view (send_reports lib now dest dt) = media_view dt"
proof -
  obtain c w where "send_reports lib now dest dt = dt\<lparr>dt_srtp := c, dt_wire := w\<rparr>" "rtp_sent w = rtp_sent (dt_wire dt)"
    using send_reports_frame by blast
  then show ?thesis by (simp add: media_view_def)
qed

lemma view_prepare: "media_view (prepare lib ck dt) = media_view dt"
proof -
  obtain c w e where "prepare lib ck dt = dt\<lparr>dt_epoch := e, dt_srtp := c, dt_wire := w\<rparr>"
    "rtp_sent w = rtp_sent (dt_wire dt)"
    using prepare_frame by blast
  then show ?thesis by (simp add: media_view_def)
qed

lemma view_dtls_events: "media_view (fold (dtls_event lib d a) evs dt) = media_view dt"
proof (induction evs arbitrary: dt)
  case (Cons e evs)
  have "media_view (dtls_event lib d a e dt) = media_view dt"
    by (simp add: dtls_event_def media_view_def split: option.split prod.split)
  with Cons show ?case by simp
qed simp

lemma view_srtp_packet: "media_view (handle_srtp_packet lib data dt) = media_view dt"
  by (simp add: handle_srtp_packet_def media_view_def split: option.split prod.split)

lemma view_dtls_packet: "handle_dtls_packet lib data peer d dt = (txs, d', dt') \<Longrightarrow> media_view dt' = media_view dt"
  by (auto simp: handle_dtls_packet_def view_dtls_events split: option.splits prod.splits)

lemma view_worker:
  assumes "worker_handle lib ev (w, dt) = (w', dt')"
  shows "media_view dt' = media_view dt"
proof (cases ev)
  case (Datagram data peer)
  then show ?thesis
    using assms by (cases "data = []"; cases "classify data")
      (auto simp: worker_handle_def view_srtp_packet view_dtls_packet split: option.splits prod.splits)
qed (use assms in \<open>auto simp: worker_handle_def Let_def view_send_reports split: if_splits prod.splits\<close>)

lemma view_connect:
  assumes "dt_connect_start jr ce remote dt = (r, dt')"
  shows "media_view dt' = media_view dt"
  using assms
  by (auto simp: dt_connect_start_def Let_def media_view_def dt_put_def
      split: if_splits sum.splits list.splits option.splits)

lemma view_close: "dt_close dt = (r, dt') \<Longrightarrow> media_view dt' = media_view dt"
  by (auto simp: dt_close_def media_view_def split: if_splits)

lemma view_reset: "media_view (reset_media_track_state lib dt) = media_view dt"
  by (simp add: reset_media_track_state_def media_view_def)

section \<open>Frames\<close>

lemma numbered_Suc: "numbered s0 n s qs \<Longrightarrow> numbered s0 (Suc n) (s + 1) (qs @ [s])"
  using numbered_run [of s0 n s qs 1] by simp

lemma life_send_audio:
  assumes "life_ok a v sa sv (na, nv) dt" "send_audio lib t OPUS_PAYLOAD_TYPE p d dt = (r, dt')"
  shows "life_ok a v sa sv (Suc na, nv) dt'"
proof -
  let ?h = "audio_header t OPUS_PAYLOAD_TYPE dt"
  have n: "numbered sa na (dt_audio_seq dt) (seqs OPUS_PAYLOAD_TYPE (rtp_sent (dt_wire dt)))"
    using assms(1) by (simp add: life_ok_def)
  have skip: "life_ok a v sa sv (Suc na, nv) u" if "media_view u = (dt_audio_ssrc dt, dt_video_ssrc dt, dt_audio_seq dt + 1, dt_video_seq dt, rtp_sent (dt_wire dt))" for u :: "('a, 'b) direct_transport"
    using that assms(1) numbered_skip [OF n, of 1 1] by (simp add: media_view_def life_ok_def)
  have add: "life_ok a v sa sv (Suc na, nv) u" if "media_view u = (dt_audio_ssrc dt, dt_video_ssrc dt, dt_audio_seq dt + 1, dt_video_seq dt, rtp_sent (dt_wire dt) @ [(?h, p)])" for u :: "('a, 'b) direct_transport"
    using that assms(1) numbered_Suc [OF n]
    by (auto simp: media_view_def life_ok_def seqs_def audio_header_def track_header_def media_consts)
  show ?thesis
  proof (cases "\<exists>raw ctx. wl_marshal lib ?h p = Inr raw \<and> dt_srtp dt = Some ctx")
    case False
    then show ?thesis
      using assms(2) by (intro skip) (auto simp: send_audio_def Let_def media_view_def split: sum.splits option.splits)
  next
    case True
    then obtain raw ctx where c: "wl_marshal lib ?h p = Inr raw" "dt_srtp dt = Some ctx" by blast
    obtain x ctx' where x: "wl_encrypt_rtp lib ctx raw ?h = (x, ctx')" by fastforce
    show ?thesis
    proof (cases "\<exists>enc sock addr. x = Inr enc \<and> dt_socket dt = Some sock \<and> dt_remote dt = Some addr")
      case True
      then show ?thesis
        using assms(2) c x by (intro add) (auto simp: send_audio_def Let_def media_view_def own_dest_def dt_put_def)
    next
      case False
      then show ?thesis
        using assms(2) c x
        by (intro skip) (cases x; cases "dt_socket dt"; cases "dt_remote dt"; simp add: send_audio_def Let_def media_view_def own_dest_def; auto)
    qed
  qed
qed

lemma video_packets_numbers:
  "video_packets lib t ts ssrc chunks ctx seq = (x, ctx', seq') \<Longrightarrow>
     \<exists>m \<le> length chunks. seq' = seq + of_nat m
      \<and> (\<forall>ps. x = Inr ps \<longrightarrow> m = length ps \<and> map (\<lambda>(h, _). rh_sequence_number h) ps = map (\<lambda>k. seq + of_nat k) [0..<m]
            \<and> (\<forall>(h, _) \<in> set ps. \<exists>q b. h = video_header t ts ssrc q b))"
proof (induction chunks arbitrary: ctx seq x ctx' seq')
  case Nil
  then show ?case by auto
next
  case (Cons c cs)
  let ?h = "video_header t ts ssrc seq (cs = [])"
  have one: "\<exists>m \<le> length (c # cs). seq + 1 = seq + of_nat m" by (rule exI [of _ 1]) simp
  show ?case
  proof (cases "\<exists>raw enc ctx1. wl_marshal lib ?h c = Inr raw \<and> wl_encrypt_rtp lib ctx raw ?h = (Inr enc, ctx1)")
    case False
    then have "seq' = seq + 1 \<and> (\<forall>ps. x \<noteq> Inr ps)"
      using Cons.prems by (auto simp: Let_def split: sum.splits prod.splits)
    with one show ?thesis by metis
  next
    case True
    then obtain raw enc ctx1 where s: "wl_marshal lib ?h c = Inr raw" "wl_encrypt_rtp lib ctx raw ?h = (Inr enc, ctx1)"
      by blast
    obtain y c2 s2 where y: "video_packets lib t ts ssrc cs ctx1 (seq + 1) = (y, c2, s2)" by (metis prod_cases3)
    obtain m where m: "m \<le> length cs" "s2 = seq + 1 + of_nat m"
      "\<forall>ps. y = Inr ps \<longrightarrow> m = length ps \<and> map (\<lambda>(h, _). rh_sequence_number h) ps = map (\<lambda>k. seq + 1 + of_nat k) [0..<m]
         \<and> (\<forall>(h, _) \<in> set ps. \<exists>q b. h = video_header t ts ssrc q b)"
      using Cons.IH [OF y] by blast
    have r: "seq' = s2" "x = (case y of Inl e \<Rightarrow> Inl e | Inr ps \<Rightarrow> Inr ((?h, c, enc) # ps))"
    proof -
      have "video_packets lib t ts ssrc (c # cs) ctx seq =
          (case y of Inl e \<Rightarrow> (Inl e, c2, s2) | Inr ps \<Rightarrow> (Inr ((?h, c, enc) # ps), c2, s2))"
        using s y by (cases y) (simp_all add: Let_def)
      with Cons.prems show "seq' = s2" "x = (case y of Inl e \<Rightarrow> Inl e | Inr ps \<Rightarrow> Inr ((?h, c, enc) # ps))"
        by (auto split: sum.splits)
    qed
    show ?thesis
    proof (rule exI [of _ "Suc m"], intro conjI allI impI)
      show "Suc m \<le> length (c # cs)" using m(1) by simp
      show "seq' = seq + of_nat (Suc m)" using r(1) m(2) by (simp add: algebra_simps)
      fix ps assume "x = Inr ps"
      then obtain qs where qs: "y = Inr qs" "ps = (?h, c, enc) # qs" using r(2) by (cases y) auto
      show "Suc m = length ps" using qs m(3) by simp
      show "map (\<lambda>(h, _). rh_sequence_number h) ps = map (\<lambda>k. seq + of_nat k) [0..<Suc m]"
        using qs m(3) by (simp add: map_upt_Suc video_header_def algebra_simps del: upt_Suc)
      show "\<forall>(h, _) \<in> set ps. \<exists>q b. h = video_header t ts ssrc q b" using qs m(3) by auto
    qed
  qed
qed

lemma seqs_video:
  assumes "\<forall>(h, _) \<in> set ps. \<exists>q b. h = video_header t ts ssrc q b"
  shows "seqs VP8_PAYLOAD_TYPE (map (\<lambda>(h, p, e). (h, p)) ps) = map (\<lambda>(h, _). rh_sequence_number h) ps"
    "seqs OPUS_PAYLOAD_TYPE (map (\<lambda>(h, p, e). (h, p)) ps) = []"
    "\<forall>hp \<in> set (map (\<lambda>(h, p, e). (h, p)) ps). track_header a ssrc (fst hp)"
  using assms
  by (induction ps) (auto simp: seqs_def video_header_def track_header_def media_consts)

lemma life_send_video:
  assumes "life_ok a v sa sv (na, nv) dt" "send_video lib t p d dt = (r, dt')"
  shows "life_ok a v sa sv (na, nv + (case fst (wl_vp8_payload lib (dt_payloader dt) MAX_VP8_PAYLOAD p) of
      Inl e \<Rightarrow> 0 | Inr chunks \<Rightarrow> length chunks)) dt'"
proof -
  have n: "numbered sv nv (dt_video_seq dt) (seqs VP8_PAYLOAD_TYPE (rtp_sent (dt_wire dt)))"
    using assms(1) by (simp add: life_ok_def)
  have skip: "life_ok a v sa sv (na, nv + l) u" if "m \<le> l" "media_view u = (dt_audio_ssrc dt, dt_video_ssrc dt, dt_audio_seq dt, dt_video_seq dt + of_nat m, rtp_sent (dt_wire dt))" for m l and u :: "('a, 'b) direct_transport"
    using that(2) assms(1) numbered_skip [OF n that(1)] by (simp add: media_view_def life_ok_def)
  let ?dt1 = "dt\<lparr>dt_video_ts := dt_video_ts dt + video_ts_inc d, dt_first_video := False\<rparr>"
  obtain x w where x: "wl_vp8_payload lib (dt_payloader dt) MAX_VP8_PAYLOAD p = (x, w)" by fastforce
  show ?thesis
  proof (cases "\<exists>chunks sock addr ctx. x = Inr chunks \<and> chunks \<noteq> [] \<and> dt_socket dt = Some sock
      \<and> dt_remote dt = Some addr \<and> dt_srtp dt = Some ctx")
    case False
    then have "dt' = ?dt1\<lparr>dt_payloader := w\<rparr>"
      using assms(2) x
      by (cases x; cases "dt_socket dt"; cases "dt_remote dt"; cases "dt_srtp dt")
        (auto simp: send_video_def Let_def own_dest_def split: if_splits)
    then show ?thesis by (intro skip [of 0]) (simp_all add: media_view_def)
  next
    case True
    then obtain chunks sock addr ctx where c: "x = Inr chunks" "chunks \<noteq> []" "dt_socket dt = Some sock"
      "dt_remote dt = Some addr" "dt_srtp dt = Some ctx" by blast
    obtain y ctx' s' where y: "video_packets lib t (dt_video_ts dt) (dt_video_ssrc dt) chunks ctx (dt_video_seq dt) = (y, ctx', s')"
      by (metis prod_cases3)
    obtain m where m: "m \<le> length chunks" "s' = dt_video_seq dt + of_nat m"
      "\<forall>ps. y = Inr ps \<longrightarrow> m = length ps
         \<and> map (\<lambda>(h, _). rh_sequence_number h) ps = map (\<lambda>k. dt_video_seq dt + of_nat k) [0..<m]
         \<and> (\<forall>(h, _) \<in> set ps. \<exists>q b. h = video_header t (dt_video_ts dt) (dt_video_ssrc dt) q b)"
      using video_packets_numbers [OF y] by blast
    let ?dt2 = "?dt1\<lparr>dt_payloader := w, dt_srtp := Some ctx', dt_video_seq := s'\<rparr>"
    show ?thesis
    proof (cases y)
      case (Inl e)
      then have "dt' = ?dt2" using assms(2) x c y by (simp add: send_video_def own_dest_def Let_def)
      then show ?thesis using m(1) by (intro skip [of m]) (simp_all add: media_view_def m(2) x c(1))
    next
      case (Inr ps)
      then have dt': "dt' = fold (put_video sock addr) ps ?dt2"
        using assms(2) x c y by (simp add: send_video_def own_dest_def Let_def)
      have ps: "m = length ps" "\<forall>(h, _) \<in> set ps. \<exists>q b. h = video_header t (dt_video_ts dt) (dt_video_ssrc dt) q b"
        "map (\<lambda>(h, _). rh_sequence_number h) ps = map (\<lambda>k. dt_video_seq dt + of_nat k) [0..<m]"
        using m(3) Inr by blast+
      have "media_view dt' = (dt_audio_ssrc dt, dt_video_ssrc dt, dt_audio_seq dt, dt_video_seq dt + of_nat m,
          rtp_sent (dt_wire dt) @ map (\<lambda>(h, p, e). (h, p)) ps)"
        by (simp add: dt' media_view_def put_video_fold put_video_fold_fields m(2))
      moreover have "\<forall>hp \<in> set (map (\<lambda>(h, p, e). (h, p)) ps). track_header a v (fst hp)"
        using seqs_video(3) [OF ps(2), of a] assms(1) by (simp only: life_ok_def)
      ultimately show ?thesis
        using assms(1) numbered_mono [OF numbered_run [OF n, of m], of "nv + length chunks"] m(1)
          seqs_video(1,2) [OF ps(2)] ps(3)
        by (simp add: media_view_def life_ok_def ball_Un x c(1) del: set_map)
    qed
  qed
qed

lemma life_send:
  assumes "life_ok a v sa sv n dt" "send_rtp_bytes lib ck pt p d dt = (r, dt')"
  shows "life_ok a v sa sv (use_numbers lib pt p dt n) dt'"
proof -
  obtain na nv where n: "n = (na, nv)" by (cases n)
  show ?thesis
  proof (cases "dt_closed dt")
    case True
    with assms n show ?thesis by (simp add: send_rtp_bytes_def)
  next
    case False
    have "life_ok a v sa sv n (prepare lib ck dt)" using life_ok_view [OF view_prepare assms(1)] .
    moreover have "dt_payloader (prepare lib ck dt) = dt_payloader dt" using prepare_frame [of lib ck dt] by auto
    ultimately show ?thesis
      using assms(2) False life_send_audio [of a v sa sv na nv "prepare lib ck dt" lib _ p d r dt']
        life_send_video [of a v sa sv na nv "prepare lib ck dt" lib _ p d r dt']
      unfolding n send_rtp_bytes_prepare [OF False] by (cases "pt = OPUS_PAYLOAD_TYPE") (simp_all del: One_nat_def)
  qed
qed

lemma life_invariant:
  assumes "transport_life lib jr (dt_new_with_ssrc lib0 rd fp a v) (ws, dt, n)"
  shows "life_ok a v (rd_audio_seq rd) (rd_video_seq rd) n dt"
  using assms
proof (induction "(ws, dt, n)" arbitrary: ws dt n rule: transport_life.induct)
  case fresh
  show ?case by (simp add: dt_new_with_ssrc_def life_ok_def seqs_def numbered_init)
next
  case (sent ws dt n ck pt p d r dt')
  then show ?case using life_send by blast
next
  case (connected ws dt n ce remote r dt')
  then show ?case using life_ok_view [OF view_connect] by blast
next
  case (worked ws dt n i ev w dt')
  then show ?case using life_ok_view [OF view_worker] by blast
next
  case (reset ws dt n)
  then show ?case using life_ok_view [OF view_reset] by blast
next
  case (closed ws dt n r dt')
  then show ?case using life_ok_view [OF view_close] by blast
qed

section \<open>What Telegram can rely on\<close>

text \<open>What the packets \<open>ps\<close> and the local parameters \<open>lp\<close> have to do with each other.\<close>

definition announced :: "local_params \<Rightarrow> (rtp_header \<times> bytes) list \<Rightarrow> bool" where
  "announced lp ps \<longleftrightarrow>
     (\<forall>(h, p) \<in> set ps.
        rh_payload_type h \<in> set (map pt_id (lp_payload_types lp))
        \<and> rh_ssrc h = (if rh_payload_type h = OPUS_PAYLOAD_TYPE then lp_ssrc lp
                       else hd (concat (map sg_sources (lp_ssrc_groups lp))))
        \<and> set (map fst (rh_extensions h)) \<subseteq> set (map he_id (lp_rtp_hdrexts lp))
        \<and> distinct (map fst (rh_extensions h)))"

text \<open>
  Every packet is one that was announced.  In the whole life of a transport, whatever the
  libraries answer and however connecting, the workers, frames of both kinds, resets and closing
  are interleaved, each RTP packet that reaches the wire has a payload type, an SSRC for that
  payload type and header extensions, none twice, that the local parameters told Telegram of;
  and the sequence numbers of a track come from a counter that is never set back: one step for
  each Opus frame handed over, and for each chunk of a VP8 frame, so that no number comes twice
  within \<open>2 ^ 16\<close> of them.
\<close>

theorem packets_as_announced:
  assumes "dt0 = dt_new_with_ssrc lib0 rd fp a v" "v \<noteq> 0"
    and "build_local_params (dt_ufrag dt0) (dt_pwd dt0) (dt_fingerprint dt0) (dt_audio_ssrc dt0) (dt_video_ssrc dt0) = Inr lp"
    and "transport_life lib jr dt0 (ws, dt, na, nv)"
  shows "announced lp (rtp_sent (dt_wire dt))
    \<and> taken (rd_audio_seq rd) na (seqs OPUS_PAYLOAD_TYPE (rtp_sent (dt_wire dt)))
    \<and> taken (rd_video_seq rd) nv (seqs VP8_PAYLOAD_TYPE (rtp_sent (dt_wire dt)))"
proof -
  have ok: "life_ok a v (rd_audio_seq rd) (rd_video_seq rd) (na, nv) dt"
    using life_invariant assms(4) unfolding assms(1) by blast
  have "dt_audio_ssrc dt0 = a" "dt_video_ssrc dt0 = v" by (simp_all add: assms(1) dt_new_with_ssrc_def)
  then have lp: "lp_ssrc lp = a" "map pt_id (lp_payload_types lp) = [111, 100]" "map he_id (lp_rtp_hdrexts lp) = [1, 2, 3, 4, 5]"
    "concat (map sg_sources (lp_ssrc_groups lp)) = [v, v + 1]"
    using local_params_announce assms(2,3) by auto
  have "rh_payload_type h \<in> {111, 100} \<and> rh_ssrc h = (if rh_payload_type h = OPUS_PAYLOAD_TYPE then a else v)
      \<and> set (map fst (rh_extensions h)) \<subseteq> {1, 2, 3, 4, 5} \<and> distinct (map fst (rh_extensions h))"
    if "(h, p) \<in> set (rtp_sent (dt_wire dt))" for h p
  proof -
    have "track_header a v h" using ok that by (fastforce simp: life_ok_def)
    then show ?thesis unfolding track_header_def by (elim disjE) (simp_all add: media_consts)
  qed
  then have "\<forall>(h, p) \<in> set (rtp_sent (dt_wire dt)). rh_payload_type h \<in> set [111, 100]
      \<and> rh_ssrc h = (if rh_payload_type h = OPUS_PAYLOAD_TYPE then a else hd [v, v + 1])
      \<and> set (map fst (rh_extensions h)) \<subseteq> set [1, 2, 3, 4, 5] \<and> distinct (map fst (rh_extensions h))"
    by fastforce
  moreover have "taken (rd_audio_seq rd) na (seqs OPUS_PAYLOAD_TYPE (rtp_sent (dt_wire dt)))"
    "taken (rd_video_seq rd) nv (seqs VP8_PAYLOAD_TYPE (rtp_sent (dt_wire dt)))"
    using ok numbered_taken by (auto simp: life_ok_def)
  ultimately show ?thesis unfolding announced_def lp by blast
qed

text \<open>The example library connects any fresh transport.\<close>

lemma example_connects:
  assumes "dt0 = dt_new_with_ssrc echo_lib echo_draw fp a v"
  shows "\<exists>w dt1 w2 dt2. dt_connect_start example_json example_env ''json'' dt0 = (Inr w, dt1)
    \<and> worker_handle echo_lib (Datagram [22] echo_addr) (w, dt1) = (w2, dt2)
    \<and> dt_ready dt2 \<and> dt_current_state dt2 = Connected \<and> media_view dt2 = media_view dt0
    \<and> dt_audio_ts dt2 = 0 \<and> dt_first_audio dt2"
proof -
  obtain w dt1 where c: "dt_connect_start example_json example_env ''json'' dt0 = (Inr w, dt1)"
    "\<not> dt_closed dt1" "dt_srtp dt1 = None" "dt_socket dt1 = Some 5" "dt_remote dt1 \<noteq> None" "media_view dt1 = media_view dt0"
    "dt_audio_ts dt1 = 0" "dt_first_audio dt1"
    by (simp add: assms dt_connect_start_def example_json_def example_env_def example_remote_def media_view_def
        parse_remote_json_def parse_remote_def example_candidate_addr dt_put_def dt_new_with_ssrc_def Let_def)
  obtain w2 dt2 where d: "worker_handle echo_lib (Datagram [22] echo_addr) (w, dt1) = (w2, dt2)" by fastforce
  have derive: "\<exists>p. derive_srtp_from_dtls echo_lib u peer = Some p" for u peer
    by (simp add: derive_srtp_from_dtls_def echo_lib_def derive_srtp_keying_material_both_def Let_def slice_at_def)
  obtain enc dec prof where "derive_srtp_from_dtls echo_lib (wk_dtls w) echo_addr = Some (enc, dec, prof)"
    using derive by (metis prod_cases3)
  moreover have "classify [22] = Dtls_packet" by (simp add: classify_def)
  moreover have "wl_dtls_read echo_lib u data peer = (Some [True], u)" "wl_dtls_poll echo_lib u = ([], u)" for u data peer
    by (simp_all add: echo_lib_def)
  ultimately have "dt2 = dt1\<lparr>dt_srtp := Some enc, dt_decrypt := Some dec, dt_state := conn_state_i32 Connected\<rparr>"
    using d c(3) by (simp add: worker_handle_def handle_dtls_packet_def dtls_event_def put_all_def)
  with c have "dt_ready dt2" "dt_current_state dt2 = Connected" "media_view dt2 = media_view dt0" "dt_audio_ts dt2 = 0" "dt_first_audio dt2"
    by (auto simp: dt_ready_def own_dest_def media_view_def dt_current_state_def conn_state_of_i32_def)
  with c(1) d show ?thesis by blast
qed

lemma example_life:
  "\<exists>ws dt. transport_life echo_lib example_json (dt_new_with_ssrc echo_lib echo_draw ''AB'' 7 9) (ws, dt, 1, 0)
     \<and> map audio_view (rtp_sent (dt_wire dt)) = [(111, 1000, 0, 7, True, [1])]"
proof -
  let ?dt0 = "dt_new_with_ssrc echo_lib echo_draw ''AB'' 7 9"
  obtain w dt1 w2 dt2 where c: "dt_connect_start example_json example_env ''json'' ?dt0 = (Inr w, dt1)"
    and d: "worker_handle echo_lib (Datagram [22] echo_addr) (w, dt1) = (w2, dt2)"
    and dt2: "dt_ready dt2" "media_view dt2 = media_view ?dt0" "dt_audio_ts dt2 = 0" "dt_first_audio dt2"
    using example_connects [OF refl] by blast
  have l1: "transport_life echo_lib example_json ?dt0 ([w], dt1, 0, 0)"
    using transport_life.connected [OF transport_life.fresh c] by simp
  have l2: "transport_life echo_lib example_json ?dt0 ([w2], dt2, 0, 0)"
    using transport_life.worked [OF l1, of 0, simplified, OF d] by simp
  obtain dt3 where dt3: "send_rtp_bytes echo_lib echo_clock OPUS_PAYLOAD_TYPE [1] 20000000 dt2 = (Inr (), dt3)"
    "map audio_view (rtp_sent (dt_wire dt3)) = map audio_view (rtp_sent (dt_wire dt2)) @
        [(OPUS_PAYLOAD_TYPE, dt_audio_seq dt2, dt_audio_ts dt2, dt_audio_ssrc dt2, dt_first_audio dt2, [1])]"
    using send_audio_ok [OF echo_total dt2(1)] by blast
  have "use_numbers echo_lib OPUS_PAYLOAD_TYPE [1] dt2 (0, 0) = (1, 0)" using dt2(1) by (simp add: dt_ready_def)
  with transport_life.sent [OF l2 dt3(1)] have l3: "transport_life echo_lib example_json ?dt0 ([w2], dt3, 1, 0)" by simp
  have "map audio_view (rtp_sent (dt_wire dt3)) = [(111, 1000, 0, 7, True, [1])]"
    using dt3(2) dt2 by (auto simp: media_view_def dt_new_with_ssrc_def echo_draw_def media_consts)
  with l3 show ?thesis by (intro exI conjI)
qed

lemma packets_as_announced_witness:
  "\<exists>ws dt. transport_life echo_lib example_json (dt_new_with_ssrc echo_lib echo_draw ''AB'' 7 9) (ws, dt, 1, 0)
     \<and> map audio_view (rtp_sent (dt_wire dt)) = [(111, 1000, 0, 7, True, [1])]
     \<and> taken 1000 1 (seqs OPUS_PAYLOAD_TYPE (rtp_sent (dt_wire dt)))"
proof -
  let ?dt0 = "dt_new_with_ssrc echo_lib echo_draw ''AB'' 7 9"
  obtain ws dt where l: "transport_life echo_lib example_json ?dt0 (ws, dt, 1, 0)"
    "map audio_view (rtp_sent (dt_wire dt)) = [(111, 1000, 0, 7, True, [1])]"
    using example_life by (elim exE conjE)
  have "dt_ufrag ?dt0 \<noteq> []" "dt_pwd ?dt0 \<noteq> []" "dt_fingerprint ?dt0 \<noteq> []" "dt_audio_ssrc ?dt0 \<noteq> 0"
    by (simp_all add: dt_new_with_ssrc_def echo_draw_def)
  then have "is_ok (build_local_params (dt_ufrag ?dt0) (dt_pwd ?dt0) (dt_fingerprint ?dt0) (dt_audio_ssrc ?dt0) (dt_video_ssrc ?dt0))"
    using local_params_announce by blast
  then obtain lp where "build_local_params (dt_ufrag ?dt0) (dt_pwd ?dt0) (dt_fingerprint ?dt0) (dt_audio_ssrc ?dt0) (dt_video_ssrc ?dt0) = Inr lp"
    by (auto simp: is_ok_iff)
  from packets_as_announced [OF refl _ this l(1)]
  have "taken (rd_audio_seq echo_draw) 1 (seqs OPUS_PAYLOAD_TYPE (rtp_sent (dt_wire dt)))" by simp
  moreover have "rd_audio_seq echo_draw = 1000" by (simp add: echo_draw_def)
  ultimately have "taken 1000 1 (seqs OPUS_PAYLOAD_TYPE (rtp_sent (dt_wire dt)))" by (simp only:)
  with l show ?thesis by (intro exI conjI)
qed

section \<open>The fingerprint of the peer\<close>

text \<open>
  Remote parameters with the contents of their fingerprints blotted out: what is left of one is
  whether it is empty.
\<close>

definition blot :: "fingerprint \<Rightarrow> fingerprint" where
  "blot f = \<lparr>fp_hash = [], fp_setup = [], fp_fingerprint = (if fp_fingerprint f = [] then [] else ''*'')\<rparr>"

definition blotted :: "error + remote_params \<Rightarrow> error + remote_params" where
  "blotted = map_sum id (\<lambda>rp. rp\<lparr>rp_fingerprints := map blot (rp_fingerprints rp)\<rparr>)"

lemma blot_emptiness: "blot f = blot f' \<Longrightarrow> (fp_fingerprint f = []) = (fp_fingerprint f' = [])"
  by (auto simp: blot_def split: if_splits)

lemma blotted_cases:
  assumes "blotted x = blotted y"
  obtains e where "x = Inl e" "y = Inl e"
  | rp rp' where "x = Inr rp" "y = Inr rp'" "rp_ufrag rp = rp_ufrag rp'" "rp_pwd rp = rp_pwd rp'"
      "rp_candidates rp = rp_candidates rp'" "map blot (rp_fingerprints rp) = map blot (rp_fingerprints rp')"
proof (cases x)
  case (Inl e)
  with assms that(1) show ?thesis by (cases y) (simp_all add: blotted_def)
next
  case x: (Inr rp)
  then obtain rp' where y: "y = Inr rp'" using assms by (cases y) (simp_all add: blotted_def)
  have "rp\<lparr>rp_fingerprints := map blot (rp_fingerprints rp)\<rparr> = rp'\<lparr>rp_fingerprints := map blot (rp_fingerprints rp')\<rparr>"
    using assms by (simp add: x y blotted_def)
  then show ?thesis using that(2) [OF x y] by (cases rp; cases rp') simp
qed

lemma connect_start_blotted:
  assumes "blotted (parse_remote_json jr remote) = blotted (parse_remote_json jr' remote)"
  shows "dt_connect_start jr ce remote dt = dt_connect_start jr' ce remote dt"
  using assms
proof (cases rule: blotted_cases)
  case (1 e)
  then show ?thesis by (simp add: dt_connect_start_def)
next
  case (2 rp rp')
  show ?thesis
  proof (cases "rp_fingerprints rp")
    case Nil
    then have "rp_fingerprints rp' = []" using 2(6) by simp
    with Nil 2 show ?thesis by (simp add: dt_connect_start_def)
  next
    case (Cons f fs)
    then obtain f' fs' where "rp_fingerprints rp' = f' # fs'" "blot f = blot f'"
      using 2(6) by (cases "rp_fingerprints rp'") auto
    with Cons 2 blot_emptiness [of f f'] show ?thesis
      by (simp only: dt_connect_start_def Let_def sum.case list.case)
  qed
qed

lemma life_blotted:
  assumes "\<And>remote. blotted (parse_remote_json jr remote) = blotted (parse_remote_json jr' remote)"
    and "transport_life lib jr dt0 s"
  shows "transport_life lib jr' dt0 s"
  using assms(2)
proof induction
  case fresh
  show ?case by (rule transport_life.fresh)
next
  case (connected ws dt n ce remote r dt')
  then show ?case using connect_start_blotted [OF assms(1)] transport_life.connected by metis
next
  case worked
  then show ?case using transport_life.worked by metis
next
  case sent
  then show ?case using transport_life.sent by metis
next
  case reset
  then show ?case using transport_life.reset by metis
next
  case closed
  then show ?case using transport_life.closed by metis
qed

text \<open>
  C18. The peer is not authenticated.  Let two readers agree on every text up to the contents of
  the fingerprints (which of them are empty included).  Then a transport has the same lives with
  both: connecting, every round of the workers, every packet and every state are the same, so a
  peer with any certificate is connected to, whatever fingerprint the signaling announced.  (The
  DTLS configuration skips the verification of the certificate, \<open>with_insecure_skip_verify\<close>, and
  the fingerprint is only tested for being there.)
\<close>

theorem fingerprint_unchecked:
  assumes "\<And>remote. blotted (parse_remote_json jr remote) = blotted (parse_remote_json jr' remote)"
  shows "transport_life lib jr dt0 = transport_life lib jr' dt0"
proof
  show "transport_life lib jr dt0 s = transport_life lib jr' dt0 s" for s
    using life_blotted assms by metis
qed

text \<open>A reader whose parameters hold the fingerprint of another certificate.\<close>

definition forged_json :: json_reader where
  "forged_json = example_json\<lparr>jr_simd :=
     (\<lambda>s. Inr (example_remote\<lparr>tp_fingerprints := [\<lparr>fp_hash = ''sha-1'', fp_setup = [], fp_fingerprint = ''FF''\<rparr>]\<rparr>))\<rparr>"

lemma forged_blotted:
  "blotted (parse_remote_json example_json remote) = blotted (parse_remote_json forged_json remote)"
  by (simp add: blotted_def blot_def forged_json_def example_json_def example_remote_def
      parse_remote_json_def parse_remote_def)

lemma fingerprint_unchecked_witness:
  "\<exists>ws dt. transport_life echo_lib forged_json (dt_new_with_ssrc echo_lib echo_draw ''AB'' 7 9) (ws, dt, 1, 0)
     \<and> map audio_view (rtp_sent (dt_wire dt)) = [(111, 1000, 0, 7, True, [1])]"
  unfolding fingerprint_unchecked [OF forged_blotted, symmetric] by (rule example_life)

end
