(* ===== verification/Call_Life.thy ===== *)
theory Call_Life
  imports Client Transport_Life Media_Path
begin

text \<open>
  The whole life of a group call, from the moment the client has created it: the calls of the
  client, connecting, the worker, the tasks of the streamers, frames that a replaced streamer
  still sends, and closing.  A life of the call is a life of its transport, so what
  \<open>Transport_Life\<close> shows of the packets holds for the JSON that \<open>create_call\<close> has returned.
\<close>

section \<open>Lives of a call\<close>

abbreviation with_direct :: "('s, 'v) direct_transport \<Rightarrow> ('s, 'v) group_call \<Rightarrow> ('s, 'v) group_call" where
  "with_direct dt g \<equiv> g\<lparr>gp_stack := gp_stack g\<lparr>sk_direct := dt\<rparr>\<rparr>"

text \<open>The frame that a step of the tasks hands to the transport, if it does, with its payload type.\<close>

definition frame_in_hand :: "'r streamer \<Rightarrow> bytes option" where
  "frame_in_hand s =
     (case sm_pacer s of Pc_send x \<Rightarrow> if sm_muted s then None else Some (sm_data x) | _ \<Rightarrow> None)"

fun handed :: "gp_action \<Rightarrow> ('s, 'v) group_call \<Rightarrow> (u8 \<times> bytes) option" where
  "handed (Audio_pace ck) g = map_option (Pair OPUS_PAYLOAD_TYPE) (Option.bind (gp_audio g) frame_in_hand)"
| "handed (Video_pace ck) g = map_option (Pair VP8_PAYLOAD_TYPE) (Option.bind (gp_video g) frame_in_hand)"
| "handed _ g = None"

definition step_numbers ::
  "('s, 'v, 'd) wire_lib \<Rightarrow> gp_action \<Rightarrow> ('s, 'v) group_call \<Rightarrow> nat \<times> nat \<Rightarrow> nat \<times> nat" where
  "step_numbers lib b g n =
     (case handed b g of None \<Rightarrow> n | Some (pt, p) \<Rightarrow> use_numbers lib pt p (sk_direct (gp_stack g)) n)"

text \<open>
  The workers, the call, and the sequence numbers used, as in \<open>transport_life\<close>.  \<open>set_source\<close> is
  two steps when it waits for the connection: \<open>sourced\<close> is the whole call when there is nothing to
  wait for, \<open>resumed\<close> its rest after the wait.  \<open>late\<close> is a frame of a streamer that has been
  replaced.
\<close>

inductive group_life ::
  "('s, 'v, 'd) wire_lib \<Rightarrow> json_reader \<Rightarrow> ('s, 'v) group_call \<Rightarrow>
     'd worker list \<times> ('s, 'v) group_call \<times> nat \<times> nat \<Rightarrow> bool"
  for lib :: "('s, 'v, 'd) wire_lib" and jr :: json_reader and g0 :: "('s, 'v) group_call" where
  created: "group_life lib jr g0 ([], g0, 0, 0)"
| tasks: "group_life lib jr g0 (ws, g, n) \<Longrightarrow> gp_step lib b g = Some g' \<Longrightarrow>
    group_life lib jr g0 (ws, g', step_numbers lib b g n)"
| connecting: "group_life lib jr g0 (ws, g, n) \<Longrightarrow> gp_connect_start jr ce remote g = (r, g') \<Longrightarrow>
    group_life lib jr g0 (case r of Inl e \<Rightarrow> ws | Inr w \<Rightarrow> ws @ [w], g', n)"
| polled: "group_life lib jr g0 (ws, g, n) \<Longrightarrow> gp_connect_poll timed_out g = Some (r, g') \<Longrightarrow>
    group_life lib jr g0 (ws, g', n)"
| worker: "group_life lib jr g0 (ws, g, n) \<Longrightarrow> i < length ws \<Longrightarrow>
    worker_handle lib ev (ws ! i, sk_direct (gp_stack g)) = (w, dt) \<Longrightarrow>
    group_life lib jr g0 (ws[i := w], with_direct dt g, n)"
| sourced: "group_life lib jr g0 (ws, g, n) \<Longrightarrow> gp_set_source lib id now streams g = (r, g') \<Longrightarrow>
    group_life lib jr g0 (ws, g', n)"
| resumed: "group_life lib jr g0 (ws, g, n) \<Longrightarrow> stack_state (gp_stack g) = Connected \<Longrightarrow>
    group_life lib jr g0 (ws, gp_install lib now streams g, n)"
| late: "group_life lib jr g0 (ws, g, n) \<Longrightarrow> send_rtp_bytes lib ck pt p d (sk_direct (gp_stack g)) = (r, dt) \<Longrightarrow>
    group_life lib jr g0 (ws, with_direct dt g, use_numbers lib pt p (sk_direct (gp_stack g)) n)"
| ended: "group_life lib jr g0 (ws, g, n) \<Longrightarrow> group_life lib jr g0 (ws, gp_handle_streamer_end e g, n)"
| stopped: "group_life lib jr g0 (ws, g, n) \<Longrightarrow> gp_stop g = (r, g') \<Longrightarrow> group_life lib jr g0 (ws, g', n)"
| closing: "group_life lib jr g0 (ws, g, n) \<Longrightarrow> gp_run_close g = Some g' \<Longrightarrow> group_life lib jr g0 (ws, g', n)"

section \<open>What happens to the transport\<close>

lemma gp_submit_stack [simp]: "gp_stack (gp_submit evs g) = gp_stack g"
  by (simp add: gp_submit_def split: option.splits)

lemma gp_on_states_stack [simp]: "gp_stack (gp_on_states calls g) = gp_stack g"
  unfolding gp_on_states_def
  by (induction calls arbitrary: g) (simp_all add: case_prod_beta gp_on_state_def Let_def)

lemma gp_handle_end_stack: "gp_stack (gp_handle_streamer_end e g) = gp_stack g"
  by (simp add: gp_handle_streamer_end_def Let_def)

lemma gp_stop_stack: "gp_stop g = (r, g') \<Longrightarrow> gp_stack g' = gp_stack g"
  by (auto simp: gp_stop_def split: if_splits)

lemma gp_poll_stack: "gp_connect_poll timed_out g = Some (r, g') \<Longrightarrow> gp_stack g' = gp_stack g"
  by (auto simp: gp_connect_poll_def split: option.splits sum.splits prod.splits)

lemma gp_connect_direct:
  "gp_connect_start jr ce remote g = (r, g') \<Longrightarrow>
     (g' = g \<and> (\<exists>e. r = Inl e)) \<or> dt_connect_start jr ce remote (sk_direct (gp_stack g)) = (r, sk_direct (gp_stack g'))"
  by (auto simp: gp_connect_start_def stack_connect_start_def split: if_splits prod.splits)

lemma gp_close_direct:
  "gp_run_close g = Some g' \<Longrightarrow> \<exists>r. dt_close (sk_direct (gp_stack g)) = (r, sk_direct (gp_stack g'))"
  by (auto simp: gp_run_close_def stack_close_def split: nat.splits prod.splits sum.splits)

lemma gp_install_direct:
  "sk_direct (gp_stack (gp_install lib now streams g)) = reset_media_track_state lib (sk_direct (gp_stack g))"
  by (simp add: gp_install_def gp_fire_upgrade_if_changed_def stack_reset_media_def Let_def)

lemma gp_source_direct:
  "gp_set_source lib id now streams g = (r, g') \<Longrightarrow> g' = g \<or> g' = gp_install lib now streams g"
  by (auto simp: gp_set_source_def Let_def split: if_splits)

lemma pace_direct:
  assumes "pace_with lib ck pt s st = (t, st')"
  shows "case frame_in_hand s of
      None \<Rightarrow> st' = st
    | Some p \<Rightarrow> \<exists>d r. send_rtp_bytes lib ck pt p d (sk_direct st) = (r, sk_direct st')"
proof (cases "sm_pacer s")
  case (Pc_send x)
  obtain r dt' where "send_rtp_bytes lib ck pt (sm_data x) (sm_duration x) (sk_direct st) = (r, dt')" by fastforce
  then show ?thesis
    using assms Pc_send
    by (cases "sm_muted s")
      (auto simp: pace_with_def frame_in_hand_def stack_send_rtp_bytes_def intro!: exI [of _ "sm_duration x"])
qed (use assms in \<open>simp_all add: pace_with_def frame_in_hand_def\<close>)

text \<open>A step of the tasks leaves the transport alone or sends the frame it has in hand.\<close>

lemma gp_step_direct:
  assumes "gp_step lib b g = Some g'"
  shows "case handed b g of
      None \<Rightarrow> gp_stack g' = gp_stack g
    | Some (pt, p) \<Rightarrow> \<exists>ck d r. send_rtp_bytes lib ck pt p d (sk_direct (gp_stack g)) = (r, sk_direct (gp_stack g'))"
proof (cases b)
  case (Audio_pace ck)
  then obtain a t st' where a: "gp_audio g = Some a"
    "pace_with lib ck OPUS_PAYLOAD_TYPE a (gp_stack g) = (t, st')" "gp_stack g' = st'"
    using assms by (auto split: option.splits prod.splits)
  from pace_direct [OF a(2)] show ?thesis using a Audio_pace by (cases "frame_in_hand a") auto
next
  case (Video_pace ck)
  then obtain v t st' where v: "gp_video g = Some v"
    "pace_with lib ck VP8_PAYLOAD_TYPE v (gp_stack g) = (t, st')" "gp_stack g' = st'"
    using assms by (auto split: option.splits prod.splits)
  from pace_direct [OF v(2)] show ?thesis using v Video_pace by (cases "frame_in_hand v") auto
next
  case (Call_op op)
  with assms gp_perform_streamers [of op g] show ?thesis by auto
qed (use assms in \<open>auto split: option.splits if_splits\<close>)

lemma life_of_direct:
  assumes "group_life lib jr g0 (ws, g, n)"
  shows "transport_life lib jr (sk_direct (gp_stack g0)) (ws, sk_direct (gp_stack g), n)"
  using assms
proof (induction "(ws, g, n)" arbitrary: ws g n rule: group_life.induct)
  case created
  show ?case by (rule transport_life.fresh)
next
  case (tasks ws g n b g')
  show ?case
  proof (cases "handed b g")
    case None
    with gp_step_direct [OF tasks(3)] tasks(2) show ?thesis by (simp add: step_numbers_def)
  next
    case (Some f)
    obtain pt p where f: "f = (pt, p)" by (cases f)
    obtain ck d r where "send_rtp_bytes lib ck pt p d (sk_direct (gp_stack g)) = (r, sk_direct (gp_stack g'))"
      using gp_step_direct [OF tasks(3)] Some f by auto
    from transport_life.sent [OF tasks(2) this] Some f show ?thesis by (simp add: step_numbers_def)
  qed
next
  case (connecting ws g n ce remote r g')
  from gp_connect_direct [OF connecting(3)] show ?case
    using connecting(2) transport_life.connected [OF connecting(2)] by auto
next
  case (polled ws g n timed_out r g')
  then show ?case using gp_poll_stack by metis
next
  case (worker ws g n i ev w dt)
  then show ?case using transport_life.worked by fastforce
next
  case (sourced ws g n now streams r g')
  then show ?case
    using gp_source_direct [OF sourced(3)] transport_life.reset [OF sourced(2)] by (auto simp: gp_install_direct)
next
  case (resumed ws g n now streams)
  then show ?case using transport_life.reset by (simp add: gp_install_direct)
next
  case (late ws g n ck pt p d r dt)
  then show ?case using transport_life.sent by fastforce
next
  case (ended ws g n e)
  then show ?case by (simp add: gp_handle_end_stack)
next
  case (stopped ws g n r g')
  then show ?case using gp_stop_stack by metis
next
  case (closing ws g n g')
  then show ?case using gp_close_direct [OF closing(3)] transport_life.closed by blast
qed

section \<open>What the client has announced\<close>

lemma json_written:
  assumes "build_local_params_json jw u p f a v = Inr json"
  shows "\<exists>lp. build_local_params u p f a v = Inr lp \<and> (jw_simd jw lp = Inr json \<or> jw_serde jw lp = Inr json)"
proof -
  obtain lp where lp: "build_local_params u p f a v = Inr lp"
    "(case jw_simd jw lp of Inr s \<Rightarrow> Inr s | Inl _ \<Rightarrow> (case jw_serde jw lp of Inr s \<Rightarrow> Inr s | Inl e \<Rightarrow> Inl (Internal e))) = Inr json"
    using assms by (auto simp: build_local_params_json_def bind_res_Inr_iff)
  then show ?thesis by (cases "jw_simd jw lp"; cases "jw_serde jw lp") auto
qed

text \<open>The call that \<open>create_call\<close> puts into the map, and its JSON.\<close>

lemma created_call:
  assumes "client_create_call env chat c = (Inr json, c')" "cl_calls c' chat = Some (Group g0)"
  shows "\<exists>fp lp. sk_direct (gp_stack g0) = dt_new_with_ssrc (ne_lib env) (ne_draw env) fp (fst (ne_ssrcs env)) (snd (ne_ssrcs env))
    \<and> build_local_params (dt_ufrag (sk_direct (gp_stack g0))) (dt_pwd (sk_direct (gp_stack g0)))
         (dt_fingerprint (sk_direct (gp_stack g0))) (dt_audio_ssrc (sk_direct (gp_stack g0)))
         (dt_video_ssrc (sk_direct (gp_stack g0))) = Inr lp
    \<and> (jw_simd (ne_writer env) lp = Inr json \<or> jw_serde (ne_writer env) lp = Inr json)"
proof -
  have f: "client_create_finish env chat c = (Inr json, c')"
    using assms(1) by (auto simp: client_create_call_def split: sum.splits)
  obtain x f' where n: "gp_new (ne_lib env) (ne_draw env) (ne_ssrcs env) (ne_gen env) chat (cl_factory c) None
      (unat (co_connect_timeout_secs (cl_options c)) * 1000000000)
      \<lparr>ge_on_stream_end = cl_on_stream_end c, ge_on_connection_change = False, ge_on_upgrade = False\<rparr> = (x, f')"
    by fastforce
  obtain g where g: "x = Inr g" using f n by (cases x) (simp_all add: client_create_finish_def)
  have p: "gp_create_local_params (ne_writer env) g = Inr json" "g = g0"
    using f n g assms(2) by (auto simp: client_create_finish_def split: sum.splits)
  obtain fp where "sk_direct (gp_stack g0) = dt_new_with_ssrc (ne_lib env) (ne_draw env) fp (fst (ne_ssrcs env)) (snd (ne_ssrcs env))"
    using n g p(2) by (auto simp: gp_new_def stack_new_def dt_new_def set_on_state_change_def split: sum.splits prod.splits)
  moreover have "build_local_params_json (ne_writer env) (dt_ufrag (sk_direct (gp_stack g0))) (dt_pwd (sk_direct (gp_stack g0)))
      (dt_fingerprint (sk_direct (gp_stack g0))) (dt_audio_ssrc (sk_direct (gp_stack g0)))
      (dt_video_ssrc (sk_direct (gp_stack g0))) = Inr json"
    using p by (simp add: gp_create_local_params_def get_local_params_json_def dt_build_local_params_def split: if_splits)
  ultimately show ?thesis using json_written by blast
qed

text \<open>
  C5. Every packet is one that was announced.  The client has created a call and got the JSON for
  Telegram.  Whatever the call goes through after that, whatever the libraries answer and however
  connecting, the worker, the tasks of its streamers and of those that were replaced, \<open>set_source\<close>,
  pausing, muting, stopping and closing are interleaved: each RTP packet that reaches the wire has
  a payload type, the SSRC for it and header extensions, none twice, that are in the parameters
  written as that JSON.  And the sequence numbers of a track come from one counter that is never set
  back, whatever source plays: \<open>na\<close> Opus frames have been handed over, and \<open>nv\<close> chunks of VP8
  frames, and the packets were numbered at increasing ones of these \<open>na\<close> or \<open>nv\<close> steps.  So within
  \<open>2 ^ 16\<close> frames, or chunks, no number comes twice.
\<close>

theorem call_packets_announced:
  assumes "client_create_call env chat c = (Inr json, c')" "cl_calls c' chat = Some (Group g0)"
    and "ssrc_draw_ok (snd (ne_ssrcs env))" "group_life lib jr g0 (ws, g, na, nv)"
    and "ps = rtp_sent (dt_wire (sk_direct (gp_stack g)))"
  shows "(\<exists>lp. (jw_simd (ne_writer env) lp = Inr json \<or> jw_serde (ne_writer env) lp = Inr json) \<and> announced lp ps)
    \<and> taken (rd_audio_seq (ne_draw env)) na (seqs OPUS_PAYLOAD_TYPE ps)
    \<and> taken (rd_video_seq (ne_draw env)) nv (seqs VP8_PAYLOAD_TYPE ps)
    \<and> (na \<le> 2 ^ 16 \<longrightarrow> distinct (seqs OPUS_PAYLOAD_TYPE ps))
    \<and> (nv \<le> 2 ^ 16 \<longrightarrow> distinct (seqs VP8_PAYLOAD_TYPE ps))"
proof -
  have v: "snd (ne_ssrcs env) \<noteq> 0" using assms(3) by (auto simp: ssrc_draw_ok_def)
  obtain fp lp where d: "sk_direct (gp_stack g0) = dt_new_with_ssrc (ne_lib env) (ne_draw env) fp (fst (ne_ssrcs env)) (snd (ne_ssrcs env))"
    and lp: "build_local_params (dt_ufrag (sk_direct (gp_stack g0))) (dt_pwd (sk_direct (gp_stack g0)))
         (dt_fingerprint (sk_direct (gp_stack g0))) (dt_audio_ssrc (sk_direct (gp_stack g0)))
         (dt_video_ssrc (sk_direct (gp_stack g0))) = Inr lp"
    and json: "jw_simd (ne_writer env) lp = Inr json \<or> jw_serde (ne_writer env) lp = Inr json"
    using created_call [OF assms(1,2)] by blast
  from packets_as_announced [OF d v lp life_of_direct [OF assms(4)]] json taken_distinct show ?thesis
    unfolding assms(5) by blast
qed

section \<open>A call that plays\<close>

text \<open>A step uses at most one audio number.\<close>

lemma step_numbers_audio: "fst (step_numbers lib b g n) \<le> Suc (fst n)"
  by (cases n) (auto simp: step_numbers_def split: option.splits)

lemma life_run:
  "group_life lib jr g0 (ws, g, n) \<Longrightarrow> gp_run lib as g = Some g' \<Longrightarrow>
     \<exists>n'. group_life lib jr g0 (ws, g', n') \<and> fst n' \<le> fst n + length as"
proof (induction as arbitrary: g n)
  case Nil
  then show ?case by (intro exI [of _ n]) simp
next
  case (Cons b as)
  then obtain h where h: "gp_step lib b g = Some h" "gp_run lib as h = Some g'" by (auto split: option.splits)
  obtain n' where "group_life lib jr g0 (ws, g', n')" "fst n' \<le> fst (step_numbers lib b g n) + length as"
    using Cons.IH [OF group_life.tasks [OF Cons.prems(1) h(1)] h(2)] by blast
  with step_numbers_audio [of lib b g n] show ?case by (intro exI [of _ n']) simp
qed

lemma example_created:
  "\<exists>c' g. client_create_call example_create 3 example_client = (Inr ''json'', c') \<and> cl_calls c' 3 = Some (Group g)
     \<and> sk_direct (gp_stack g) = dt_new_with_ssrc echo_lib echo_draw ''AB'' 0x10000000 0x10000001
     \<and> \<not> gp_closed g \<and> \<not> gp_muted g \<and> \<not> gp_paused g"
  by (simp add: client_create_call_def client_create_check_def example_client_def client_create_finish_def gp_new_def
      stack_new_def take_cert_def pool_try_take_def pool_new_def example_create_def gp_create_local_params_def
      get_local_params_json_def dt_build_local_params_def set_on_state_change_def dt_new_def dt_new_with_ssrc_def
      build_local_params_json_def build_local_params_def echo_draw_def)

text \<open>Created, connected and playing one packet.\<close>

lemma example_call_life:
  assumes "sk_direct (gp_stack g0) = dt_new_with_ssrc echo_lib echo_draw ''AB'' a v"
    and "\<not> gp_closed g0" "\<not> gp_muted g0" "\<not> gp_paused g0"
  shows "\<exists>ws g na nv. group_life echo_lib example_json g0 (ws, g, na, nv) \<and> na \<le> 2 ^ 16 \<and> audio_sent (sk_direct (gp_stack g)) \<noteq> []"
proof -
  obtain w dt1 w2 dt2 where c: "dt_connect_start example_json example_env ''json'' (sk_direct (gp_stack g0)) = (Inr w, dt1)"
    and d: "worker_handle echo_lib (Datagram [22] echo_addr) (w, dt1) = (w2, dt2)"
    and dt2: "dt_ready dt2" "dt_current_state dt2 = Connected"
    using example_connects [OF assms(1)] by blast
  let ?g1 = "g0\<lparr>gp_connect_called := True, gp_stack := gp_stack g0\<lparr>sk_direct := dt1\<rparr>\<rparr>"
  let ?g2 = "with_direct dt2 ?g1"
  let ?g3 = "gp_install echo_lib 0 one_packet_song ?g2"
  let ?src = "concat (map page_bytes one_page)"
  have "gp_connect_start example_json example_env ''json'' g0 = (Inr w, ?g1)"
    using c assms(2) by (simp add: gp_connect_start_def stack_connect_start_def)
  from group_life.connecting [OF group_life.created this]
  have l1: "group_life echo_lib example_json g0 ([w], ?g1, 0, 0)" by simp
  have "worker_handle echo_lib (Datagram [22] echo_addr) ([w] ! 0, sk_direct (gp_stack ?g1)) = (w2, dt2)" using d by simp
  from group_life.worker [OF l1 _ this] have l2: "group_life echo_lib example_json g0 ([w2], ?g2, 0, 0)" by simp
  have "stack_state (gp_stack ?g2) = Connected" using dt2(2) by (simp add: stack_state_def)
  then have "gp_set_source echo_lib id 0 one_packet_song ?g2 = (Inr (), ?g3)"
    using assms(2) by (simp add: gp_set_source_def gp_not_ready_def)
  then have l3: "group_life echo_lib example_json g0 ([w2], ?g3, 0, 0)" by (rule group_life.sourced [OF l2])
  have src: "st_audio one_packet_song = Some ?src" by (simp add: one_packet_song_def)
  have a3: "gp_audio ?g3 = Some (sm_set_on_end audio_tag (sm_new (opus_new ?src) False 0))"
    using assms(3,4) by (simp add: gp_install_def one_packet_song_def gp_start_audio_def Let_def)
  have r3: "dt_ready (sk_direct (gp_stack ?g3))"
    using dt2(1) by (simp add: gp_install_direct reset_media_track_state_def dt_ready_def own_dest_def)
  obtain r where r: "opus_next (opus_new ?src) = (Inr (opus_sample [252, 1]), r)" using one_page_first by blast
  obtain g4 b where g4: "gp_run echo_lib play_one ?g3 = Some g4" "gp_audio g4 = Some b" "length (sm_played b) = 1"
    using play_one_runs [OF a3 r echo_total r3] by blast
  have "audio_path (track_of (sk_direct (gp_stack ?g3))) (opus_new ?src) ?g3"
    using dt2(1) src by (intro audio_path_install) simp_all
  then have path: "audio_path (track_of (sk_direct (gp_stack ?g3))) (opus_new ?src) g4"
    by (rule audio_path_run [OF echo_total _ g4(1)])
  obtain t where t: "track_of (sk_direct (gp_stack ?g3)) = t" by blast
  obtain w0 seq ts ssrc first where "t = (w0, seq, ts, ssrc, first)" by (cases t)
  with audio_path_packets [OF _ g4(2)] path t
  have "audio_sent (sk_direct (gp_stack g4)) = w0 @ frame_packets seq ts ssrc first (played_samples b)" by metis
  then have "audio_sent (sk_direct (gp_stack g4)) \<noteq> []"
    using g4(3) by (auto simp: frame_packets_def played_samples_def)
  moreover obtain n where n: "group_life echo_lib example_json g0 ([w2], g4, n)" "fst n \<le> length play_one"
    using life_run [OF l3 g4(1)] by auto
  moreover have "length play_one \<le> 2 ^ 16" by (simp add: play_one_def)
  ultimately show ?thesis by (cases n) (auto intro: order.trans)
qed

lemma call_packets_announced_witness:
  "\<exists>c' g0 ws g na nv lp. client_create_call example_create 3 example_client = (Inr ''json'', c') \<and> cl_calls c' 3 = Some (Group g0)
     \<and> group_life echo_lib example_json g0 (ws, g, na, nv) \<and> audio_sent (sk_direct (gp_stack g)) \<noteq> []
     \<and> announced lp (rtp_sent (dt_wire (sk_direct (gp_stack g))))
     \<and> distinct (seqs OPUS_PAYLOAD_TYPE (rtp_sent (dt_wire (sk_direct (gp_stack g)))))"
proof -
  obtain c' g0 where c: "client_create_call example_create 3 example_client = (Inr ''json'', c')" "cl_calls c' 3 = Some (Group g0)"
    "sk_direct (gp_stack g0) = dt_new_with_ssrc echo_lib echo_draw ''AB'' 0x10000000 0x10000001"
    "\<not> gp_closed g0" "\<not> gp_muted g0" "\<not> gp_paused g0"
    using example_created by blast
  obtain ws g na nv where g: "group_life echo_lib example_json g0 (ws, g, na, nv)" "na \<le> 2 ^ 16"
    "audio_sent (sk_direct (gp_stack g)) \<noteq> []"
    using example_call_life [OF c(3-6)] by blast
  have "ssrc_draw_ok (snd (ne_ssrcs example_create))" by (simp add: example_create_def ssrc_draw_ok_def)
  from call_packets_announced [OF c(1,2) this g(1) refl] c g show ?thesis by blast
qed

end
