(* ===== verification/Source_Switch.thy ===== *)
theory Source_Switch
  imports Media_Live
begin

text \<open>
  Replacing the source of a group call.  \<open>set_source\<close> stops the old streamers and drops them, but
  does not wait for their tasks, and it tests whether the call is closed only before it waits for
  the connection: what both mean for the packets and for a call that is stopped in between.
\<close>

section \<open>The frame in hand\<close>

text \<open>
  The pacing task of a stopped streamer ends at its next test of the flag, so it plays the frame
  it is about to send and no other.
\<close>

lemma stopped_plays_no_more:
  assumes "\<not> sm_running s" "in_hand (sm_pacer s) = 0" "Resume \<notin> set as" "sm_run nx as s = Some s'"
  shows "length (sm_played s') \<le> length (sm_played s)"
proof -
  let ?P = "\<lambda>t. held t \<and> length (sm_played t) + in_hand (sm_pacer t) \<le> length (sm_played s)"
  have "?P s'"
  proof (rule sm_run_invariant [of as ?P nx s])
    fix c t t'
    assume "c \<in> set as" "?P t" "sm_step nx c t = Some t'"
    moreover from this assms(3) have "c \<noteq> Resume" by blast
    ultimately show "?P t'" using held_step [of t c nx t'] by linarith
  qed (use assms in \<open>auto simp: held_def\<close>)
  then show ?thesis by simp
qed

lemma audio_path_at_start:
  assumes "dt_ready (sk_direct st)" "st_audio streams = Some src" "g = gp_install lib now streams h"
  shows "audio_path (track_of (sk_direct st)) (opus_new src) (g\<lparr>gp_stack := st\<rparr>)"
proof -
  have "gp_audio (g\<lparr>gp_stack := st\<rparr>) = Some (gp_start_audio now src (st_video streams \<noteq> None) h)"
    using assms(2) by (simp add: assms(3) gp_install_def Let_def)
  with assms(1) show ?thesis
    by (auto simp: audio_path_def gp_start_audio_def Let_def intro!: path_inv_new)
qed

text \<open>
  C16. A frame of the old song opens the new one.  When \<open>set_source\<close> replaces a source whose
  pacing task is about to send a frame, that task still sends it: it takes the marker that was
  reset for the new source, a sequence number and a stretch of the clock, and all packets of the
  new source follow without a marker, whatever runs then.  It is the only frame: the old task
  plays nothing more.
\<close>

theorem replaced_source_sends_on:
  assumes old: "gp_audio g0 = Some a" "sm_pacer a = Pc_send x" "\<not> sm_muted a"
    and set: "gp_set_source lib others now streams g0 = (Inr (), g1)" "st_audio streams = Some src"
    and dt: "dt = sk_direct (gp_stack g1)" "dt_ready dt" "wire_total lib"
    and late: "pace_with lib ck OPUS_PAYLOAD_TYPE (sm_stop a) (gp_stack g1) = (a', st)"
    and run: "gp_run lib as (g1\<lparr>gp_stack := st\<rparr>) = Some g2" "gp_audio g2 = Some b"
  shows "audio_sent (sk_direct (gp_stack g2)) =
      audio_sent dt @ [(OPUS_PAYLOAD_TYPE, dt_audio_seq dt, dt_audio_ts dt, dt_audio_ssrc dt, True, sm_data x)] @
        frame_packets (dt_audio_seq dt + 1) (dt_audio_ts dt + audio_ts_inc (sm_duration x)) (dt_audio_ssrc dt) False
          (played_samples b)
    \<and> (\<exists>c. a' = Some c \<and> played_samples c = played_samples a @ [x]
         \<and> (Resume \<notin> set bs \<longrightarrow> sm_run opus_next bs c = Some c' \<longrightarrow> length (sm_played c') \<le> length (sm_played c)))"
proof -
  obtain h where h: "g1 = gp_install lib now streams h"
    and tr: "track_of dt = (audio_sent dt, dt_audio_seq dt, dt_audio_ts dt, dt_audio_ssrc dt, True)"
    using source_installed [OF set(1)] dt(1,2) by blast
  let ?c = "finish_slot True x (sm_stop a)"
  have pc: "sm_pacer (sm_stop a) = Pc_send x" "\<not> sm_muted (sm_stop a)" using old by (simp_all add: sm_stop_def)
  obtain dt' where dt': "send_rtp_bytes lib ck OPUS_PAYLOAD_TYPE (sm_data x) (sm_duration x) dt = (Inr (), dt')"
    "dt_ready dt'" "track_of dt' = track_add x (track_of dt)"
    using track_send_audio [OF dt(3,2)] by blast
  then have st: "a' = Some ?c" "sk_direct st = dt'"
    using late pc by (auto simp: pace_with_def stack_send_rtp_bytes_def pacer_step_def dt(1))
  have path: "audio_path (track_of (sk_direct st)) (opus_new src) g2"
    using audio_path_run [OF dt(3) audio_path_at_start [OF _ set(2) h] run(1)] dt'(2) st(2) by simp
  have t: "track_of (sk_direct st) = (audio_sent dt @ [(OPUS_PAYLOAD_TYPE, dt_audio_seq dt, dt_audio_ts dt, dt_audio_ssrc dt, True, sm_data x)],
      dt_audio_seq dt + 1, dt_audio_ts dt + audio_ts_inc (sm_duration x), dt_audio_ssrc dt, False)"
    using dt'(3) by (simp add: st(2) tr)
  have c: "\<not> sm_running ?c" "in_hand (sm_pacer ?c) = 0" "played_samples ?c = played_samples a @ [x]"
    by (simp_all add: finish_slot_def sm_stop_def played_samples_def Let_def)
  show ?thesis
    using audio_path_packets [OF path [unfolded t] run(2)] st(1) c stopped_plays_no_more [OF c(1,2)] by auto
qed

definition playing_call :: "(nat, nat) group_call" where
  "playing_call = example_call\<lparr>gp_audio := Some ((sm_new (opus_new []) True 0)\<lparr>sm_pacer := Pc_send example_sample\<rparr>)\<rparr>"

lemma replaced_source_sends_on_witness:
  "\<exists>st g2. audio_sent (sk_direct (gp_stack g2)) = [(111, 1000, 0, 7, True, sm_data example_sample)]
     \<and> gp_run echo_lib [] ((snd (gp_set_source echo_lib id 0 one_packet_song playing_call))\<lparr>gp_stack := st\<rparr>) = Some g2"
proof -
  let ?a = "(sm_new (opus_new []) True 0)\<lparr>sm_pacer := Pc_send example_sample\<rparr>"
  let ?g1 = "gp_install echo_lib 0 one_packet_song playing_call"
  have g0: "gp_audio playing_call = Some ?a" by (simp add: playing_call_def)
  have set: "gp_set_source echo_lib id 0 one_packet_song playing_call = (Inr (), ?g1)"
    by (simp add: gp_set_source_def gp_not_ready_def playing_call_def example_call_def)
  have "gp_stack ?g1 = gp_stack (gp_install echo_lib 0 one_packet_song example_call)"
    by (simp add: gp_install_stack playing_call_def)
  note dt = example_installed(2-) [folded this]
  obtain c st where late: "pace_with echo_lib echo_clock OPUS_PAYLOAD_TYPE (sm_stop ?a) (gp_stack ?g1) = (c, st)" by fastforce
  let ?g2 = "?g1\<lparr>gp_stack := st\<rparr>"
  have b: "gp_audio ?g2 = Some (gp_start_audio 0 (concat (map page_bytes one_page)) False playing_call)"
    by (simp add: gp_install_def one_packet_song_def Let_def)
  have "sm_pacer ?a = Pc_send example_sample" "\<not> sm_muted ?a" "st_audio one_packet_song = Some (concat (map page_bytes one_page))"
    "gp_run echo_lib [] ?g2 = Some ?g2" "played_samples (gp_start_audio now src q g) = []" for now src q and g :: "(nat, nat) group_call"
    by (simp_all add: sm_new_def one_packet_song_def gp_start_audio_def sm_set_on_end_def sm_pause_def played_samples_def Let_def)
  from replaced_source_sends_on [OF g0 this(1,2) set this(3) refl dt(1) echo_total late this(4) b] this(5)
  have "audio_sent (sk_direct (gp_stack ?g2)) = [(111, 1000, 0, 7, True, sm_data example_sample)]"
    using dt(2-) by (simp add: frame_packets_def media_consts)
  moreover have "gp_run echo_lib [] ((snd (gp_set_source echo_lib id 0 one_packet_song playing_call))\<lparr>gp_stack := st\<rparr>) = Some ?g2"
    by (simp add: set)
  ultimately show ?thesis by blast
qed

section \<open>A call that is stopped meanwhile\<close>

text \<open>What the close leaves: a transport that refuses every frame, so that nothing is sent any more.\<close>

lemma pace_with_refused:
  assumes "dt_closed (sk_direct st)"
  shows "pace_with lib ck pt s st =
    (if \<exists>x. sm_pacer s = Pc_send x then pacer_step (Inl (Internal ''transport is closed'')) s else pacer_step (Inr ()) s, st)"
  using assms
  by (cases "sm_pacer s") (simp_all add: pace_with_def stack_send_rtp_bytes_def send_rtp_bytes_def pacer_step_def)

lemma refused_step:
  assumes "dt_closed (sk_direct (gp_stack g))" "gp_step lib b g = Some g'"
  shows "gp_stack g' = gp_stack g"
proof (cases b)
  case (Call_op op)
  with assms(2) gp_perform_streamers [of op g] show ?thesis by auto
qed (use assms in \<open>auto simp: pace_with_refused split: option.splits if_splits\<close>)

text \<open>A streamer that will report its end.\<close>

definition reporting :: "('s, 'v) group_call \<Rightarrow> bool" where
  "reporting g \<longleftrightarrow> gp_closed g \<and> gp_dispatcher g = None \<and> ge_on_stream_end (gp_events g) \<and> gp_video g = None
     \<and> (\<exists>a. gp_audio g = Some a \<and> \<not> sm_muted a \<and> (sm_pacer a = Pc_done \<or> sm_on_end a = Some audio_tag))"

lemma own_task_reports:
  "own_task c \<Longrightarrow> sm_step nx c s = Some t \<Longrightarrow>
     sm_muted t = sm_muted s \<and> sm_pacer t = sm_pacer s \<and> sm_on_end t = sm_on_end s"
  by (cases c; cases "sm_reader_pc s") (auto simp: sm_task_defs split: if_splits prod.splits option.splits list.splits)

lemma pacer_reports:
  "pacer_step r s = Some t \<Longrightarrow>
     sm_muted t = sm_muted s \<and> sm_pacer s \<noteq> Pc_done \<and> (sm_pacer t = Pc_done \<or> sm_on_end t = sm_on_end s)"
  by (cases "sm_pacer s")
    (auto simp: pacer_step_def pacer_loop_def start_slot_def finish_slot_def recv_def Let_def
      split: if_splits option.splits list.splits sum.splits)

lemma complete_on_end:
  "complete nx xs e b (Some f) ts s \<Longrightarrow> sm_pacer s = Pc_done \<or> sm_on_end s = Some f"
  unfolding complete_def pacer_ok_def by presburger

lemma gp_set_audio_direct:
  assumes "gp_dispatcher g = None" "ge_on_stream_end (gp_events g)"
  shows "gp_set_audio a a' g =
    g\<lparr>gp_audio := Some a', gp_calls := gp_calls g @ map end_event (drop (length (sm_calls a)) (sm_calls a'))\<rparr>"
  using assms by (simp add: gp_set_audio_def gp_report_direct)

lemma reporting_step:
  assumes r: "reporting g" and c: "dt_closed (sk_direct (gp_stack g))" and st: "gp_step lib b g = Some g'"
  shows "reporting g'"
proof -
  obtain a where a: "gp_audio g = Some a" "\<not> sm_muted a" "sm_pacer a = Pc_done \<or> sm_on_end a = Some audio_tag"
    and g: "gp_dispatcher g = None" "ge_on_stream_end (gp_events g)" "gp_closed g" "gp_video g = None"
    using r by (auto simp: reporting_def)
  have set: "reporting (gp_set_audio a a' g)"
    if "\<not> sm_muted a'" "sm_pacer a' = Pc_done \<or> sm_on_end a' = Some audio_tag" for a'
    using that g by (simp add: gp_set_audio_direct reporting_def)
  show ?thesis
  proof (cases b)
    case (Audio_task e)
    then obtain a' where a': "own_task e" "sm_step opus_next e a = Some a'" "g' = gp_set_audio a a' g"
      using st a(1) by (auto split: if_splits)
    with own_task_reports [OF a'(1,2)] a set [of a'] show ?thesis by simp
  next
    case (Audio_pace ck)
    then obtain q a' where a': "pacer_step q a = Some a'" "g' = gp_set_audio a a' g"
      using st a(1) c by (auto simp: pace_with_refused split: option.splits if_splits)
    with pacer_reports [OF a'(1)] a set [of a'] show ?thesis by auto
  next
    case (Call_op op)
    with st r gp_op_unchanged(1) [OF g(3)] show ?thesis by simp
  qed (use st g in \<open>auto split: option.splits\<close>)
qed

lemma closing_run:
  assumes "gp_run lib as g = Some g'" "reporting g" "dt_closed (sk_direct (gp_stack g))"
  shows "reporting g' \<and> gp_stack g' = gp_stack g"
  by (rule gp_run_invariant [OF _ _ assms(1), of "\<lambda>h. reporting h \<and> gp_stack h = gp_stack g"])
    (use assms(2,3) reporting_step refused_step in metis)+

text \<open>The frame that the pacing task has in hand then ends the stream, and the client is told.\<close>

lemma refused_frame:
  assumes "reporting g" "dt_closed (sk_direct (gp_stack g))" "gp_audio g = Some a" "sm_pacer a = Pc_send x"
  shows "\<exists>g'. gp_run lib [Audio_pace ck, Audio_pace ck] g = Some g' \<and> map_option sm_pacer (gp_audio g') = Some Pc_done
    \<and> gp_calls g' = gp_calls g @ [Stream_end Audio Microphone (Some (Internal ''transport is closed''))]"
proof -
  have a: "\<not> sm_muted a" "sm_on_end a = Some audio_tag" "gp_dispatcher g = None" "ge_on_stream_end (gp_events g)"
    using assms(1,3,4) by (auto simp: reporting_def)
  let ?e = "Internal ''transport is closed''"
  let ?a1 = "a\<lparr>sm_pacer := Pc_end (Some ?e)\<rparr>"
  let ?a2 = "?a1\<lparr>sm_done := True, sm_on_end := None, sm_pacer := Pc_done, sm_calls := sm_calls a @ [(audio_tag, Some ?e)]\<rparr>"
  let ?g1 = "gp_set_audio a ?a1 g"
  have 1: "pacer_step (Inl ?e) a = Some ?a1" "pacer_step (Inr ()) ?a1 = Some ?a2"
    using a assms(4) by (simp_all add: pacer_step_def)
  have g1: "?g1 = g\<lparr>gp_audio := Some ?a1\<rparr>" using a(3,4) by (simp add: gp_set_audio_direct)
  have s1: "gp_step lib (Audio_pace ck) g = Some ?g1"
    using assms(2-4) 1(1) by (simp add: pace_with_refused)
  have s2: "gp_step lib (Audio_pace ck) ?g1 = Some (gp_set_audio ?a1 ?a2 ?g1)"
    using assms(2) 1(2) by (simp add: pace_with_refused g1)
  have "gp_calls (gp_set_audio ?a1 ?a2 ?g1) = gp_calls g @ [Stream_end Audio Microphone (Some ?e)]"
    unfolding g1 using a(3,4) by (simp add: gp_set_audio_direct end_event_def)
  with s1 s2 show ?thesis by simp
qed

lemma close_leaves:
  assumes "gp_run_close g = Some g'" "gp_dispatcher g = None"
  shows "dt_closed (sk_direct (gp_stack g')) \<and> dt_wire (sk_direct (gp_stack g')) = dt_wire (sk_direct (gp_stack g))
    \<and> gp_closed g' = gp_closed g \<and> gp_audio g' = gp_audio g \<and> gp_video g' = gp_video g
    \<and> gp_dispatcher g' = None \<and> gp_events g' = gp_events g"
proof -
  obtain n where n: "gp_closing g = Suc n" using assms(1) by (cases "gp_closing g") (simp_all add: gp_run_close_def)
  obtain r calls st where st: "stack_close (gp_stack g) = (r, calls, st)" by (metis prod_cases3)
  have d: "dt_closed (sk_direct st)" "dt_wire (sk_direct st) = dt_wire (sk_direct (gp_stack g))"
    using st by (auto simp: stack_close_def dt_close_def split: if_splits)
  let ?P = "\<lambda>h. gp_stack h = st \<and> gp_closed h = gp_closed g \<and> gp_audio h = gp_audio g \<and> gp_video h = gp_video g
    \<and> gp_dispatcher h = None \<and> gp_events h = gp_events g"
  have "?P (gp_on_states calls h)" if "?P h" for h
    using that unfolding gp_on_states_def
    by (induction calls arbitrary: h) (simp_all add: case_prod_beta gp_on_state_def gp_submit_def Let_def)
  moreover have "g' = gp_on_states calls (g\<lparr>gp_stack := st, gp_closing := n\<rparr>)"
    using assms(1) n st by (simp add: gp_run_close_def)
  ultimately show ?thesis using d assms(2) by simp
qed

text \<open>
  C17. A stop during \<open>set_source\<close> is overtaken.  The call was open when \<open>set_source\<close> tested it and
  waits for its connection; while it waits (\<open>mid\<close>) the connection is made, then the client stops the
  call, and the close that \<open>stop\<close> has spawned has not run yet.  Then \<open>set_source\<close> succeeds on the
  closed call, on which \<open>stop\<close> does nothing any more and every other operation is refused.  As long
  as the close is pending the song plays: whatever has run, the tasks of the call have a
  schedule that sends it to its end and reports that.  Only the close ends it: it sends nothing
  itself, nothing is sent after it, and a frame that is then in hand fails, ends the streamer
  and is reported to the client as the error of a call that it has stopped.
\<close>

theorem stop_during_set_source:
  assumes gate: "\<not> gp_closed g0" "gp_not_ready g0" "gp_connect_called g0"
    and mid: "\<not> gp_closed (mid g0)" "stack_state (gp_stack (mid g0)) = Connected"
    and set: "gp_set_source lib (\<lambda>g. snd (gp_stop (mid g))) now streams g0 = (r, g1)"
    and ogg: "\<forall>pg \<in> set pgs. page_ok pg"
      "concat (map snd pgs) = concat (map lace (head # tags # packets))"
      "starts_with head (ascii ''OpusHead'')" "starts_with tags (ascii ''OpusTags'')" "[] \<notin> set packets"
      "st_audio streams = Some (concat (map page_bytes pgs))" "st_video streams = None"
    and g1: "dt = sk_direct (gp_stack g1)" "dt_ready dt" "wire_total lib" "gp_dispatcher g1 = None"
      "ge_on_stream_end (gp_events g1)"
    and run: "gp_run lib as g1 = Some g2" "Audio_task (Read_step True) \<notin> set as"
    and close: "gp_run_close g2 = Some g3" "gp_run lib bs g3 = Some g4"
  shows "r = Inr () \<and> gp_closed g1 \<and> gp_stop g1 = (Inr (), g1) \<and> (\<forall>op. gp_perform op g1 = (Inl ClosedE, g1))
    \<and> (\<exists>cs g'. list_all call_task cs \<and> gp_run lib cs g2 = Some g'
         \<and> audio_sent (sk_direct (gp_stack g')) =
             audio_sent dt @ opus_on_wire (dt_audio_seq dt) (dt_audio_ts dt) (dt_audio_ssrc dt) packets
         \<and> gp_calls g' = gp_calls g1 @ [Stream_end Audio Microphone (Some File)])
    \<and> dt_wire (sk_direct (gp_stack g4)) = dt_wire (sk_direct (gp_stack g2))
    \<and> (\<forall>a x. gp_audio g4 = Some a \<and> sm_pacer a = Pc_send x \<longrightarrow>
         (\<exists>g'. gp_run lib [Audio_pace ck, Audio_pace ck] g4 = Some g' \<and> map_option sm_pacer (gp_audio g') = Some Pc_done
            \<and> gp_calls g' = gp_calls g4 @ [Stream_end Audio Microphone (Some (Internal ''transport is closed''))]))"
proof -
  let ?src = "concat (map page_bytes pgs)" and ?h = "snd (gp_stop (mid g0))"
  have h: "gp_closed ?h" "\<not> gp_paused ?h" "\<not> gp_muted ?h" "gp_stack ?h = gp_stack (mid g0)"
    using mid(1) by (simp_all add: gp_stop_def)
  have r: "r = Inr ()" "g1 = gp_install lib now streams ?h"
    using gate set mid(2) h(4) by (auto simp: gp_set_source_def Let_def)
  have f: "gp_closed g1" "\<not> gp_paused g1" "\<not> gp_muted g1"
    using h by (simp_all add: r(2) gp_install_def Let_def)
  obtain h2 where h2: "g1 = gp_install lib now streams h2" "dt_ready (sk_direct (gp_stack h2))"
    "track_of dt = (audio_sent dt, dt_audio_seq dt, dt_audio_ts dt, dt_audio_ssrc dt, True)"
    using source_installed [OF set [unfolded r(1)]] g1(1,2) by blast
  have d: "gp_dispatcher h2 = None" "ge_on_stream_end (gp_events h2)"
    using g1(4,5) by (auto simp: h2(1) gp_install_def gp_fire_upgrade_if_changed_def gp_submit_def Let_def split: if_splits option.splits)
  obtain m where drain: "drain (Suc m) opus_next (opus_new ?src) = (map opus_sample packets, Some File)"
    using ogg_source_drain [OF ogg(1-5)] by blast
  have "call_complete (map opus_sample packets) File (gp_calls g1) g1"
    unfolding h2(1) by (rule call_complete_install [OF h2(2) d ogg(6,7) drain])
  then have c: "call_complete (map opus_sample packets) File (gp_calls g1) g2"
    by (rule call_complete_run [OF g1(3) _ run(2,1)])
  have "audio_path (track_of dt) (opus_new ?src) g1"
    using audio_path_install [OF h2(2) ogg(6)] by (simp add: g1(1) h2(1))
  then have path: "audio_path (track_of dt) (opus_new ?src) g2" by (rule audio_path_run [OF g1(3) _ run(1)])
  have f2: "gp_closed g2" "\<not> gp_paused g2" "\<not> gp_muted g2" using gp_run_closed [OF run(1)] f by simp_all
  have "gp_dispatcher g2 = None" using c by (simp add: call_complete_def)
  note left = close_leaves [OF close(1) this]
  obtain a ts where a: "gp_audio g2 = Some a" "complete opus_next (map opus_sample packets) File False (Some audio_tag) ts a"
    "\<not> sm_muted a" "gp_video g2 = None" "ge_on_stream_end (gp_events g2)"
    using c by (auto simp: call_complete_def)
  have "reporting g3"
    unfolding reporting_def using left f2(1) a complete_on_end [OF a(2)] by simp
  then have g4: "reporting g4" "gp_stack g4 = gp_stack g3" using closing_run [OF close(2)] left by blast+
  then have end4: "dt_closed (sk_direct (gp_stack g4))" "dt_wire (sk_direct (gp_stack g4)) = dt_wire (sk_direct (gp_stack g2))"
    using left by simp_all
  have refused: "gp_stop g1 = (Inr (), g1)" "\<forall>op. gp_perform op g1 = (Inl ClosedE, g1)"
    using f(1) by (simp add: gp_stop_def, use f(1) gp_op_unchanged(1) in blast)
  note song = song_to_end [OF g1(3) c f2(2,3) path drain h2(3) ogg(5)]
  have frame: "\<exists>g'. gp_run lib [Audio_pace ck, Audio_pace ck] g4 = Some g' \<and> map_option sm_pacer (gp_audio g') = Some Pc_done
      \<and> gp_calls g' = gp_calls g4 @ [Stream_end Audio Microphone (Some (Internal ''transport is closed''))]"
    if "gp_audio g4 = Some a \<and> sm_pacer a = Pc_send x" for a x
    using that by (elim conjE) (rule refused_frame [OF g4(1) end4(1)])
  show ?thesis
  proof (intro conjI)
    show "r = Inr ()" "gp_closed g1" by (rule r(1), rule f(1))
    show "gp_stop g1 = (Inr (), g1)" "\<forall>op. gp_perform op g1 = (Inl ClosedE, g1)" by (rule refused)+
  qed (rule song, rule end4(2), intro allI impI, rule frame, assumption)
qed

definition waiting_call :: "(nat, nat) group_call" where
  "waiting_call = example_call\<lparr>gp_stack := stack_from_direct (dt_new_with_ssrc echo_lib echo_draw ''AB'' 7 9), gp_net_state := 0\<rparr>"

text \<open>The worker connects.\<close>

definition connected_meanwhile :: "(nat, nat) group_call \<Rightarrow> (nat, nat) group_call" where
  "connected_meanwhile g = g\<lparr>gp_stack := stack_from_direct echo_transport\<rparr>"

lemma stop_during_set_source_witness:
  "\<exists>g1 cs g'. gp_set_source echo_lib (\<lambda>g. snd (gp_stop (connected_meanwhile g))) 0 one_packet_song waiting_call = (Inr (), g1)
     \<and> gp_closed g1 \<and> gp_run echo_lib cs g1 = Some g' \<and> audio_sent (sk_direct (gp_stack g')) = [(111, 1000, 0, 7, True, [252, 1])]"
proof -
  let ?w = waiting_call and ?h = "snd (gp_stop (connected_meanwhile waiting_call))"
  let ?g1 = "gp_install echo_lib 0 one_packet_song ?h"
  have w: "\<not> gp_closed ?w" "gp_not_ready ?w" "gp_connect_called ?w" "\<not> gp_closed (connected_meanwhile ?w)"
    "stack_state (gp_stack (connected_meanwhile ?w)) = Connected"
    by (simp_all add: waiting_call_def example_call_def gp_not_ready_def stack_state_def stack_from_direct_def
        dt_current_state_def dt_new_with_ssrc_def connected_meanwhile_def echo_transport_def conn_state_of_i32_def)
  have h: "gp_stack ?h = stack_from_direct echo_transport" using w(4) by (simp add: gp_stop_def connected_meanwhile_def)
  have "stack_state (gp_stack ?h) = Connected" using w(4,5) by (simp add: gp_stop_def)
  then have set: "gp_set_source echo_lib (\<lambda>g. snd (gp_stop (connected_meanwhile g))) 0 one_packet_song ?w = (Inr (), ?g1)"
    using w(1-3) by (simp add: gp_set_source_def Let_def)
  have g1: "gp_dispatcher ?g1 = None" "ge_on_stream_end (gp_events ?g1)" "gp_closing ?g1 = Suc 0"
    using w(4)
    by (simp_all add: gp_install_def gp_fire_upgrade_if_changed_def gp_submit_def Let_def gp_stop_def
        connected_meanwhile_def waiting_call_def example_call_def)
  have dt: "dt_ready (sk_direct (gp_stack ?g1))" "audio_sent (sk_direct (gp_stack ?g1)) = []"
    "dt_audio_seq (sk_direct (gp_stack ?g1)) = 1000" "dt_audio_ts (sk_direct (gp_stack ?g1)) = 0"
    "dt_audio_ssrc (sk_direct (gp_stack ?g1)) = 7"
    by (simp_all add: gp_install_stack h stack_reset_media_def reset_media_track_state_def stack_from_direct_def
        echo_transport_def dt_new_with_ssrc_def audio_sent_def echo_draw_def dt_ready_def own_dest_def)
  obtain g3 where g3: "gp_run_close ?g1 = Some g3"
    using g1(3) by (cases "stack_close (gp_stack ?g1)") (simp add: gp_run_close_def)
  have heads: "starts_with (ascii ''OpusHead'') (ascii ''OpusHead'')" "starts_with (ascii ''OpusTags'') (ascii ''OpusTags'')"
    "[] \<notin> set [[252, 1] :: bytes]"
    by (simp_all add: starts_with_def)
  have src: "st_audio one_packet_song = Some (concat (map page_bytes one_page))" "st_video one_packet_song = None"
    "gp_run echo_lib [] ?g1 = Some ?g1" "gp_run echo_lib [] g3 = Some g3"
    by (simp_all add: one_packet_song_def)
  have "Audio_task (Read_step True) \<notin> set []" by simp
  note play = stop_during_set_source [OF w set one_page_facts heads src(1,2) refl dt(1) echo_total g1(1,2) src(3) this g3 src(4)]
  obtain cs g' where "gp_closed ?g1" "gp_run echo_lib cs ?g1 = Some g'"
    "audio_sent (sk_direct (gp_stack g')) = audio_sent (sk_direct (gp_stack ?g1)) @
       opus_on_wire (dt_audio_seq (sk_direct (gp_stack ?g1))) (dt_audio_ts (sk_direct (gp_stack ?g1)))
         (dt_audio_ssrc (sk_direct (gp_stack ?g1))) [[252, 1]]"
    using play [THEN conjunct2, THEN conjunct1]
      play [THEN conjunct2, THEN conjunct2, THEN conjunct2, THEN conjunct2, THEN conjunct1]
    by (elim exE conjE) (rule that)
  then have "gp_closed ?g1" "gp_run echo_lib cs ?g1 = Some g'"
    "audio_sent (sk_direct (gp_stack g')) = opus_on_wire 1000 0 7 [[252, 1]]"
    by (simp_all only: dt(2-) append.left_neutral)
  with set show ?thesis by (intro exI [of _ ?g1] exI [of _ cs] exI [of _ g']) (simp add: opus_on_wire_def media_consts)
qed

end
