(* ===== verification/Simple_Stream.thy ===== *)
theory Simple_Stream
  imports Client Shell_Source Transcode
begin

text \<open>
  \<open>examples/simple_stream.rs\<close>: the demonstration program.  It creates a call, opens a source for
  its argument, waits for Ctrl+C and stops the call.  What it prints is not modelled.
\<close>

section \<open>The argument\<close>

text \<open>\<open>trim_start_matches\<close>: the prefix is removed as often as it is there.\<close>

function trim_start_matches :: "string \<Rightarrow> string \<Rightarrow> string" where
  "trim_start_matches p s =
     (if p \<noteq> [] \<and> prefix p s then trim_start_matches p (drop (length p) s) else s)"
  by pat_completeness auto

termination
  by (relation "measure (\<lambda>(p, s). length s)") (auto simp: prefix_def)

declare trim_start_matches.simps [simp del]

text \<open>\<open>split\<close> at a character; there is always a first part.\<close>

fun split_at :: "char \<Rightarrow> string \<Rightarrow> string list" where
  "split_at d [] = [[]]"
| "split_at d (c # s) =
     (if c = d then [] # split_at d s
      else case split_at d s of [] \<Rightarrow> [[c]] | part # parts \<Rightarrow> (c # part) # parts)"

definition example_options :: "string \<Rightarrow> encode_options" where
  "example_options source_arg =
     (if str_contains ''60fps'' source_arg then video_60fps
      else if str_contains ''720p'' source_arg then video_720p_30fps
      else video_default)"

definition nth_part :: "nat \<Rightarrow> string list \<Rightarrow> string" where
  "nth_part n parts = (if n < length parts then parts ! n else [])"

definition example_streams ::
  "os_spawn \<Rightarrow> ffmpeg_env \<Rightarrow> string \<Rightarrow> encode_options \<Rightarrow> spawn_log \<Rightarrow>
     (error + shell_reader streams) \<times> spawn_log" where
  "example_streams os env source_arg opt started =
     (if prefix ''shell:'' source_arg then
        from_shell os (trim_start_matches ''shell:'' source_arg) TRACK_AUDIO started
      else if prefix ''shellv:'' source_arg then
        from_shell os (trim_start_matches ''shellv:'' source_arg) TRACK_VIDEO started
      else if prefix ''shells:'' source_arg then
        (let parts = split_at (CHR ''|'') (trim_start_matches ''shells:'' source_arg)
         in from_shells os (nth_part 0 parts) (nth_part 1 parts) started)
      else if prefix ''http://'' source_arg \<or> prefix ''https://'' source_arg
              \<or> prefix ''rtmp://'' source_arg \<or> prefix ''rtsp://'' source_arg
      then from_url os env source_arg opt started
      else from_file os env source_arg opt started)"

section \<open>The program\<close>

definition EXAMPLE_CHAT :: int where "EXAMPLE_CHAT = -1001234567890"

text \<open>
  \<open>main\<close>: its result, the client at the end, the call that was stopped and the processes that
  were started.  The streams that were opened are dropped.
\<close>

definition example_main ::
  "os_spawn \<Rightarrow> ffmpeg_env \<Rightarrow> ('s, 'v, 'd, 'c) create_env \<Rightarrow> string list \<Rightarrow>
     (error + unit) \<times> ('s, 'v, 'c) client option \<times> ('s, 'v) call option \<times> spawn_log" where
  "example_main os env ce args =
     (let source_arg = (if 1 < length args then args ! 1 else ''song.mp3'')
      in case client_new of
           Inl e \<Rightarrow> (Inl e, None, None, [])
         | Inr c0 \<Rightarrow>
             let c1 = client_on_upgrade (client_on_connection_change (client_on_stream_end c0))
             in case client_create_call ce EXAMPLE_CHAT c1 of
                  (Inl e, c2) \<Rightarrow> (Inl e, Some c2, None, [])
                | (Inr local_params, c2) \<Rightarrow>
                    let opt = example_options source_arg
                    in case example_streams os env source_arg opt [] of
                         (Inl e, started) \<Rightarrow> (Inl e, Some c2, None, started)
                       | (Inr opened_streams, started) \<Rightarrow>
                           (case client_stop EXAMPLE_CHAT c2 of
                              (r, stopped, c3) \<Rightarrow> (r, Some c3, stopped, started)))"

section \<open>What it does\<close>

text \<open>Trimming removes the prefix completely: what is left does not begin with it.\<close>

lemma trim_start_matches_spec:
  assumes "p \<noteq> []"
  shows "\<exists>n. s = concat (replicate n p) @ trim_start_matches p s \<and> \<not> prefix p (trim_start_matches p s)"
  using assms
proof (induction p s rule: trim_start_matches.induct)
  case (1 p s)
  show ?case
  proof (cases "p \<noteq> [] \<and> prefix p s")
    case True
    obtain n where n: "drop (length p) s = concat (replicate n p) @ trim_start_matches p (drop (length p) s)"
      "\<not> prefix p (trim_start_matches p (drop (length p) s))"
      using 1 True by blast
    have "s = p @ drop (length p) s" using True by (auto simp: prefix_def)
    with n True show ?thesis
      by (intro exI [of _ "Suc n"]) (simp add: trim_start_matches.simps [of p s])
  next
    case False
    then show ?thesis using 1 by (intro exI [of _ 0]) (simp add: trim_start_matches.simps [of p s])
  qed
qed

text \<open>Splitting undoes joining, when the separator does not occur in the parts.\<close>

lemma split_at_other: "d \<notin> set s \<Longrightarrow> split_at d s = [s]"
  by (induction s) auto

lemma split_at_first: "d \<notin> set s \<Longrightarrow> split_at d (s @ d # t) = s # split_at d t"
  by (induction s) auto

text \<open>
  Two commands that contain no bar are given to \<open>from_shells\<close> as they are; a bar inside the second
  one cuts it, and what follows is lost.
\<close>

lemma example_shells:
  assumes "CHR ''|'' \<notin> set a" "CHR ''|'' \<notin> set v" "\<not> prefix ''shells:'' (a @ CHR ''|'' # v)"
  shows "example_streams os env (''shells:'' @ a @ CHR ''|'' # v) opt started = from_shells os a v started"
    and "\<not> prefix ''shells:'' (a @ CHR ''|'' # v @ CHR ''|'' # w) \<Longrightarrow>
      example_streams os env (''shells:'' @ a @ CHR ''|'' # v @ CHR ''|'' # w) opt started = from_shells os a v started"
  using assms
  by (simp_all add: example_streams_def trim_start_matches.simps [of "''shells:''"] split_at_first split_at_other
      nth_part_def Let_def)

text \<open>
  When the program gets to its end, the one call it created has been stopped and forgotten.  When
  the source cannot be opened it ends before that, and the call stays open.
\<close>

lemma client_create_call_calls:
  assumes "client_create_call ce chat c = (Inr lp, c')"
  shows "\<exists>g. cl_calls c' = (cl_calls c)(chat \<mapsto> Group g) \<and> \<not> gp_closed g"
proof -
  have f: "client_create_finish ce chat c = (Inr lp, c')"
    using assms by (auto simp: client_create_call_def split: sum.splits)
  obtain x f' where n: "gp_new (ne_lib ce) (ne_draw ce) (ne_ssrcs ce) (ne_gen ce) chat (cl_factory c) None
      (unat (co_connect_timeout_secs (cl_options c)) * 1000000000)
      \<lparr>ge_on_stream_end = cl_on_stream_end c, ge_on_connection_change = False, ge_on_upgrade = False\<rparr> = (x, f')"
    by fastforce
  obtain g where g: "x = Inr g" using f n by (cases x) (simp_all add: client_create_finish_def)
  then have "\<not> gp_closed g" using n by (auto simp: gp_new_def split: sum.splits prod.splits)
  with f n g show ?thesis by (auto simp: client_create_finish_def split: sum.splits)
qed

lemma example_main_outcome:
  fixes ce :: "('s, 'v, 'd, 'c) create_env"
  assumes "example_main os env ce args = (r, Some c, stopped, started)"
  shows "(r = Inr () \<longrightarrow> cl_calls c = Map.empty \<and> (\<exists>g. stopped = Some (Group g) \<and> gp_closed g))
    \<and> (r \<noteq> Inr () \<longrightarrow> stopped = None
         \<and> (cl_calls c = Map.empty \<or> (\<exists>g. cl_calls c = [EXAMPLE_CHAT \<mapsto> Group g] \<and> \<not> gp_closed g)))"
proof -
  let ?arg = "if 1 < length args then args ! 1 else ''song.mp3''"
  show ?thesis
  proof (cases "client_new :: error + ('s, 'v, 'c) client")
    case (Inl e)
    from assms show ?thesis unfolding example_main_def Let_def Inl by simp
  next
    case (Inr c0)
    note new = this
    let ?c1 = "client_on_upgrade (client_on_connection_change (client_on_stream_end c0))"
    have c1: "cl_calls ?c1 = Map.empty"
      using Inr by (auto simp: client_new_def client_new_with_options_def client_on_upgrade_def
          client_on_connection_change_def client_on_stream_end_def bind_res_Inr_iff Let_def)
    obtain x c2 where x: "client_create_call ce EXAMPLE_CHAT ?c1 = (x, c2)" by fastforce
    show ?thesis
    proof (cases x)
      case (Inl e)
      have "cl_calls c2 = Map.empty"
        using x c1 Inl
        by (auto simp: client_create_call_def client_create_check_def client_create_finish_def Let_def
            split: sum.splits prod.splits)
      with assms x Inl show ?thesis unfolding example_main_def Let_def new by auto
    next
      case (Inr lp)
      obtain g where g: "cl_calls c2 = [EXAMPLE_CHAT \<mapsto> Group g]" "\<not> gp_closed g"
        using client_create_call_calls [OF x [unfolded Inr]] c1 by auto
      obtain y log where y: "example_streams os env ?arg (example_options ?arg) [] = (y, log)" by fastforce
      show ?thesis
      proof (cases y)
        case (Inl e)
        with assms x \<open>x = Inr lp\<close> y g show ?thesis unfolding example_main_def Let_def new by auto
      next
        case (Inr st)
        have "client_stop EXAMPLE_CHAT c2 = (Inr (), Some (Group (snd (gp_stop g))), c2\<lparr>cl_calls := Map.empty\<rparr>)"
          using g by (simp add: client_stop_def gp_stop_def)
        moreover have "gp_closed (snd (gp_stop g))" using g(2) by (simp add: gp_stop_def)
        ultimately show ?thesis
          using assms x \<open>x = Inr lp\<close> y Inr unfolding example_main_def Let_def new by auto
      qed
    qed
  qed
qed

end
