(* ===== verification/Spec2Isabelle.thy ===== *)
theory Spec2Isabelle
  imports Ring_Buffer Models Dispatcher Frame_Reader Media_Source Shell_Source Transcode
    Streamer Streamer_Live Streamer_Done Keepalive Client Media_Path Media_Live Video_Path
    Film_Live Call_Life Source_Switch Simple_Stream
begin

text \<open>
  A model of \<open>rusttgcalls\<close>, a library that streams audio and video into Telegram group calls,
  and the theorems that say what it does.

  \<^bold>\<open>The program and its model.\<close>  A \<open>Client\<close> (\<open>rusttgcalls.rs\<close>) holds one call per chat.  A call
  is a \<open>GroupCall\<close>, which sends RTP over its own WebRTC stack, or an \<open>RTMPCall\<close>, which runs one
  ffmpeg process.  A source is a pair of byte streams that an ffmpeg process writes, Ogg/Opus
  and IVF/VP8; a frame reader cuts each into frames, a streamer paces the frames, and the stack
  sends them through the direct transport.

  \<^item> \<open>Prelude\<close>, \<open>Models\<close>: words, results, decimal texts; \<open>models/*.rs\<close>, the error type and its
    texts, states and constants.
  \<^item> \<open>Ring_Buffer\<close> (\<open>utils/ringbuf.rs\<close>), \<open>Dispatcher\<close> (\<open>utils/synccallback.rs\<close>): the stderr tail and the
    callback queue.
  \<^item> \<open>Frame_Reader\<close> (\<open>media/frame_reader.rs\<close>): both readers over the bytes of their source, with
    reference muxers; reading back what was muxed.
  \<^item> \<open>Media_Source\<close> (\<open>media/source.rs\<close>), \<open>Shell_Source\<close> (\<open>media/shell_source.rs\<close>), \<open>Transcode\<close>
    (\<open>media/transcode.rs\<close>), \<open>Shell_Reader\<close> (\<open>io/shell_reader.rs\<close>): sources, the command lines they
    build, the processes they start and the tasks that watch a process.
  \<^item> \<open>Streamer\<close>, \<open>Streamer_Live\<close>, \<open>Streamer_Done\<close> (\<open>media/streamer.rs\<close>): reader task, channel,
    pacing task and the calls as steps of one state; \<open>Streamer\<close> has the safety results,
    \<open>Streamer_Live\<close> progress, \<open>Streamer_Done\<close> the callers that wait for the end.
  \<^item> \<open>Srtp_Keys\<close>, \<open>Signaling\<close>, \<open>Peer_Factory\<close> (\<open>wrtc/native/keys.rs\<close>, \<open>wrtc/jsonparams/*.rs\<close>,
    \<open>remote.rs\<close>, \<open>signaling.rs\<close>, \<open>certpool.rs\<close>, \<open>factory.rs\<close>, \<open>wrtc/peer_factory.rs\<close>): keying
    material, the parameters exchanged with Telegram, certificates and SSRCs.
  \<^item> \<open>Direct_Transport\<close> (\<open>wrtc/native/direct_transport.rs\<close>): connecting, the send path, the worker
    event by event; \<open>Wrtc_Stack\<close> (\<open>stack.rs\<close>, \<open>track.rs\<close>, \<open>wrtc/peer_connection.rs\<close>) and \<open>Keepalive\<close>
    (\<open>wrtc/keepalive.rs\<close>) on top of it.
  \<^item> \<open>Call_Contract\<close> (\<open>instances/call.rs\<close>), \<open>Group_Call\<close>, \<open>Rtmp_Call\<close> (\<open>instances/*.rs\<close>), \<open>Client\<close>
    (\<open>rusttgcalls.rs\<close>): the trait as a contract, its implementations and the client.
  \<^item> \<open>Media_Track\<close>, \<open>Media_Path\<close>, \<open>Video_Path\<close>, \<open>Media_Live\<close>, \<open>Film_Live\<close>: the invariants that
    join reader, streamer and transport of a call, for what is on the wire, audio and video, and
    for getting to the end, of one track and of two that meet at the barrier; \<open>Source_Switch\<close>: replacing a source, and stopping the call meanwhile.
  \<^item> \<open>Transport_Life\<close>, \<open>Call_Life\<close>: all a transport and a call can go through, what every packet
    they send has in common, and what the fingerprint of the peer does not do.
  \<^item> \<open>Simple_Stream\<close> (\<open>examples/simple_stream.rs\<close>): the demonstration program.
  \<^item> \<open>Net_Addr\<close>, \<open>Float64\<close>: the parts of the standard library that the code computes with,
    parsing of addresses and binary64 arithmetic with its decimal output.

  \<^bold>\<open>How code becomes definitions.\<close>  A struct is a record with the fields of the source, a method
  a function from state to state; an error is \<open>Inl\<close> of the source's error type.  Atomics and
  mutexes make the methods atomic; where an await lets others in, the method is cut there and
  the tasks are steps (\<open>sm_step\<close>, \<open>sr_step\<close>, \<open>dt_act\<close>, \<open>transport_life\<close>, \<open>gp_step\<close>, \<open>group_life\<close>, \<open>fm_act\<close>), so a run is any interleaving.
  A spawned task is work recorded in the state, a callback an entry in a log.  Counters and
  SSRCs are words and wrap; durations are nanoseconds as natural numbers.  Time, random draws
  and the answers of the operating system are arguments.  The libraries that are not in the
  repository (DTLS, SRTP, STUN, RTP marshalling, the VP8 payloader, JSON) are the fields of
  \<open>wire_lib\<close>, \<open>json_reader\<close> and \<open>json_writer\<close>; a theorem that needs them not to fail says so
  (\<open>wire_total\<close>).

  \<^bold>\<open>Contracts.\<close>  \<open>tail_log\<close> is what a reader of stderr expects of the
  ring, \<open>event_sink\<close> what a sender of events expects of the dispatcher, \<open>frame_source\<close> what a
  streamer expects of a reader; \<open>call_contract\<close> and
  \<open>reliable_call\<close> are what the client expects of a call: a refinement of an abstract call of
  three flags; \<open>media_track\<close> is what a track of a call expects of the transport, \<open>call_track\<close>
  what a streamer expects of the call whose steps it makes.  Each is interpreted on the model's own definitions.

  \<^bold>\<open>What is shown.\<close>  From the file to the wire: what was muxed is read back (\<open>ogg_roundtrip\<close>,
  \<open>ivf_roundtrip\<close>); every frame is played once, in order, not early (\<open>streamer_plays_prefix\<close>,
  \<open>streamer_never_early\<close>) and in the end (\<open>stream_completes\<close>); every frame becomes the right RTP
  packets (\<open>audio_stream_packets\<close>, \<open>video_frame_packets\<close>); and all of it together for a call
  (\<open>song_reaches_wire\<close>, \<open>song_completes\<close>, \<open>film_completes\<close>, \<open>clip_reaches_wire\<close>).
  Whatever happens, every packet is one that was announced, and its number was taken at one of the
  counted steps of its track (\<open>call_packets_announced\<close>; a life carries the counts along).  Control: calls refine the contract, chats are independent, stopping
  and closing are final.  Around it: key directions, candidate choice, certificates, SSRCs,
  quoting, seeking, the callback queue, process exits.  A number of theorems say where the code
  does not do what it should: a short silence stalls the audio of an audio and video call
  (\<open>short_silence_stalls_audio\<close>), pausing an RTMP call loses its position
  (\<open>rtmp_restarts_at_old_offset\<close>) and stopping it does not end ffmpeg
  (\<open>rtmp_stop_leaves_ffmpeg\<close>), overlapping creations lose a call (\<open>client_create_race\<close>), a
  replaced source still sends a frame with the marker of the new one (\<open>replaced_source_sends_on\<close>), a
  stop during \<open>set_source\<close> is overtaken and the song plays on until the pending close runs
  (\<open>stop_during_set_source\<close>), an RTMP call that cannot be resumed has changed without anybody
  being told (\<open>client_upgrade_on_change\<close>), the peer of a
  connection is not authenticated (\<open>fingerprint_unchecked\<close>), a second
  connect cannot succeed (\<open>reconnect_never_connects\<close>).

  \<^bold>\<open>Bounds.\<close>  \<open>drain\<close> reads a source with fuel; one more than its bytes is enough because every
  sample consumes a byte.  The texts of seek positions are exact below \<open>2 ^ 20\<close> seconds.  The
  RTMP position is computed for offsets below \<open>2 ^ 61\<close> ms, where \<open>i64\<close> cannot wrap.

  \<^bold>\<open>How fine the steps are.\<close>  \<open>set_source\<close> behind its gate is one step, although a streamer's
  tasks are spawned a few lines before \<open>pause\<close> and \<open>on_end\<close> reach it, so a frame that a new
  streamer plays in that gap is not in a run.  \<open>send_rtp_bytes\<close> is one step, although it awaits each
  datagram: a close between two packets of a frame is not in a run.  The wait in \<open>connect\<close> is the test
  of the state, whichever branch of its select wakes it.  \<open>gp_run\<close> has the tasks of a call and
  \<open>pause\<close>, \<open>resume\<close>, \<open>mute\<close>, \<open>unmute\<close>; stopping, closing, sources and workers are steps of \<open>group_life\<close>
  and of the theorems that name them.  \<open>dt_act\<close> has the rounds of the worker of the last \<open>connect\<close> and
  the sends; \<open>transport_life\<close> has all workers, resets and closing.

  \<^bold>\<open>Not modelled.\<close>  The build script, module files and re-exports; trace
  output; the forwarding of \<open>poll_read\<close> to a pipe and buffering by tokio; the network below
  \<open>send_to\<close>.  A process is what it was started with, what it
  writes and when it exits.  The results about delivery end at the socket.
\<close>

section \<open>From a file to the wire\<close>

text \<open>
  C1. The way of a song.  An Ogg stream, however its packets are laced into pages, is installed
  in a connected call.  After any interleaving of the two reading and pacing tasks, the
  barrier, video frames on the same transport and \<open>pause\<close>, \<open>resume\<close>, \<open>mute\<close> and \<open>unmute\<close>,
  the audio packets on the wire are exactly the first \<open>n\<close> Opus packets of the stream for the
  \<open>n\<close> frames that have been played: one RTP packet each, none lost, repeated, reordered or
  altered, numbered consecutively, stamped with the samples that came before, the marker on the
  first, and no frame played before its slot.  The streamers that were there before are not among
  the tasks: \<open>replaced_source_sends_on\<close> says what one of them can still do.
\<close>

theorem song_reaches_wire:
  assumes ogg: "\<forall>pg \<in> set pgs. page_ok pg"
      "concat (map snd pgs) = concat (map lace (head # tags # packets))"
      "starts_with head (ascii ''OpusHead'')" "starts_with tags (ascii ''OpusTags'')" "[] \<notin> set packets"
    and set: "gp_set_source lib others now streams g0 = (Inr (), g1)"
      "st_audio streams = Some (concat (map page_bytes pgs))"
    and dt: "dt = sk_direct (gp_stack g1)" "dt_ready dt" "wire_total lib"
    and run: "gp_run lib as g1 = Some g2"
  shows "\<exists>a n. gp_audio g2 = Some a \<and> n = length (sm_played a) \<and> n \<le> length packets
    \<and> audio_sent (sk_direct (gp_stack g2)) =
        audio_sent dt @ opus_on_wire (dt_audio_seq dt) (dt_audio_ts dt) (dt_audio_ssrc dt) (take n packets)
    \<and> (\<forall>(slot, played, sent, x) \<in> set (sm_played a). slot \<le> played)"
proof -
  let ?src = "concat (map page_bytes pgs)"
  obtain m where drain: "drain (Suc m) opus_next (opus_new ?src) = (map opus_sample packets, Some File)"
    using ogg_source_drain [OF ogg] by blast
  obtain h where h: "g1 = gp_install lib now streams h" "dt_ready (sk_direct (gp_stack h))"
    "track_of dt = (audio_sent dt, dt_audio_seq dt, dt_audio_ts dt, dt_audio_ssrc dt, True)"
    using source_installed [OF set(1)] dt(1,2) by blast
  have "audio_path (track_of dt) (opus_new ?src) g1"
    using audio_path_install [OF h(2) set(2)] by (simp add: dt(1) h(1))
  then have path: "audio_path (track_of dt) (opus_new ?src) g2" by (rule audio_path_run [OF dt(3) _ run])
  obtain a n where a: "gp_audio g2 = Some a" "n \<le> length packets"
    "map played_sample (sm_played a) = map opus_sample (take n packets)" "on_schedule (sm_played a)"
    "audio_sent (sk_direct (gp_stack g2)) =
       audio_sent dt @ opus_on_wire (dt_audio_seq dt) (dt_audio_ts dt) (dt_audio_ssrc dt) (take n packets)"
    using audio_path_wire [OF path drain h(3) ogg(5)] by blast
  have "n = length (sm_played a)" using arg_cong [OF a(3), of length] a(2) by simp
  moreover have "\<forall>(slot, played, sent, x) \<in> set (sm_played a). slot \<le> played"
    using a(4) by (fastforce simp: on_schedule_def in_set_conv_nth)
  ultimately show ?thesis using a(1,2,5) by blast
qed

lemma song_reaches_wire_witness:
  "\<exists>g2. gp_run echo_lib play_one (snd (gp_set_source echo_lib id 0 one_packet_song example_call)) = Some g2
     \<and> audio_sent (sk_direct (gp_stack g2)) = [(111, 1000, 0, 7, True, [252, 1])]"
proof -
  let ?g1 = "gp_install echo_lib 0 one_packet_song example_call"
  let ?src = "concat (map page_bytes one_page)"
  note g1 = example_installed(1) and dt = example_installed(2-)
  obtain r where r: "opus_next (opus_new ?src) = (Inr (opus_sample [252, 1]), r)"
    using one_page_first by blast
  have a1: "gp_audio ?g1 = Some (sm_set_on_end audio_tag (sm_new (opus_new ?src) False 0))"
    by (simp add: gp_install_def one_packet_song_def gp_start_audio_def example_call_fields Let_def)
  obtain g2 a where g2: "gp_run echo_lib play_one ?g1 = Some g2" "gp_audio g2 = Some a" "length (sm_played a) = 1"
    using play_one_runs [OF a1 r echo_total dt(1)] by blast
  have "st_audio one_packet_song = Some ?src" by (simp add: one_packet_song_def)
  from song_reaches_wire [OF one_page_facts _ _ _ g1 this refl dt(1) echo_total g2(1)] g2 dt(2-5)
  have "audio_sent (sk_direct (gp_stack g2)) = opus_on_wire 1000 0 7 [[252, 1]]"
    by (auto simp: starts_with_def)
  then show ?thesis using g1 g2(1) by (simp add: opus_on_wire_def media_consts)
qed

text \<open>
  C2. A song gets to its end.  An Ogg stream without video has been installed in a connected
  call and the tasks and the client's calls have run in any interleaving, except that no read
  has stalled.  Then \<open>resume\<close> and \<open>unmute\<close> are enough: from there the tasks of the call have a
  finite schedule after which all Opus packets of the stream have been sent, each as its one
  RTP packet, and the end of the stream has been reported to the client, once, with \<open>File\<close>.
\<close>

theorem song_completes:
  assumes ogg: "\<forall>pg \<in> set pgs. page_ok pg"
      "concat (map snd pgs) = concat (map lace (head # tags # packets))"
      "starts_with head (ascii ''OpusHead'')" "starts_with tags (ascii ''OpusTags'')" "[] \<notin> set packets"
    and set: "gp_set_source lib others now streams g0 = (Inr (), g1)"
      "st_audio streams = Some (concat (map page_bytes pgs))" "st_video streams = None"
    and g1: "dt = sk_direct (gp_stack g1)" "dt_ready dt" "wire_total lib" "\<not> gp_closed g1"
      "gp_dispatcher g1 = None" "ge_on_stream_end (gp_events g1)"
    and run: "gp_run lib as g1 = Some g2" "Audio_task (Read_step True) \<notin> set as"
  shows "\<exists>cs g3. list_all call_task cs
    \<and> gp_run lib ([Call_op Op_resume, Call_op Op_unmute] @ cs) g2 = Some g3
    \<and> audio_sent (sk_direct (gp_stack g3)) =
        audio_sent dt @ opus_on_wire (dt_audio_seq dt) (dt_audio_ts dt) (dt_audio_ssrc dt) packets
    \<and> gp_calls g3 = gp_calls g1 @ [Stream_end Audio Microphone (Some File)]"
proof -
  let ?src = "concat (map page_bytes pgs)"
  obtain m where drain: "drain (Suc m) opus_next (opus_new ?src) = (map opus_sample packets, Some File)"
    using ogg_source_drain [OF ogg] by blast
  obtain h where h: "g1 = gp_install lib now streams h" and ready: "dt_ready (sk_direct (gp_stack h))"
    and tr: "track_of dt = (audio_sent dt, dt_audio_seq dt, dt_audio_ts dt, dt_audio_ssrc dt, True)"
    using source_installed [OF set(1)] g1(1,2) by blast
  have h': "gp_dispatcher h = None" "ge_on_stream_end (gp_events h)"
    using g1(5,6) by (auto simp: h gp_install_def gp_fire_upgrade_if_changed_def gp_submit_def Let_def split: if_splits option.splits)
  have "call_complete (map opus_sample packets) File (gp_calls g1) g1"
    unfolding h by (rule call_complete_install [OF ready h' set(2,3) drain])
  then have "call_complete (map opus_sample packets) File (gp_calls g1) g2"
    by (rule call_complete_run [OF g1(3) _ run(2,1)])
  moreover have "\<not> gp_closed g2" using gp_run_closed [OF run(1)] g1(4) by simp
  ultimately obtain u where u: "gp_run lib [Call_op Op_resume, Call_op Op_unmute] g2 = Some u"
    "call_complete (map opus_sample packets) File (gp_calls g1) u" "\<not> gp_paused u" "\<not> gp_muted u"
    using call_complete_unpaused [OF g1(3)] by blast
  have "audio_path (track_of dt) (opus_new ?src) g1"
    using audio_path_install [OF ready set(2)] by (simp add: g1(1) h)
  then have path: "audio_path (track_of dt) (opus_new ?src) u"
    using audio_path_run [OF g1(3) _ run(1)] audio_path_run [OF g1(3) _ u(1)] by blast
  obtain cs g3 where g3: "list_all call_task cs" "gp_run lib cs u = Some g3"
    "audio_sent (sk_direct (gp_stack g3)) =
       audio_sent dt @ opus_on_wire (dt_audio_seq dt) (dt_audio_ts dt) (dt_audio_ssrc dt) packets"
    "gp_calls g3 = gp_calls g1 @ [Stream_end Audio Microphone (Some File)]"
    using song_to_end [OF g1(3) u(2-4) path drain tr ogg(5)] by blast
  have "gp_run lib ([Call_op Op_resume, Call_op Op_unmute] @ cs) g2 = Some g3"
    unfolding gp_run_append u(1) using g3(2) by simp
  with g3(1,3,4) show ?thesis by (intro exI [of _ cs] exI [of _ g3]) simp
qed

lemma song_completes_witness:
  "\<exists>cs g3. gp_run echo_lib ([Call_op Op_resume, Call_op Op_unmute] @ cs)
       (the (gp_run echo_lib [Call_op Op_mute] (snd (gp_set_source echo_lib id 0 one_packet_song example_call)))) = Some g3
     \<and> audio_sent (sk_direct (gp_stack g3)) = [(111, 1000, 0, 7, True, [252, 1])]"
proof -
  let ?g1 = "gp_install echo_lib 0 one_packet_song example_call"
  note inst = example_installed
  have g1: "\<not> gp_closed ?g1" "gp_dispatcher ?g1 = None" "ge_on_stream_end (gp_events ?g1)"
    by (simp_all add: gp_install_def gp_fire_upgrade_if_changed_def gp_submit_def Let_def example_call_def)
  have src: "st_audio one_packet_song = Some (concat (map page_bytes one_page))" "st_video one_packet_song = None"
    by (simp_all add: one_packet_song_def)
  obtain g2 where g2: "gp_run echo_lib [Call_op Op_mute] ?g1 = Some g2" by simp
  have heads: "starts_with (ascii ''OpusHead'') (ascii ''OpusHead'')" "starts_with (ascii ''OpusTags'') (ascii ''OpusTags'')"
    "[] \<notin> set [[252, 1] :: bytes]"
    by (simp_all add: starts_with_def)
  obtain cs g3 where "gp_run echo_lib ([Call_op Op_resume, Call_op Op_unmute] @ cs) g2 = Some g3"
    "audio_sent (sk_direct (gp_stack g3)) = audio_sent (sk_direct (gp_stack ?g1)) @
       opus_on_wire (dt_audio_seq (sk_direct (gp_stack ?g1))) (dt_audio_ts (sk_direct (gp_stack ?g1)))
         (dt_audio_ssrc (sk_direct (gp_stack ?g1))) [[252, 1]]"
    using song_completes [OF one_page_facts heads inst(1) src refl inst(2) echo_total g1 g2] by auto
  then show ?thesis using inst g2 by (intro exI [of _ cs] exI [of _ g3]) (simp add: opus_on_wire_def media_consts)
qed

text \<open>
  C4. A clip, from its bytes to the packets.  A source with an IVF stream is installed in a
  connected call, with or without audio beside it, and the tasks of both tracks and the client
  run in any interleaving.  At any time the video packets that have been sent since are those of
  the VP8 payloader, started afresh, run over the first frames of the clip in order: one packet
  per chunk, numbered on from the transport's counter whatever the audio has sent in between, all
  chunks of a frame with one timestamp and the last one marked, the timestamps apart by the frame
  duration of the header.  As many frames as the streamer has played, and none before its slot.
\<close>

theorem clip_reaches_wire:
  assumes ivf: "length info = 12" "length rest = 8" "\<forall>f \<in> set fs. length (fst f) = 8 \<and> length (snd f) < 2 ^ 32"
    and set: "gp_set_source lib others now streams g0 = (Inr (), g1)"
      "st_video streams = Some (ivf_bytes info den num rest fs)"
    and dt: "dt = sk_direct (gp_stack g1)" "dt_ready dt" "video_total lib"
    and run: "gp_run lib as g1 = Some g2"
  shows "\<exists>s n. gp_video g2 = Some s \<and> n = length (sm_played s) \<and> n \<le> length fs
    \<and> video_sent (sk_direct (gp_stack g2)) = video_sent dt @
        vp8_on_wire lib (wl_vp8_new lib) (dt_video_seq dt) (dt_video_ts dt) (dt_video_ssrc dt)
          (if 0 < den \<and> 0 < num then unat num * 1000000000 div unat den else 33333333)
          (take n (map snd fs))
    \<and> (\<forall>(slot, played, sent, x) \<in> set (sm_played s). slot \<le> played)"
proof -
  let ?src = "ivf_bytes info den num rest fs"
  have inst: "video_path lib (video_track_of dt) (vp8_new ?src) g1" "dt_payloader dt = wl_vp8_new lib"
    using video_path_installed [OF set(1) _ set(2), of lib] dt(1,2) by blast+
  then have tr: "video_track_of dt = (video_sent dt, dt_video_seq dt, dt_video_ts dt, dt_video_ssrc dt, wl_vp8_new lib)"
    by (simp add: video_track_of_def)
  obtain m where drain: "drain (Suc m) vp8_next (vp8_new ?src) =
      (map (\<lambda>f. \<lparr>sm_data = f, sm_duration = ivf_duration den num\<rparr>) (map snd fs), Some File)"
    using ivf_source_drain [OF ivf] by blast
  from video_path_wire [OF video_path_run [OF dt(3) inst(1) run] drain tr]
  obtain s n where s: "gp_video g2 = Some s" "n = length (sm_played s)" "n \<le> length fs" "on_schedule (sm_played s)"
    "video_sent (sk_direct (gp_stack g2)) = video_sent dt @
       vp8_on_wire lib (wl_vp8_new lib) (dt_video_seq dt) (dt_video_ts dt) (dt_video_ssrc dt)
         (ivf_duration den num) (take n (map snd fs))"
    by auto
  then have "\<forall>(slot, played, sent, x) \<in> set (sm_played s). slot \<le> played"
    by (fastforce simp: on_schedule_def in_set_conv_nth)
  with s show ?thesis unfolding ivf_duration_def by blast
qed

lemma clip_reaches_wire_witness:
  "\<exists>g2. gp_run echo_lib show_one (snd (gp_set_source echo_lib id 0 one_frame_clip example_call)) = Some g2
     \<and> video_sent (sk_direct (gp_stack g2)) = [(100, 2000, 0, 9, True, [1, 2, 3])]"
proof -
  let ?g1 = "gp_install echo_lib 0 one_frame_clip example_call"
  let ?src = "ivf_bytes (replicate 12 0) 30 1 (replicate 8 0) one_frame"
  obtain r where r: "vp8_next (vp8_new ?src) = (Inr \<lparr>sm_data = [1, 2, 3], sm_duration = ivf_duration 30 1\<rparr>, r)"
    using one_frame_first by blast
  have v1: "gp_video ?g1 = Some (sm_set_on_end video_tag (sm_new (vp8_new ?src) False 0))"
    by (simp add: gp_install_def one_frame_clip_def gp_start_video_def example_call_fields Let_def)
  note inst = clip_installed
  obtain g2 s where g2: "gp_run echo_lib show_one ?g1 = Some g2" "gp_video g2 = Some s" "length (sm_played s) = 1"
    using show_one_runs [OF v1 r echo_video_total inst(2)] by blast
  have "st_video one_frame_clip = Some ?src" "length (replicate 12 (0 :: u8)) = 12" "length (replicate 8 (0 :: u8)) = 8"
    "\<forall>f \<in> set one_frame. length (fst f) = 8 \<and> length (snd f) < 2 ^ 32"
    by (simp_all add: one_frame_clip_def one_frame_def)
  from clip_reaches_wire [OF this(2-4) inst(1) this(1) refl inst(2) echo_video_total g2(1)] g2 inst(3-)
  have "video_sent (sk_direct (gp_stack g2)) =
      vp8_on_wire echo_lib 0 2000 0 9 (unat (1 :: u32) * 1000000000 div unat (30 :: u32)) [[1, 2, 3]]"
    by (auto simp: one_frame_def echo_lib_def)
  moreover have "\<dots> = [(100, 2000, 0, 9, True, [1, 2, 3])]"
    by (simp add: chunk_packets_def media_consts echo_lib_def MAX_VP8_PAYLOAD_def)
  ultimately show ?thesis using inst(1) g2(1) by simp
qed

text \<open>
  C3. A film gets to its end.  An Ogg stream and an IVF stream, each with a frame at least, have
  been installed in a connected call that is neither paused nor muted, and the tasks of both
  streamers have run in any interleaving, while no read has stalled and nobody has paused or
  muted the call.  Then the tasks are never stuck, at the barrier or elsewhere: they have a
  finite schedule after which all Opus packets and the packets of all VP8 frames have been sent,
  both in order and numbered consecutively, and the end has been reported once, for the audio.
\<close>

theorem film_completes:
  assumes ogg: "\<forall>pg \<in> set pgs. page_ok pg"
      "concat (map snd pgs) = concat (map lace (head # tags # packets))"
      "starts_with head (ascii ''OpusHead'')" "starts_with tags (ascii ''OpusTags'')" "[] \<notin> set packets"
    and ivf: "length info = 12" "length rest = 8" "\<forall>f \<in> set fs. length (fst f) = 8 \<and> length (snd f) < 2 ^ 32"
    and some: "packets \<noteq> []" "fs \<noteq> []"
    and set: "gp_set_source lib others now streams g0 = (Inr (), g1)"
      "st_audio streams = Some (concat (map page_bytes pgs))" "st_video streams = Some (ivf_bytes info den num rest fs)"
    and g1: "dt = sk_direct (gp_stack g1)" "dt_ready dt" "video_total lib" "\<not> gp_closed g1"
      "gp_dispatcher g1 = None" "ge_on_stream_end (gp_events g1)" "\<not> gp_paused g1" "\<not> gp_muted g1"
    and run: "gp_run lib as g1 = Some g2" "list_all plays_on as"
  shows "\<exists>cs g3. list_all call_task cs \<and> gp_run lib cs g2 = Some g3
    \<and> audio_sent (sk_direct (gp_stack g3)) =
        audio_sent dt @ opus_on_wire (dt_audio_seq dt) (dt_audio_ts dt) (dt_audio_ssrc dt) packets
    \<and> video_sent (sk_direct (gp_stack g3)) = video_sent dt @
        vp8_on_wire lib (wl_vp8_new lib) (dt_video_seq dt) (dt_video_ts dt) (dt_video_ssrc dt)
          (if 0 < den \<and> 0 < num then unat num * 1000000000 div unat den else 33333333) (map snd fs)
    \<and> gp_calls g3 = gp_calls g1 @ [Stream_end Audio Microphone (Some File)]"
proof -
  let ?s1 = "concat (map page_bytes pgs)" and ?s2 = "ivf_bytes info den num rest fs"
  let ?ys = "map (\<lambda>f. \<lparr>sm_data = f, sm_duration = ivf_duration den num\<rparr>) (map snd fs)"
  have lib: "wire_total lib" using g1(3) by (simp add: video_total_def)
  obtain m where d1: "drain (Suc m) opus_next (opus_new ?s1) = (map opus_sample packets, Some File)"
    using ogg_source_drain [OF ogg] by blast
  obtain k where d2: "drain (Suc k) vp8_next (vp8_new ?s2) = (?ys, Some File)"
    using ivf_source_drain [OF ivf] by blast
  obtain h where h: "g1 = gp_install lib now streams h" and ready: "dt_ready (sk_direct (gp_stack h))"
    and tr: "track_of dt = (audio_sent dt, dt_audio_seq dt, dt_audio_ts dt, dt_audio_ssrc dt, True)"
    using source_installed [OF set(1)] g1(1,2) by blast
  have h': "\<not> gp_closed h" "gp_dispatcher h = None" "ge_on_stream_end (gp_events h)" "\<not> gp_paused h" "\<not> gp_muted h"
    using g1(4-8) by (auto simp: h gp_install_def gp_fire_upgrade_if_changed_def gp_submit_def Let_def split: if_splits option.splits)
  have "map opus_sample packets \<noteq> []" "?ys \<noteq> []" using some by simp_all
  then have "film (map opus_sample packets) File ?ys File (gp_calls g1) True g1"
    unfolding h by (intro film_install [OF ready h' set(2,3) d1 _ d2])
  then obtain w where "film (map opus_sample packets) File ?ys File (gp_calls g1) w g2"
    using film_run [OF g1(3) _ run(2,1)] by blast
  then obtain cs g3 a v where g3: "list_all call_task cs" "gp_run lib cs g2 = Some g3" "gp_audio g3 = Some a"
    "gp_video g3 = Some v" "map played_sample (sm_played a) = map opus_sample packets"
    "map played_sample (sm_played v) = ?ys" "gp_calls g3 = gp_calls g1 @ [Stream_end Audio Microphone (Some File)]"
    using film_ends [OF g1(3)] by blast
  have "audio_path (track_of dt) (opus_new ?s1) g1"
    using audio_path_install [OF ready set(2)] by (simp add: g1(1) h)
  then have "audio_path (track_of dt) (opus_new ?s1) g3"
    using audio_path_run [OF lib _ run(1)] audio_path_run [OF lib _ g3(2)] by blast
  with audio_path_all [OF _ d1 tr ogg(5) g3(3,5)]
  have sound: "audio_sent (sk_direct (gp_stack g3)) =
      audio_sent dt @ opus_on_wire (dt_audio_seq dt) (dt_audio_ts dt) (dt_audio_ssrc dt) packets" by blast
  have v1: "video_path lib (video_track_of dt) (vp8_new ?s2) g1" "dt_payloader dt = wl_vp8_new lib"
    using video_path_installed [OF set(1) _ set(3), of lib] g1(1,2) by blast+
  then have vt: "video_track_of dt = (video_sent dt, dt_video_seq dt, dt_video_ts dt, dt_video_ssrc dt, wl_vp8_new lib)"
    by (simp add: video_track_of_def)
  have "video_path lib (video_track_of dt) (vp8_new ?s2) g3"
    using video_path_run [OF g1(3) v1(1) run(1)] video_path_run [OF g1(3) _ g3(2)] by blast
  with video_path_all [OF _ d2 vt g3(4,6)]
  have "video_sent (sk_direct (gp_stack g3)) = video_sent dt @
      vp8_on_wire lib (wl_vp8_new lib) (dt_video_seq dt) (dt_video_ts dt) (dt_video_ssrc dt) (ivf_duration den num) (map snd fs)"
    by blast
  with sound g3(1,2,7) show ?thesis unfolding ivf_duration_def by blast
qed

lemma film_completes_witness:
  "\<exists>cs g3. gp_run echo_lib cs (the (gp_run echo_lib [Audio_task (Tick 5)] (snd (gp_set_source echo_lib id 0 one_film example_call)))) = Some g3
     \<and> audio_sent (sk_direct (gp_stack g3)) = [(111, 1000, 0, 7, True, [252, 1])]
     \<and> video_sent (sk_direct (gp_stack g3)) = [(100, 2000, 0, 9, True, [1, 2, 3])]"
proof -
  let ?g1 = "gp_install echo_lib 0 one_film example_call"
  note inst = film_installed
  have g1: "\<not> gp_closed ?g1" "gp_dispatcher ?g1 = None" "ge_on_stream_end (gp_events ?g1)" "\<not> gp_paused ?g1" "\<not> gp_muted ?g1"
    by (simp_all add: gp_install_def gp_fire_upgrade_if_changed_def gp_submit_def Let_def example_call_def)
  obtain g2 where g2: "gp_run echo_lib [Audio_task (Tick 5)] ?g1 = Some g2" using film_sound by auto
  have heads: "starts_with (ascii ''OpusHead'') (ascii ''OpusHead'')" "starts_with (ascii ''OpusTags'') (ascii ''OpusTags'')"
    "[] \<notin> set [[252, 1] :: bytes]"
    by (simp_all add: starts_with_def)
  have clip: "length (replicate 12 (0 :: u8)) = 12" "length (replicate 8 (0 :: u8)) = 8"
    "\<forall>f \<in> set one_frame. length (fst f) = 8 \<and> length (snd f) < 2 ^ 32" "[[252, 1] :: bytes] \<noteq> []" "one_frame \<noteq> []"
    by (simp_all add: one_frame_def)
  have src: "st_audio one_film = Some (concat (map page_bytes one_page))"
    "st_video one_film = Some (ivf_bytes (replicate 12 0) 30 1 (replicate 8 0) one_frame)"
    by (simp_all add: one_film_def)
  have "list_all plays_on [Audio_task (Tick 5)]" by (simp add: plays_on_def)
  from film_completes [OF one_page_facts heads clip inst(1) src refl inst(2) echo_video_total g1 g2 this] inst(3-8)
  obtain cs g3 where g3: "gp_run echo_lib cs g2 = Some g3"
    "audio_sent (sk_direct (gp_stack g3)) = opus_on_wire 1000 0 7 [[252, 1]]"
    "video_sent (sk_direct (gp_stack g3)) =
       vp8_on_wire echo_lib 0 2000 0 9 (unat (1 :: u32) * 1000000000 div unat (30 :: u32)) [[1, 2, 3]]"
    by (auto simp: one_frame_def echo_lib_def)
  have "opus_on_wire 1000 0 7 [[252, 1]] = [(111, 1000, 0, 7, True, [252, 1])]"
    by (simp add: opus_on_wire_def media_consts)
  moreover have "vp8_on_wire echo_lib 0 2000 0 9 (unat (1 :: u32) * 1000000000 div unat (30 :: u32)) [[1, 2, 3]] =
      [(100, 2000, 0, 9, True, [1, 2, 3])]"
    by (simp add: chunk_packets_def media_consts echo_lib_def MAX_VP8_PAYLOAD_def)
  ultimately show ?thesis using g3 g2 inst(1) by (intro exI [of _ cs] exI [of _ g3]) simp
qed

section \<open>Seeking\<close>

text \<open>
  C36. Three parts of the program write a position for ffmpeg, each with floating-point
  arithmetic of its own: the shell sources and the transcoder from a duration, the RTMP call
  from milliseconds.  For every position below twelve days they write the same text, and it is
  the exact one: the seconds, a point and three digits.
\<close>

theorem seek_texts_exact:
  assumes "ms < 2 ^ 20 * 1000"
  shows "seek_text (ms * 1000000) = dec (ms div 1000) @ ''.'' @ three_digits (ms mod 1000)
    \<and> rtmp_seek_text (of_nat ms) = seek_text (ms * 1000000)
    \<and> (0 < ms \<longrightarrow> drop (length (ffmpeg_input_prefix path)) (seek_input path (ms * 1000000)) =
          [''-i'', path, ''-ss'', seek_text (ms * 1000000)])"
proof -
  have "unat (of_nat ms :: u64) = ms" using assms by (simp add: unat_of_nat_small)
  then show ?thesis
    using assms by (simp add: seek_text_def rtmp_seek_text_def seek_offset_text_exact millis_text_exact seek_input_def)
qed

lemma seek_texts_exact_witness: "rtmp_seek_text 61007 = ''61.007''"
  using seek_texts_exact [of 61007 "''a''"]
  by (simp add: three_digits_def dec.simps digit_char_def)

end
